(* ===== verification/GS_Prelude.thy ===== *)
theory GS_Prelude
  imports Main "HOL-Library.Word"
begin

unbundle bit_operations_syntax

text \<open>
  Shared vocabulary of the development: the machine types of the C++ sources, the outcome
  type that separates defined results from undefined behaviour, containers, byte strings, decimal
  printing, and the lemmas on words and lists that the component theories share.
\<close>

section \<open>Types\<close>

type_synonym byte = "8 word"
type_synonym u16 = "16 word"
type_synonym u32 = "32 word"
type_synonym u64 = "64 word"
type_synonym bytes = "byte list"

named_theorems unfold_ops \<open>definitions of operations that component proofs unfold\<close>
named_theorems roundtrips \<open>decode-after-encode equations\<close>

section \<open>Outcomes of C++ code\<close>

text \<open>
  A C++ function that reads outside an object has no defined result. Such code is a branch
  \<open>UB\<close> of the model, every other result is \<open>Done\<close>.
\<close>

datatype 'a cpp = Done 'a | UB

fun bind_cpp :: "'a cpp \<Rightarrow> ('a \<Rightarrow> 'b cpp) \<Rightarrow> 'b cpp" where
  "bind_cpp (Done x) f = f x"
| "bind_cpp UB f = UB"

lemma bind_cpp_Done_iff [simp]:
  "bind_cpp m f = Done y \<longleftrightarrow> (\<exists>x. m = Done x \<and> f x = Done y)"
  by (cases m) auto

lemma bind_cpp_UB_iff:
  "bind_cpp m f = UB \<longleftrightarrow> m = UB \<or> (\<exists>x. m = Done x \<and> f x = UB)"
  by (cases m) auto

lemma bind_cpp_assoc: "bind_cpp (bind_cpp m f) g = bind_cpp m (\<lambda>x. bind_cpp (f x) g)"
  by (cases m) auto

lemma map_cpp_Done_iff [simp]: "map_cpp f m = Done y \<longleftrightarrow> (\<exists>x. m = Done x \<and> y = f x)"
  by (cases m) auto

lemma map_cpp_UB_iff [simp]: "map_cpp f m = UB \<longleftrightarrow> m = UB"
  by (cases m) auto

text \<open>A callback run on each element of a list, in order, until one has no defined result.\<close>

fun fold_cpp :: "('a \<Rightarrow> 's \<Rightarrow> 's cpp) \<Rightarrow> 'a list \<Rightarrow> 's \<Rightarrow> 's cpp" where
  "fold_cpp f [] s = Done s"
| "fold_cpp f (x # xs) s = bind_cpp (f x s) (fold_cpp f xs)"

lemma bind_cpp_Done [simp]: "bind_cpp m Done = m"
  by (cases m) auto

lemma fold_cpp_none [simp]: "fold_cpp f [] = Done"
  by (rule ext) simp

lemma fold_cpp_append: "fold_cpp f (xs @ ys) s = bind_cpp (fold_cpp f xs s) (fold_cpp f ys)"
proof (induction xs arbitrary: s)
  case Nil
  then show ?case by simp
next
  case (Cons x xs)
  then show ?case by (cases "f x s") simp_all
qed

lemma fold_cpp_invariant:
  assumes "fold_cpp f xs s = Done t" and "P s"
    and "\<And>x s t. x \<in> set xs \<Longrightarrow> P s \<Longrightarrow> f x s = Done t \<Longrightarrow> P t"
  shows "P t"
  using assms
proof (induction xs arbitrary: s)
  case Nil
  then show ?case by simp
next
  case (Cons x xs)
  from Cons.prems(1) obtain u where u: "f x s = Done u" "fold_cpp f xs u = Done t" by auto
  from Cons.prems(3) [OF _ Cons.prems(2) u(1)] have "P u" by simp
  from Cons.IH [OF u(2) this] Cons.prems(3) show ?case by auto
qed

lemma fold_cpp_total:
  assumes "\<And>x s. x \<in> set xs \<Longrightarrow> \<exists>t. f x s = Done t"
  shows "\<exists>t. fold_cpp f xs s = Done t"
  using assms
proof (induction xs arbitrary: s)
  case Nil
  then show ?case by simp
next
  case (Cons x xs)
  obtain u where u: "f x s = Done u" using Cons.prems [of x s] by auto
  have "\<exists>t. fold_cpp f xs u = Done t" using Cons.IH Cons.prems by auto
  with u show ?case by simp
qed

lemma bind_cpp_cong [fundef_cong]:
  "m = m' \<Longrightarrow> (\<And>x. m' = Done x \<Longrightarrow> f x = g x) \<Longrightarrow> bind_cpp m f = bind_cpp m' g"
  by (cases m') auto

section \<open>Containers\<close>

text \<open>
  Operations of \<open>std::vector\<close> and \<open>std::deque\<close> whose precondition the caller has to see to: a copy or an
  erasure of the first \<open>n\<close> elements needs so many, \<open>front\<close> and \<open>pop_front\<close> need one.
\<close>

definition copy_front :: "nat \<Rightarrow> 'a list \<Rightarrow> 'a list cpp" where
  "copy_front n xs = (if n \<le> length xs then Done (take n xs) else UB)"

definition erase_front :: "nat \<Rightarrow> 'a list \<Rightarrow> 'a list cpp" where
  "erase_front n xs = (if n \<le> length xs then Done (drop n xs) else UB)"

fun front :: "'a list \<Rightarrow> 'a cpp" where
  "front [] = UB"
| "front (x # xs) = Done x"

fun pop_front :: "'a list \<Rightarrow> 'a list cpp" where
  "pop_front [] = UB"
| "pop_front (x # xs) = Done xs"

lemma front_ops [simp]:
  "n \<le> length xs \<Longrightarrow> copy_front n xs = Done (take n xs)"
  "n \<le> length xs \<Longrightarrow> erase_front n xs = Done (drop n xs)"
  "xs \<noteq> [] \<Longrightarrow> front xs = Done (hd xs)"
  "xs \<noteq> [] \<Longrightarrow> pop_front xs = Done (tl xs)"
  by (simp_all add: copy_front_def erase_front_def) (cases xs; simp)+

lemma erase_front_Done: "erase_front n xs = Done ys \<Longrightarrow> ys = drop n xs \<and> n \<le> length xs"
  by (simp add: erase_front_def split: if_splits)

section \<open>Byte strings\<close>

text \<open>\<open>std::string\<close> is a sequence of bytes, as Isabelle's \<open>char list\<close> is.\<close>

definition bytes_of_string :: "string \<Rightarrow> bytes" where
  "bytes_of_string s = map of_char s"

definition string_of_bytes :: "bytes \<Rightarrow> string" where
  "string_of_bytes bs = map (\<lambda>b. char_of (unat b)) bs"

lemma of_char_less_256: "(of_char c :: nat) < 256"
  by simp

lemma unat_of_char: "unat (of_char c :: byte) = of_char c"
proof -
  have "(of_char c :: byte) = of_nat (of_char c)" by (rule of_nat_of_char [symmetric])
  then show ?thesis by (simp add: unat_of_nat)
qed

lemma string_of_bytes_of_string [simp, roundtrips]: "string_of_bytes (bytes_of_string s) = s"
  by (simp add: string_of_bytes_def bytes_of_string_def unat_of_char comp_def)

lemma of_char_char_of_unat: "(of_char (char_of (unat (b :: byte))) :: byte) = b"
proof -
  have "(of_char (char_of (unat b)) :: byte) = of_nat (of_char (char_of (unat b)))"
    by (rule of_nat_of_char [symmetric])
  also have "\<dots> = of_nat (unat b mod 256)" by simp
  also have "\<dots> = b"
  proof -
    have "unat b < 256" using unsigned_less [of b, where 'a = nat] by simp
    then show ?thesis by simp
  qed
  finally show ?thesis .
qed

lemma bytes_of_string_of_bytes [simp, roundtrips]: "bytes_of_string (string_of_bytes bs) = bs"
  by (simp add: string_of_bytes_def bytes_of_string_def of_char_char_of_unat comp_def map_idI)

lemma length_bytes_of_string [simp]: "length (bytes_of_string s) = length s"
  by (simp add: bytes_of_string_def)

lemma length_string_of_bytes [simp]: "length (string_of_bytes s) = length s"
  by (simp add: string_of_bytes_def)

section \<open>Decimal printing\<close>

text \<open>\<open>operator<<\<close> and \<open>std::to_string\<close> on unsigned values.\<close>

definition digit :: "nat \<Rightarrow> char" where
  "digit d = char_of (48 + d)"

fun dec :: "nat \<Rightarrow> string" where
  "dec n = (if n < 10 then [digit n] else dec (n div 10) @ [digit (n mod 10)])"

declare dec.simps [simp del]

text \<open>Reading a decimal back, the reference the printed counters are checked against.\<close>

definition dec_value :: "string \<Rightarrow> nat" where
  "dec_value s = foldl (\<lambda>a c. 10 * a + (of_char c - 48)) 0 s"

lemma dec_value_snoc: "dec_value (s @ [c]) = 10 * dec_value s + (of_char c - 48)"
  by (simp add: dec_value_def)

lemma of_char_digit: "d < 10 \<Longrightarrow> (of_char (digit d) :: nat) = 48 + d"
  by (simp add: digit_def)

lemma dec_value_dec [simp, roundtrips]: "dec_value (dec n) = n"
proof (induction n rule: dec.induct)
  case (1 n)
  show ?case
  proof (cases "n < 10")
    case True
    then show ?thesis by (simp add: dec.simps [of n] dec_value_def of_char_digit)
  next
    case False
    with "1.IH" show ?thesis
      by (simp add: dec.simps [of n] dec_value_snoc of_char_digit)
  qed
qed

lemma dec_inj: "dec m = dec n \<longleftrightarrow> m = n"
  by (metis dec_value_dec)

section \<open>Upper case\<close>

text \<open>\<open>std::toupper\<close> in the C locale, which the programs never change.\<close>

definition to_upper :: "char \<Rightarrow> char" where
  "to_upper c = (let n = (of_char c :: nat) in
     if 97 \<le> n \<and> n \<le> 122 then char_of (n - 32) else c)"

definition uppercase :: "string \<Rightarrow> string" where
  "uppercase s = map to_upper s"

lemma to_upper_idem [simp]: "to_upper (to_upper c) = to_upper c"
  by (auto simp: to_upper_def Let_def)

lemma uppercase_idem [simp]: "uppercase (uppercase s) = uppercase s"
  by (simp add: uppercase_def)

section \<open>Lists\<close>

text \<open>The last \<open>n\<close> elements: what a ring buffer of capacity \<open>n\<close> keeps of a history.\<close>

definition last_n :: "nat \<Rightarrow> 'a list \<Rightarrow> 'a list" where
  "last_n n xs = drop (length xs - n) xs"

lemma length_last_n [simp]: "length (last_n n xs) = min n (length xs)"
  by (simp add: last_n_def)

lemma last_n_all [simp]: "length xs \<le> n \<Longrightarrow> last_n n xs = xs"
  by (simp add: last_n_def)

lemma last_n_snoc: "last_n n (last_n n xs @ [x]) = last_n n (xs @ [x])"
  by (cases "length xs \<le> n") (auto simp: last_n_def Suc_diff_le)

lemma last_n_last_n: "m \<le> n \<Longrightarrow> last_n m (last_n n xs) = last_n m xs"
  by (cases "length xs \<le> n") (auto simp: last_n_def)

lemma last_n_append_last_n: "last_n n (last_n n xs @ ys) = last_n n (xs @ ys)"
proof (induction ys rule: rev_induct)
  case Nil
  then show ?case by (simp add: last_n_last_n)
next
  case (snoc y ys)
  have "last_n n ((last_n n xs @ ys) @ [y]) = last_n n (last_n n (last_n n xs @ ys) @ [y])"
    by (simp only: last_n_snoc)
  also have "\<dots> = last_n n (last_n n (xs @ ys) @ [y])" by (simp only: snoc.IH)
  also have "\<dots> = last_n n ((xs @ ys) @ [y])" by (simp only: last_n_snoc)
  finally show ?case by simp
qed

section \<open>Words\<close>

lemma unat_of_nat_small: "n < 2 ^ LENGTH('a) \<Longrightarrow> unat (of_nat n :: 'a::len word) = n"
  by (simp add: unat_of_nat take_bit_nat_eq_self_iff)

lemma unat_less_u16 [simp]: "unat (x :: u16) < 65536"
  using unsigned_less [of x] by simp

lemma unat_less_u32 [simp]: "unat (x :: u32) < 4294967296"
  using unsigned_less [of x] by simp

lemma unat_less_byte [simp]: "unat (x :: byte) < 256"
  using unsigned_less [of x] by simp

end
