(* ===== verification/Stream_Splitter.thy ===== *)
theory Stream_Splitter
  imports GS_Prelude
begin

text \<open>
  The interface of an incremental decoder over a byte stream. Three loops of the program
  have this shape: the IPC receive loops of the daemon session and of the UI client
  (\<open>try_decode\<close> until it fails) and the CCSDS framer (cut packets until the buffer is
  too short). Each keeps a buffer, appends what the socket delivered and drains it.
  What makes them correct is that the cut points do not depend on how the transport
  chopped the stream; that is proved here once, from the laws of a single step.
\<close>

section \<open>Steps and drains\<close>

text \<open>
  One attempt on a buffer: nothing to take yet (\<open>Stop\<close>), an output and the rest of
  the buffer (\<open>Emit\<close>), or undefined behaviour (\<open>Fault\<close>).
\<close>

datatype ('o, 'b) split = Stop | Emit 'o "'b list" | Fault

text \<open>The receive loop: append a chunk to the buffer, drain it, keep the rest.\<close>

fun feed :: "('b list \<Rightarrow> ('o list \<times> 'b list) cpp) \<Rightarrow> 'b list \<Rightarrow> 'b list list
    \<Rightarrow> ('o list \<times> 'b list) cpp" where
  "feed drain b [] = Done ([], b)"
| "feed drain b (c # cs) =
     bind_cpp (drain (b @ c)) (\<lambda>(xs, r). map_cpp (\<lambda>(ys, q). (xs @ ys, q)) (feed drain r cs))"

locale stream_splitter =
  fixes step :: "'b list \<Rightarrow> ('o, 'b) split"
    and drain :: "'b list \<Rightarrow> ('o list \<times> 'b list) cpp"
  assumes emit_append: "step b = Emit x r \<Longrightarrow> step (b @ c) = Emit x (r @ c)"
    and emit_shrinks: "step b = Emit x r \<Longrightarrow> length r < length b"
    and drain_Stop: "step b = Stop \<Longrightarrow> drain b = Done ([], b)"
    and drain_Emit: "step b = Emit x r \<Longrightarrow> drain b = map_cpp (\<lambda>(xs, q). (x # xs, q)) (drain r)"
    and drain_Fault: "step b = Fault \<Longrightarrow> drain b = UB"
begin

lemma drain_cases [case_names Stop Emit]:
  assumes "drain b = Done (xs, r)"
  obtains "step b = Stop" "xs = []" "r = b"
  | x ys q where "step b = Emit x q" "drain q = Done (ys, r)" "xs = x # ys"
  using assms by (cases "step b") (auto simp: drain_Stop drain_Emit drain_Fault)

text \<open>Draining is resumable: the part already drained is not looked at again.\<close>

lemma drain_append:
  "drain b = Done (xs, r) \<Longrightarrow> drain (b @ c) = map_cpp (\<lambda>(ys, q). (xs @ ys, q)) (drain (r @ c))"
proof (induction "length b" arbitrary: b xs rule: less_induct)
  case less
  from less.prems show ?case
  proof (cases rule: drain_cases)
    case Stop
    then show ?thesis by (cases "drain (b @ c)") auto
  next
    case (Emit x ys q)
    with less.hyps [of q ys] emit_shrinks [of b x q] emit_append [of b x q c] show ?thesis
      by (cases "drain (r @ c)") (auto simp: drain_Emit)
  qed
qed

lemma drain_rest_stops: "drain b = Done (xs, r) \<Longrightarrow> step r = Stop"
proof (induction "length b" arbitrary: b xs rule: less_induct)
  case less
  from less.prems show ?case
  proof (cases rule: drain_cases)
    case Stop
    then show ?thesis by simp
  next
    case (Emit x ys q)
    with less.hyps [of q ys] emit_shrinks [of b x q] show ?thesis by auto
  qed
qed

lemma drain_rest: "drain b = Done (xs, r) \<Longrightarrow> drain r = Done ([], r)"
  by (simp add: drain_rest_stops drain_Stop)

lemma drain_length: "drain b = Done (xs, r) \<Longrightarrow> length r + length xs \<le> length b"
proof (induction "length b" arbitrary: b xs rule: less_induct)
  case less
  from less.prems show ?case
  proof (cases rule: drain_cases)
    case Stop
    then show ?thesis by simp
  next
    case (Emit x ys q)
    with less.hyps [of q ys] emit_shrinks [of b x q] show ?thesis by auto
  qed
qed

text \<open>
  Chunk independence: a session that read the stream in any pieces has produced what one
  drain of the whole stream produces, and keeps the same undecoded rest.
\<close>

lemma feed_concat:
  assumes "step b = Stop" and "feed drain b cs = Done (xs, r)"
  shows "drain (b @ concat cs) = Done (xs, r)"
  using assms
proof (induction cs arbitrary: b xs)
  case Nil
  then show ?case by (simp add: drain_Stop)
next
  case (Cons c cs)
  from Cons.prems obtain ys zs q where
    d: "drain (b @ c) = Done (ys, q)" and f: "feed drain q cs = Done (zs, r)" and xs: "xs = ys @ zs"
    by auto
  from Cons.IH [OF drain_rest_stops [OF d] f] have "drain (q @ concat cs) = Done (zs, r)" .
  with drain_append [OF d, of "concat cs"] xs show ?case by simp
qed

lemma feed_same_stream:
  assumes "step b = Stop" and "concat cs = concat ds"
    and "feed drain b cs = Done x" and "feed drain b ds = Done y"
  shows "x = y"
proof -
  obtain xs r ys q where "x = (xs, r)" "y = (ys, q)" by (cases x, cases y)
  with assms feed_concat [of b cs xs r] feed_concat [of b ds ys q] show ?thesis by simp
qed

text \<open>Without faults the receive loop always returns.\<close>

lemma drain_total:
  assumes "\<And>b. step b \<noteq> Fault"
  shows "\<exists>xs r. drain b = Done (xs, r)"
proof (induction "length b" arbitrary: b rule: less_induct)
  case less
  show ?case
  proof (cases "step b")
    case Stop
    then show ?thesis by (simp add: drain_Stop)
  next
    case (Emit x r)
    with less emit_shrinks [of b x r] show ?thesis by (fastforce simp: drain_Emit)
  next
    case Fault
    with assms show ?thesis by simp
  qed
qed

lemma feed_total:
  assumes "\<And>b. step b \<noteq> Fault"
  shows "\<exists>xs r. feed drain b cs = Done (xs, r)"
proof (induction cs arbitrary: b)
  case Nil
  then show ?case by simp
next
  case (Cons c cs)
  obtain xs r where d: "drain (b @ c) = Done (xs, r)"
    using drain_total [OF assms] by blast
  obtain ys q where "feed drain r cs = Done (ys, q)"
    using Cons.IH by blast
  with d show ?case by simp
qed

text \<open>
  Where faults are possible: a set of buffers that never fault, closed under prefixes and
  under taking an item, keeps the receive loop defined.
\<close>

lemma drain_closed:
  assumes closed: "\<And>b x r. P b \<Longrightarrow> step b = Emit x r \<Longrightarrow> P r"
    and "drain b = Done (xs, r)" and "P (b @ t)"
  shows "P (r @ t)"
  using assms(2,3)
proof (induction "length b" arbitrary: b xs rule: less_induct)
  case less
  from less.prems(1) show ?case
  proof (cases rule: drain_cases)
    case Stop
    with less.prems show ?thesis by simp
  next
    case (Emit x ys q)
    from closed [OF less.prems(2)] emit_append [OF Emit(1)] have "P (q @ t)" by blast
    with less.hyps [OF emit_shrinks [OF Emit(1)] Emit(2)] show ?thesis by simp
  qed
qed

lemma drain_safe:
  assumes safe: "\<And>b. P b \<Longrightarrow> step b \<noteq> Fault"
    and closed: "\<And>b x r. P b \<Longrightarrow> step b = Emit x r \<Longrightarrow> P r"
    and "P b"
  shows "\<exists>xs r. drain b = Done (xs, r)"
  using assms(3)
proof (induction "length b" arbitrary: b rule: less_induct)
  case less
  show ?case
  proof (cases "step b")
    case Stop
    then show ?thesis by (simp add: drain_Stop)
  next
    case (Emit x r)
    with less.hyps [of r] emit_shrinks [of b x r] closed [OF less.prems] show ?thesis
      by (fastforce simp: drain_Emit)
  next
    case Fault
    with safe less.prems show ?thesis by simp
  qed
qed

lemma feed_safe:
  assumes safe: "\<And>b. P b \<Longrightarrow> step b \<noteq> Fault"
    and closed: "\<And>b x r. P b \<Longrightarrow> step b = Emit x r \<Longrightarrow> P r"
    and prefix: "\<And>b c. P (b @ c) \<Longrightarrow> P b"
    and "P (b @ concat cs)"
  shows "\<exists>xs r. feed drain b cs = Done (xs, r)"
  using assms(4)
proof (induction cs arbitrary: b)
  case Nil
  then show ?case by simp
next
  case (Cons c cs)
  from Cons.prems have P: "P ((b @ c) @ concat cs)" by simp
  have "\<exists>xs r. drain (b @ c) = Done (xs, r)"
    by (rule drain_safe [where P = P]) (use safe closed prefix [OF P] in blast)+
  then obtain xs r where d: "drain (b @ c) = Done (xs, r)" by blast
  have "P (r @ concat cs)"
    by (rule drain_closed [where P = P, OF _ d P]) (use closed in blast)
  from Cons.IH [OF this] obtain ys q where "feed drain r cs = Done (ys, q)" by blast
  with d show ?case by simp
qed

text \<open>A stream of items, each cut by one step, drains to exactly those items.\<close>

lemma drain_items:
  assumes "\<And>x c. x \<in> set xs \<Longrightarrow> step (enc x @ c) = Emit (out x) c"
  shows "drain (concat (map enc xs) @ t) = map_cpp (\<lambda>(ys, q). (map out xs @ ys, q)) (drain t)"
  using assms
proof (induction xs)
  case Nil
  then show ?case by (cases "drain t") auto
next
  case (Cons x xs)
  then have "step (enc x @ concat (map enc xs) @ t) = Emit (out x) (concat (map enc xs) @ t)"
    by simp
  with Cons show ?case
    by (cases "drain t") (auto simp: drain_Emit)
qed

end

end
