(* ===== verification/Protocol.thy ===== *)
theory Protocol
  imports GS_Prelude Stream_Splitter
begin

text \<open>
  The IPC protocol between the daemon and its clients: \<open>shared/src/protocol.cpp\<close> and
  \<open>shared/include/exn/shared/protocol.hpp\<close>. Big-endian integers, length-prefixed frames,
  string payloads and packet-metadata payloads. Reads past the end of a vector are \<open>UB\<close>.
\<close>

section \<open>Message types and frames\<close>

text \<open>
  \<open>enum class MsgType : uint16_t\<close>. The underlying type is fixed, so a cast from any
  16-bit value is a value of the enum; the ones without an enumerator are \<open>OtherType\<close>.
\<close>

datatype MsgType =
    Hello | LinkStateMsg | PacketRx | PacketTx | ErrorMsg
  | Command | Query | QueryResult | PacketSend
  | OtherType u16

fun msg_code :: "MsgType \<Rightarrow> u16" where
  "msg_code Hello = 1"
| "msg_code LinkStateMsg = 2"
| "msg_code PacketRx = 3"
| "msg_code PacketTx = 4"
| "msg_code ErrorMsg = 255"
| "msg_code Command = 10"
| "msg_code Query = 11"
| "msg_code QueryResult = 12"
| "msg_code PacketSend = 13"
| "msg_code (OtherType w) = w"

text \<open>\<open>static_cast<MsgType>(t)\<close>.\<close>

definition msg_type :: "u16 \<Rightarrow> MsgType" where
  "msg_type t =
     (if t = 1 then Hello else if t = 2 then LinkStateMsg else if t = 3 then PacketRx
      else if t = 4 then PacketTx else if t = 255 then ErrorMsg else if t = 10 then Command
      else if t = 11 then Query else if t = 12 then QueryResult else if t = 13 then PacketSend
      else OtherType t)"

text \<open>Each enum value has one representation: \<open>OtherType\<close> only holds unnamed codes.\<close>

definition proper_type :: "MsgType \<Rightarrow> bool" where
  "proper_type t \<longleftrightarrow> msg_type (msg_code t) = t"

lemma msg_code_msg_type [simp, roundtrips]: "msg_code (msg_type w) = w"
  by (simp add: msg_type_def)

lemma proper_msg_type [simp]: "proper_type (msg_type w)"
  by (simp add: proper_type_def)

lemma proper_named [simp]:
  "proper_type Hello" "proper_type LinkStateMsg" "proper_type PacketRx" "proper_type PacketTx"
  "proper_type ErrorMsg" "proper_type Command" "proper_type Query" "proper_type QueryResult"
  "proper_type PacketSend"
  by (simp_all add: proper_type_def msg_type_def)

record frame =
  ftype :: MsgType
  payload :: bytes

record packet_meta =
  ts_ns :: u64
  ver :: byte
  ptyp :: byte
  shf :: byte
  apid :: u16
  seqf :: byte
  seqc :: u16
  dlen :: u16
  svc :: byte
  ssvc :: byte

text \<open>\<open>PacketMeta{}\<close>: every member has initialiser 0.\<close>

definition empty_meta :: packet_meta where
  "empty_meta = \<lparr>ts_ns = 0, ver = 0, ptyp = 0, shf = 0, apid = 0, seqf = 0, seqc = 0,
     dlen = 0, svc = 0, ssvc = 0\<rparr>"

section \<open>Big-endian integers\<close>

definition append_u32 :: "bytes \<Rightarrow> u32 \<Rightarrow> bytes" where
  "append_u32 v x = v @ [ucast (drop_bit 24 x AND 0xFF), ucast (drop_bit 16 x AND 0xFF),
     ucast (drop_bit 8 x AND 0xFF), ucast (x AND 0xFF)]"

definition append_u16 :: "bytes \<Rightarrow> u16 \<Rightarrow> bytes" where
  "append_u16 v x = v @ [ucast (drop_bit 8 x AND 0xFF), ucast (x AND 0xFF)]"

definition append_u64 :: "bytes \<Rightarrow> u64 \<Rightarrow> bytes" where
  "append_u64 v x = v @ [ucast (drop_bit 56 x AND 0xFF), ucast (drop_bit 48 x AND 0xFF),
     ucast (drop_bit 40 x AND 0xFF), ucast (drop_bit 32 x AND 0xFF),
     ucast (drop_bit 24 x AND 0xFF), ucast (drop_bit 16 x AND 0xFF),
     ucast (drop_bit 8 x AND 0xFF), ucast (x AND 0xFF)]"

text \<open>The readers take a pointer; the list is what the vector holds from there on.\<close>

definition read_u32 :: "bytes \<Rightarrow> u32" where
  "read_u32 p = push_bit 24 (ucast (p ! 0)) OR push_bit 16 (ucast (p ! 1))
     OR push_bit 8 (ucast (p ! 2)) OR ucast (p ! 3)"

definition read_u16 :: "bytes \<Rightarrow> u16" where
  "read_u16 p = push_bit 8 (ucast (p ! 0)) OR ucast (p ! 1)"

definition read_u64 :: "bytes \<Rightarrow> u64" where
  "read_u64 p = push_bit 56 (ucast (p ! 0)) OR push_bit 48 (ucast (p ! 1))
     OR push_bit 40 (ucast (p ! 2)) OR push_bit 32 (ucast (p ! 3))
     OR push_bit 24 (ucast (p ! 4)) OR push_bit 16 (ucast (p ! 5))
     OR push_bit 8 (ucast (p ! 6)) OR ucast (p ! 7)"

lemma append_bytes_Nil:
  "append_u32 v x = v @ append_u32 [] x"
  "append_u16 v y = v @ append_u16 [] y"
  "append_u64 v z = v @ append_u64 [] z"
  by (simp_all add: append_u32_def append_u16_def append_u64_def)

lemma length_append_be [simp]:
  "length (append_u32 v x) = length v + 4"
  "length (append_u16 v y) = length v + 2"
  "length (append_u64 v z) = length v + 8"
  by (simp_all add: append_u32_def append_u16_def append_u64_def)

lemma ucast_and_255: "(ucast (x AND 0xFF) :: byte) = ucast (x :: 'a::len word)"
proof -
  have m: "(0xFF :: 'a word) = mask 8"
    by (simp add: mask_eq_exp_minus_1)
  show ?thesis
    unfolding m by (rule bit_word_eqI) (auto simp: bit_simps intro: bit_imp_le_length)
qed

text \<open>One byte of a word, put back where it came from.\<close>

lemma bit_byte_slice:
  "bit (push_bit k (ucast (ucast (drop_bit k (x :: 'a::len word)) :: byte)) :: 'a word) n
     \<longleftrightarrow> k \<le> n \<and> n < k + 8 \<and> bit x n"
  using bit_imp_le_length [of x n] by (auto simp: bit_simps)

lemma bit_byte_slice_0:
  "bit (ucast (ucast x :: byte) :: 'a::len word) n \<longleftrightarrow> n < 8 \<and> bit (x :: 'a word) n"
  using bit_imp_le_length [of x n] by (auto simp: bit_simps)

lemma read_append_u16 [simp, roundtrips]: "read_u16 (append_u16 [] x @ r) = x"
proof (rule bit_word_eqI)
  fix n :: nat
  assume "n < LENGTH(16)"
  then show "bit (read_u16 (append_u16 [] x @ r)) n = bit x n"
    by (simp add: read_u16_def append_u16_def ucast_and_255 bit_or_iff
        bit_byte_slice bit_byte_slice_0) linarith
qed

lemma read_append_u32 [simp, roundtrips]: "read_u32 (append_u32 [] x @ r) = x"
proof (rule bit_word_eqI)
  fix n :: nat
  assume "n < LENGTH(32)"
  then show "bit (read_u32 (append_u32 [] x @ r)) n = bit x n"
    by (simp add: read_u32_def append_u32_def ucast_and_255 bit_or_iff
        bit_byte_slice bit_byte_slice_0) linarith
qed

lemma read_append_u64 [simp, roundtrips]: "read_u64 (append_u64 [] x @ r) = x"
proof (rule bit_word_eqI)
  fix n :: nat
  assume "n < LENGTH(64)"
  then show "bit (read_u64 (append_u64 [] x @ r)) n = bit x n"
    by (simp add: read_u64_def append_u64_def ucast_and_255 bit_or_iff
        bit_byte_slice bit_byte_slice_0) linarith
qed

text \<open>The other direction: bytes read as an integer are written back unchanged.\<close>

lemma append_read_u16 [roundtrips]:
  assumes "2 \<le> length p"
  shows "append_u16 [] (read_u16 p) = take 2 p"
proof -
  obtain a b r where p: "p = a # b # r"
    using assms by (cases p; cases "tl p") auto
  show ?thesis
    unfolding p append_u16_def read_u16_def ucast_and_255
    by (auto simp: bit_eq_iff bit_simps numeral_2_eq_2 dest: bit_imp_le_length)
qed

lemma append_read_u32 [roundtrips]:
  assumes "4 \<le> length p"
  shows "append_u32 [] (read_u32 p) = take 4 p"
proof -
  obtain a b c d r where p: "p = a # b # c # d # r"
    using assms by (auto simp: numeral_eq_Suc Suc_le_length_iff)
  show ?thesis
    unfolding p append_u32_def read_u32_def ucast_and_255
    by (auto simp: bit_eq_iff bit_simps dest: bit_imp_le_length)
qed

section \<open>Frames\<close>

text \<open>\<open>len = 2u + static_cast<uint32_t>(payload.size())\<close>: the sum is taken modulo \<open>2 ^ 32\<close>.\<close>

definition encode :: "frame \<Rightarrow> bytes" where
  "encode f =
     (let len = 2 + of_nat (length (payload f)) :: u32;
          out = append_u32 [] len;
          out = append_u16 out (msg_code (ftype f))
      in out @ payload f)"

text \<open>
  \<open>try_decode\<close>: \<open>Done None\<close> is \<open>return false\<close> with the buffer unchanged,
  \<open>Done (Some (f, rest))\<close> is \<open>return true\<close>. The bound \<open>4u + len\<close> is computed in
  32 bits, the iterators \<open>begin() + 4 + len\<close> are not: when they pass the end of the
  buffer the read is undefined.
\<close>

definition try_decode :: "bytes \<Rightarrow> (frame \<times> bytes) option cpp" where
  "try_decode buffer =
     (if length buffer < 4 then Done None
      else let len = read_u32 buffer in
        if len < 2 then Done None
        else if length buffer < unat (4 + len) then Done None
        else if length buffer < 4 + unat len then UB
        else Done (Some (\<lparr>ftype = msg_type (read_u16 (drop 4 buffer)),
                          payload = take (unat len - 2) (drop 6 buffer)\<rparr>,
                         drop (4 + unat len) buffer)))"

lemma unat_2_plus:
  "n < 4294967294 \<Longrightarrow> unat (2 + of_nat n :: u32) = 2 + n"
  by (simp add: unat_word_ariths unat_of_nat_small)

lemma unat_4_plus: "unat (4 + (x :: u32)) = (4 + unat x) mod 4294967296"
  by (simp add: unat_word_ariths)

lemma unat_4_plus_le: "unat (4 + (x :: u32)) \<le> 4 + unat x"
  by (simp add: unat_4_plus)

lemma encode_eq:
  "encode f = append_u32 [] (2 + of_nat (length (payload f)))
     @ append_u16 [] (msg_code (ftype f)) @ payload f"
  by (simp add: encode_def Let_def append_bytes_Nil(2) [of "append_u32 _ _"])

lemma length_encode [simp]: "length (encode f) = 6 + length (payload f)"
  by (simp add: encode_eq)

lemma word_less_2_iff: "(x :: u32) < 2 \<longleftrightarrow> unat x < 2"
  by (simp add: word_less_nat_alt)

lemma frame_eqI: "ftype f = ftype g \<Longrightarrow> payload f = payload g \<Longrightarrow> f = (g :: frame)"
  by simp

lemma try_decode_encode_append:
  assumes "proper_type (ftype f)" and "length (payload f) < 4294967294"
  shows "try_decode (encode f @ r) = Done (Some (f, r))"
proof -
  let ?n = "length (payload f)"
  let ?b = "encode f @ r"
  have len: "read_u32 ?b = 2 + of_nat ?n" by (simp add: encode_eq)
  have u: "unat (read_u32 ?b) = 2 + ?n" using len assms(2) by (simp add: unat_2_plus)
  have d4: "drop 4 ?b = append_u16 [] (msg_code (ftype f)) @ payload f @ r"
    by (simp add: encode_eq)
  have d6: "drop 6 ?b = payload f @ r" by (simp add: encode_eq)
  have dr: "drop (4 + (2 + ?n)) ?b = r" by simp
  have le: "unat (4 + read_u32 ?b) \<le> length ?b"
    using unat_4_plus_le [of "read_u32 ?b"] u by simp
  have t: "msg_type (read_u16 (drop 4 ?b)) = ftype f"
    using assms(1) unfolding d4 by (simp add: proper_type_def)
  have p: "take (2 + ?n - 2) (drop 6 ?b) = payload f"
    unfolding d6 by simp
  show ?thesis
    unfolding try_decode_def Let_def word_less_2_iff u p dr t
    using le by simp
qed

text \<open>What a successful decode says about the buffer.\<close>

lemma try_decode_SomeD:
  assumes "try_decode b = Done (Some (f, r))"
  shows "b = encode f @ r" and "proper_type (ftype f)" and "length (payload f) < 4294967294"
proof -
  let ?l = "unat (read_u32 b)"
  from assms have l4: "4 \<le> length b" and l2: "2 \<le> ?l" and lb: "4 + ?l \<le> length b"
    and f: "f = \<lparr>ftype = msg_type (read_u16 (drop 4 b)), payload = take (?l - 2) (drop 6 b)\<rparr>"
    and r: "r = drop (4 + ?l) b"
    by (auto simp: try_decode_def Let_def word_less_2_iff not_less split: if_splits)
  have n: "length (payload f) = ?l - 2" using f l2 lb by simp
  have "2 + of_nat (?l - 2) = (of_nat (2 + (?l - 2)) :: u32)" by simp
  also have "\<dots> = read_u32 b" using l2 by simp
  finally have w: "2 + of_nat (?l - 2) = read_u32 b" .
  have a: "append_u32 [] (read_u32 b) = take 4 b"
    using l4 by (rule append_read_u32)
  have c: "append_u16 [] (read_u16 (drop 4 b)) = take 2 (drop 4 b)"
    using l2 lb by (intro append_read_u16) simp
  have "encode f @ r = take 4 b @ take 2 (drop 4 b) @ take (?l - 2) (drop 6 b) @ drop (4 + ?l) b"
    using f r n w a c by (simp add: encode_eq)
  also have "\<dots> = take 4 b @ take 2 (drop 4 b) @ drop 6 b"
  proof -
    have "drop (4 + ?l) b = drop (?l - 2) (drop 6 b)" using l2 by simp
    then show ?thesis by (simp only: append_take_drop_id)
  qed
  also have "\<dots> = b"
  proof -
    have "drop 6 b = drop 2 (drop 4 b)" by simp
    then show ?thesis by (simp only: append_take_drop_id)
  qed
  finally show "b = encode f @ r" by simp
  show "proper_type (ftype f)" using f by simp
  show "length (payload f) < 4294967294"
    using n unat_less_u32 [of "read_u32 b"] by linarith
qed

lemma try_decode_shrinks: "try_decode b = Done (Some (f, r)) \<Longrightarrow> length r < length b"
  by (drule try_decode_SomeD(1)) simp

text \<open>
  Where the 32-bit bound goes wrong: a length field within 4 of \<open>2 ^ 32\<close> makes
  \<open>4u + len\<close> wrap to a number below 4, so the guard lets every buffer through.
\<close>

lemma wrapped_guard_less:
  assumes "4294967292 \<le> unat (x :: u32)"
  shows "unat (4 + x) < 4"
proof -
  obtain d where d: "unat x = 4294967292 + d" using assms le_Suc_ex by blast
  have "unat x < 4294967296" by simp
  then have "d < 4" using d by linarith
  then show ?thesis by (simp add: unat_4_plus d)
qed

lemma unwrapped_guard: "unat (x :: u32) < 4294967292 \<Longrightarrow> unat (4 + x) = 4 + unat x"
  by (simp add: unat_4_plus)

lemma try_decode_UB_iff:
  "try_decode b = UB \<longleftrightarrow>
     4 \<le> length b \<and> 4294967292 \<le> unat (read_u32 b) \<and> length b < 4 + unat (read_u32 b)"
proof (cases "unat (read_u32 b) < 4294967292")
  case True
  then show ?thesis
    by (simp add: try_decode_def Let_def unwrapped_guard)
next
  case False
  then have "4294967292 \<le> unat (read_u32 b)" by simp
  with wrapped_guard_less [OF this] show ?thesis
    by (auto simp: try_decode_def Let_def word_less_2_iff)
qed

lemma read_u32_append: "4 \<le> length b \<Longrightarrow> read_u32 (b @ c) = read_u32 b"
  by (auto simp: read_u32_def nth_append)

lemma read_u16_append: "2 \<le> length b \<Longrightarrow> read_u16 (b @ c) = read_u16 b"
  by (auto simp: read_u16_def nth_append)

text \<open>A length field below 2 makes \<open>try_decode\<close> fail whatever follows.\<close>

lemma try_decode_stuck:
  "4 \<le> length b \<Longrightarrow> unat (read_u32 b) < 2 \<Longrightarrow> try_decode (b @ c) = Done None"
  by (simp add: try_decode_def Let_def word_less_2_iff read_u32_append)

section \<open>The receive loop\<close>

text \<open>
  \<open>while (try_decode(rxbuf_, f)) \<dots>\<close>, as the UI client and the daemon session run it
  after appending what the socket delivered: the frames in order and the buffer left.
\<close>

function drain_frames :: "bytes \<Rightarrow> (frame list \<times> bytes) cpp" where
  "drain_frames b =
     (case try_decode b of
        UB \<Rightarrow> UB
      | Done None \<Rightarrow> Done ([], b)
      | Done (Some (f, r)) \<Rightarrow> map_cpp (\<lambda>(fs, q). (f # fs, q)) (drain_frames r))"
  by pat_completeness auto
termination
  by (relation "measure length") (auto simp: try_decode_shrinks)

declare drain_frames.simps [simp del]

definition frame_step :: "bytes \<Rightarrow> (frame, byte) split" where
  "frame_step b =
     (case try_decode b of UB \<Rightarrow> Fault | Done None \<Rightarrow> Stop | Done (Some (f, r)) \<Rightarrow> Emit f r)"

lemma frame_step_simps:
  "frame_step b = Emit f r \<longleftrightarrow> try_decode b = Done (Some (f, r))"
  "frame_step b = Stop \<longleftrightarrow> try_decode b = Done None"
  "frame_step b = Fault \<longleftrightarrow> try_decode b = UB"
  by (auto simp: frame_step_def split: cpp.splits option.splits)

interpretation ipc_stream: stream_splitter frame_step drain_frames
proof
  fix b c :: bytes and f r
  assume "frame_step b = Emit f r"
  then have d: "try_decode b = Done (Some (f, r))" by (simp add: frame_step_simps)
  from try_decode_SomeD [OF d] show "frame_step (b @ c) = Emit f (r @ c)"
    by (simp add: frame_step_simps try_decode_encode_append)
  from d show "length r < length b" by (rule try_decode_shrinks)
  from d show "drain_frames b = map_cpp (\<lambda>(xs, q). (f # xs, q)) (drain_frames r)"
    by (simp add: drain_frames.simps [of b])
next
  fix b :: bytes
  show "frame_step b = Stop \<Longrightarrow> drain_frames b = Done ([], b)"
    and "frame_step b = Fault \<Longrightarrow> drain_frames b = UB"
    by (simp_all add: frame_step_simps drain_frames.simps [of b])
qed

text \<open>Frames that the encoder can carry.\<close>

definition sendable :: "frame \<Rightarrow> bool" where
  "sendable f \<longleftrightarrow> proper_type (ftype f) \<and> length (payload f) < 4294967294"

lemma frame_step_encode: "sendable f \<Longrightarrow> frame_step (encode f @ c) = Emit f c"
  by (simp add: frame_step_simps sendable_def try_decode_encode_append)

lemma drain_frames_Nil [simp]: "drain_frames [] = Done ([], [])"
  by (rule ipc_stream.drain_Stop) (simp add: frame_step_simps try_decode_def)

lemma drain_frames_encode:
  assumes "\<forall>f \<in> set fs. sendable f"
  shows "drain_frames (concat (map encode fs) @ t)
    = map_cpp (\<lambda>(gs, q). (fs @ gs, q)) (drain_frames t)"
  using ipc_stream.drain_items [of fs encode "\<lambda>f. f" t] assms
  by (simp add: frame_step_encode)

section \<open>String payloads\<close>

definition pack_string :: "string \<Rightarrow> bytes" where
  "pack_string s = append_u32 [] (of_nat (length s)) @ bytes_of_string s"

text \<open>
  \<open>unpack_string\<close>: \<open>Done None\<close> is \<open>return false\<close>; the bound is again a 32-bit sum,
  the pointers are not.
\<close>

definition unpack_string :: "bytes \<Rightarrow> string option cpp" where
  "unpack_string p =
     (if length p < 4 then Done None
      else let n = read_u32 p in
        if length p < unat (4 + n) then Done None
        else if length p < 4 + unat n then UB
        else Done (Some (string_of_bytes (take (unat n) (drop 4 p)))))"

lemma unpack_pack_string [roundtrips]:
  assumes "length s < 4294967296"
  shows "unpack_string (pack_string s @ r) = Done (Some s)"
proof -
  have u: "unat (of_nat (length s) :: u32) = length s"
    using assms by (simp add: unat_of_nat_small)
  have "unat (4 + (of_nat (length s) :: u32)) \<le> 4 + length s"
    using unat_4_plus_le [of "of_nat (length s)"] u by simp
  with u show ?thesis
    by (simp add: unpack_string_def pack_string_def Let_def)
qed

lemma unpack_string_UB_iff:
  "unpack_string p = UB \<longleftrightarrow>
     4 \<le> length p \<and> 4294967292 \<le> unat (read_u32 p) \<and> length p < 4 + unat (read_u32 p)"
proof (cases "unat (read_u32 p) < 4294967292")
  case True
  then show ?thesis
    by (simp add: unpack_string_def Let_def unwrapped_guard)
next
  case False
  then have "4294967292 \<le> unat (read_u32 p)" by simp
  with wrapped_guard_less [OF this] show ?thesis
    by (auto simp: unpack_string_def Let_def)
qed

lemma unpack_string_None_iff:
  "unpack_string p = Done None \<longleftrightarrow>
     length p < 4 \<or> unat (read_u32 p) < 4294967292 \<and> length p < 4 + unat (read_u32 p)"
proof (cases "unat (read_u32 p) < 4294967292")
  case True
  then show ?thesis
    by (simp add: unpack_string_def Let_def unwrapped_guard)
next
  case False
  then have "4294967292 \<le> unat (read_u32 p)" by simp
  with wrapped_guard_less [OF this] show ?thesis
    by (auto simp: unpack_string_def Let_def)
qed

section \<open>Packet metadata\<close>

definition pack_packet_meta :: "packet_meta \<Rightarrow> string \<Rightarrow> bytes" where
  "pack_packet_meta m desc =
     (let p = append_u64 [] (ts_ns m);
          p = p @ [ver m, ptyp m, shf m, seqf m];
          p = append_u16 p (apid m);
          p = append_u16 p (seqc m);
          p = append_u16 p (dlen m);
          p = p @ [svc m, ssvc m];
          p = append_u16 p (of_nat (length desc))
      in p @ bytes_of_string desc)"

text \<open>
  The reader fills the caller's \<open>m\<close> and \<open>desc\<close>, also on the path that returns false
  because the description is cut short.
\<close>

definition unpack_packet_meta ::
    "bytes \<Rightarrow> packet_meta \<Rightarrow> string \<Rightarrow> bool \<times> packet_meta \<times> string" where
  "unpack_packet_meta p m desc =
     (if length p < 22 then (False, m, desc)
      else let
        m' = \<lparr>ts_ns = read_u64 p, ver = p ! 8, ptyp = p ! 9, shf = p ! 10,
              apid = read_u16 (drop 12 p), seqf = p ! 11, seqc = read_u16 (drop 14 p),
              dlen = read_u16 (drop 16 p), svc = p ! 18, ssvc = p ! 19\<rparr>;
        n = unat (read_u16 (drop 20 p))
      in if length p < 22 + n then (False, m', desc)
         else (True, m', string_of_bytes (take n (drop 22 p))))"

lemma pack_packet_meta_eq:
  "pack_packet_meta m desc =
     append_u64 [] (ts_ns m) @ [ver m, ptyp m, shf m, seqf m] @ append_u16 [] (apid m)
     @ append_u16 [] (seqc m) @ append_u16 [] (dlen m) @ [svc m, ssvc m]
     @ append_u16 [] (of_nat (length desc)) @ bytes_of_string desc"
  by (simp add: pack_packet_meta_def Let_def append_u64_def append_u16_def)

lemma length_pack_packet_meta [simp]: "length (pack_packet_meta m desc) = 22 + length desc"
  by (simp add: pack_packet_meta_eq)

text \<open>Field by field: where the reader finds what the writer put.\<close>

lemma pack_packet_meta_fields:
  fixes m :: packet_meta and desc :: string and r :: bytes
  defines "p \<equiv> pack_packet_meta m desc @ r"
  shows "read_u64 p = ts_ns m" and "p ! 8 = ver m" and "p ! 9 = ptyp m" and "p ! 10 = shf m"
    and "p ! 11 = seqf m" and "read_u16 (drop 12 p) = apid m" and "read_u16 (drop 14 p) = seqc m"
    and "read_u16 (drop 16 p) = dlen m" and "p ! 18 = svc m" and "p ! 19 = ssvc m"
    and "read_u16 (drop 20 p) = of_nat (length desc)"
    and "drop 22 p = bytes_of_string desc @ r"
proof -
  let ?u = "append_u16 [] :: u16 \<Rightarrow> bytes"
  have p: "p = append_u64 [] (ts_ns m) @ [ver m, ptyp m, shf m, seqf m] @ ?u (apid m)
     @ ?u (seqc m) @ ?u (dlen m) @ [svc m, ssvc m] @ ?u (of_nat (length desc))
     @ bytes_of_string desc @ r"
    by (simp add: p_def pack_packet_meta_eq)
  show "read_u64 p = ts_ns m" by (simp add: p)
  show "p ! 8 = ver m" "p ! 9 = ptyp m" "p ! 10 = shf m" "p ! 11 = seqf m"
    by (simp_all add: p nth_append)
  show "p ! 18 = svc m" "p ! 19 = ssvc m" by (simp_all add: p nth_append)
  show "read_u16 (drop 12 p) = apid m" "read_u16 (drop 14 p) = seqc m"
    "read_u16 (drop 16 p) = dlen m" "read_u16 (drop 20 p) = of_nat (length desc)"
    "drop 22 p = bytes_of_string desc @ r"
    by (simp_all add: p)
qed

lemma unpack_pack_packet_meta [roundtrips]:
  assumes "length desc < 65536"
  shows "unpack_packet_meta (pack_packet_meta m desc @ r) m0 d0 = (True, m, desc)"
proof -
  define p where "p = pack_packet_meta m desc @ r"
  note fields = pack_packet_meta_fields [of m desc r, folded p_def]
  have "length p = 22 + length desc + length r" by (simp add: p_def)
  with assms show ?thesis
    unfolding p_def [symmetric]
    by (simp add: unpack_packet_meta_def Let_def fields unat_of_nat_small)
qed

section \<open>Prefixes of a frame stream\<close>

text \<open>
  Buffers a receiver can hold while its peer sends encoded frames that stay below the
  range where the 32-bit bound wraps.
\<close>

definition short_frame :: "frame \<Rightarrow> bool" where
  "short_frame f \<longleftrightarrow> proper_type (ftype f) \<and> length (payload f) < 4294967290"

lemma short_frame_sendable: "short_frame f \<Longrightarrow> sendable f"
  by (simp add: short_frame_def sendable_def)

definition stream_prefix :: "bytes \<Rightarrow> bool" where
  "stream_prefix b \<longleftrightarrow> (\<exists>fs t. (\<forall>f \<in> set fs. short_frame f) \<and> b @ t = concat (map encode fs))"

lemma stream_prefix_no_fault: "stream_prefix b \<Longrightarrow> frame_step b \<noteq> Fault"
proof
  assume "stream_prefix b" and "frame_step b = Fault"
  then have 4: "4 \<le> length b" and big: "4294967292 \<le> unat (read_u32 b)"
    by (simp_all add: frame_step_simps try_decode_UB_iff)
  from \<open>stream_prefix b\<close> obtain fs t where
    fs: "\<forall>f \<in> set fs. short_frame f" and b: "b @ t = concat (map encode fs)"
    unfolding stream_prefix_def by blast
  obtain f gs where "fs = f # gs" using b 4 by (cases fs) auto
  with b have "read_u32 (b @ t) = 2 + of_nat (length (payload f))"
    by (simp add: encode_eq)
  then have "unat (read_u32 b) = 2 + length (payload f)"
    using 4 fs \<open>fs = f # gs\<close> by (simp add: read_u32_append short_frame_def unat_2_plus)
  with big fs \<open>fs = f # gs\<close> show False by (simp add: short_frame_def)
qed

lemma stream_prefix_emit:
  assumes "stream_prefix b" and "frame_step b = Emit f r"
  shows "stream_prefix r"
proof -
  from assms obtain fs t where
    fs: "\<forall>f \<in> set fs. short_frame f" and b: "b @ t = concat (map encode fs)"
    unfolding stream_prefix_def by blast
  from ipc_stream.emit_append [OF assms(2)]
  have e: "frame_step (concat (map encode fs)) = Emit f (r @ t)" by (simp flip: b)
  obtain g gs where g: "fs = g # gs"
    using e by (cases fs) (auto simp: frame_step_simps try_decode_def)
  with fs have "frame_step (encode g @ concat (map encode gs)) = Emit g (concat (map encode gs))"
    by (simp add: frame_step_encode short_frame_sendable)
  with e g have "r @ t = concat (map encode gs)" by simp
  with fs g show ?thesis unfolding stream_prefix_def by auto
qed

lemma stream_prefix_prefix: "stream_prefix (b @ c) \<Longrightarrow> stream_prefix b"
  unfolding stream_prefix_def by (metis append_assoc)

lemma feed_frames:
  assumes "\<forall>f \<in> set fs. short_frame f" and "concat cs = concat (map encode fs)"
  shows "feed drain_frames [] cs = Done (fs, [])"
proof -
  have "stream_prefix ([] @ concat cs)"
    unfolding stream_prefix_def using assms by (auto intro!: exI [of _ fs])
  then have "\<exists>xs r. feed drain_frames [] cs = Done (xs, r)"
    by (rule ipc_stream.feed_safe [where P = stream_prefix, rotated 3])
      (fact stream_prefix_no_fault stream_prefix_emit stream_prefix_prefix)+
  then obtain xs r where f: "feed drain_frames [] cs = Done (xs, r)" by blast
  from ipc_stream.feed_concat [OF _ f] have "drain_frames (concat cs) = Done (xs, r)"
    by (simp add: frame_step_simps try_decode_def)
  moreover have "drain_frames (concat (map encode fs) @ []) = Done (fs, [])"
    using assms(1) by (subst drain_frames_encode) (auto simp: short_frame_sendable)
  ultimately show ?thesis using assms(2) f by simp
qed

section \<open>Properties\<close>

text \<open>C10: Whatever pieces the transport delivers, a receiver that starts with an empty
  buffer gets exactly the frames its peer encoded, in order, and is left with an empty
  buffer (each payload below \<open>2 ^ 32 - 6\<close> bytes).\<close>
theorem frame_stream_any_chunking:
  assumes "\<forall>f \<in> set fs. short_frame f" and "concat cs = concat (map encode fs)"
  shows "feed drain_frames [] cs = Done (fs, [])"
  using assms by (rule feed_frames)

theorem frame_stream_any_chunking_witness:
  "feed drain_frames [] [[0, 0, 0], [3, 0, 10, 7, 0, 0], [0, 2, 0, 1]]
     = Done ([\<lparr>ftype = Command, payload = [7]\<rparr>, \<lparr>ftype = Hello, payload = []\<rparr>], [])"
  by (rule frame_stream_any_chunking)
    (simp_all add: short_frame_def encode_def Let_def append_u32_def append_u16_def)

text \<open>\<open>try_decode\<close> is exactly the inverse of \<open>encode\<close>: it returns a frame and a rest
  when the buffer is the encoding of that frame followed by that rest, for the frames
  whose length field is exact, and for no other buffer.\<close>
lemma try_decode_inverts_encode:
  "try_decode b = Done (Some (f, r)) \<longleftrightarrow> sendable f \<and> b = encode f @ r"
  using try_decode_SomeD [of b f r] try_decode_encode_append [of f r]
  unfolding sendable_def by blast

text \<open>A length field of 0 or 1 wedges the stream.\<close>

lemma short_length_wedges_stream:
  assumes "4 \<le> length b" and "unat (read_u32 b) < 2"
  shows "feed drain_frames b cs = Done ([], b @ concat cs)"
  using assms
proof (induction cs arbitrary: b)
  case Nil
  then show ?case by simp
next
  case (Cons c cs)
  have "drain_frames (b @ c) = Done ([], b @ c)"
    using Cons.prems by (intro ipc_stream.drain_Stop) (simp add: frame_step_simps try_decode_stuck)
  with Cons show ?case by (simp add: read_u32_append)
qed

text \<open>C12: What a peer can do with the length field: the guards of \<open>try_decode\<close> and \<open>unpack_string\<close>
  let the bytes read go past the end of the vector exactly when the field is at least
  \<open>2 ^ 32 - 4\<close> and the vector is shorter than the field says, because \<open>4u + len\<close> wraps; and a field of
  0 or 1 wedges the stream: no later byte is ever decoded and the receive buffer keeps everything that
  arrives.\<close>
theorem bad_length_fields:
  "(try_decode b = UB \<longleftrightarrow>
      4 \<le> length b \<and> 4294967292 \<le> unat (read_u32 b) \<and> length b < 4 + unat (read_u32 b)) \<and>
   (unpack_string p = UB \<longleftrightarrow>
      4 \<le> length p \<and> 4294967292 \<le> unat (read_u32 p) \<and> length p < 4 + unat (read_u32 p)) \<and>
   (4 \<le> length b \<and> unat (read_u32 b) < 2 \<longrightarrow> feed drain_frames b cs = Done ([], b @ concat cs))"
  using try_decode_UB_iff unpack_string_UB_iff short_length_wedges_stream [of b cs] by blast

theorem bad_length_fields_witness:
  "unpack_string [255, 255, 255, 255] = UB
   \<and> feed drain_frames [0, 0, 0, 1] [encode \<lparr>ftype = Command, payload = []\<rparr>]
     = Done ([], [0, 0, 0, 1] @ concat [encode \<lparr>ftype = Command, payload = []\<rparr>])"
proof -
  note bad = bad_length_fields [of "[0, 0, 0, 1]" "[255, 255, 255, 255]" "[encode \<lparr>ftype = Command, payload = []\<rparr>]"]
  have "unat (read_u32 [0, 0, 0, 1]) < 2" "4294967292 \<le> unat (read_u32 [255, 255, 255, 255])"
    by (simp_all add: read_u32_def)
  with bad show ?thesis by simp
qed

text \<open>C27: A packed string unpacks to itself cut to its length modulo \<open>2 ^ 32\<close> (to itself
  below 4 GiB); packed metadata unpacks to the same record, with the description cut to
  its length modulo \<open>2 ^ 16\<close>.\<close>
theorem pack_unpack_payloads:
  "unpack_string (pack_string s) = Done (Some (take (length s mod 4294967296) s)) \<and>
   unpack_packet_meta (pack_packet_meta m desc) m0 d0 = (True, m, take (length desc mod 65536) desc)"
proof
  have "unat (4 + (of_nat (length s) :: u32)) \<le> 4 + length s mod 4294967296"
    using unat_4_plus_le [of "of_nat (length s)"] by (simp add: unat_of_nat take_bit_nat_def)
  moreover have "length s mod 4294967296 \<le> length s" by simp
  ultimately show "unpack_string (pack_string s) = Done (Some (take (length s mod 4294967296) s))"
    by (simp add: unpack_string_def pack_string_def Let_def unat_of_nat take_bit_nat_def
        string_of_bytes_def bytes_of_string_def take_map unat_of_char comp_def)
next
  have "length desc mod 65536 \<le> length desc" by simp
  moreover note fields = pack_packet_meta_fields [of m desc "[]", simplified append_Nil2]
  ultimately show "unpack_packet_meta (pack_packet_meta m desc) m0 d0
      = (True, m, take (length desc mod 65536) desc)"
    by (simp add: unpack_packet_meta_def Let_def fields unat_of_nat take_bit_nat_def
        string_of_bytes_def bytes_of_string_def take_map unat_of_char comp_def)
qed

text \<open>The receive loop as it is written, one test of \<open>try_decode\<close> per unit of fuel.\<close>

fun receive_loop :: "nat \<Rightarrow> bytes \<Rightarrow> frame list \<Rightarrow> (frame list \<times> bytes) cpp option" where
  "receive_loop 0 b fs = None"
| "receive_loop (Suc n) b fs =
     (case try_decode b of
        UB \<Rightarrow> Some UB
      | Done None \<Rightarrow> Some (Done (fs, b))
      | Done (Some (f, r)) \<Rightarrow> receive_loop n r (fs @ [f]))"

lemma receive_loop_drain:
  "length b div 6 < n \<Longrightarrow>
     receive_loop n b fs = Some (map_cpp (\<lambda>(gs, q). (fs @ gs, q)) (drain_frames b))"
proof (induction n arbitrary: b fs)
  case (Suc n)
  show ?case
  proof (cases "try_decode b")
    case (Done x)
    show ?thesis
    proof (cases x)
      case (Some y)
      obtain f r where y: "y = (f, r)" by (cases y)
      with Done Some have "b = encode f @ r" by (auto dest: try_decode_SomeD)
      then have "length r div 6 < n" using Suc.prems by simp
      from Suc.IH [OF this, of "fs @ [f]"] Done Some y show ?thesis
        by (cases "drain_frames r") (auto simp: drain_frames.simps [of b])
    qed (use Done in \<open>simp add: drain_frames.simps [of b]\<close>)
  qed (simp add: drain_frames.simps [of b])
qed simp

text \<open>What is left can only be undecodable: the loop takes the longest run of encodings.\<close>

lemma drain_frames_split:
  "drain_frames b = Done (fs, r) \<longleftrightarrow>
     b = concat (map encode fs) @ r \<and> (\<forall>f \<in> set fs. sendable f) \<and> try_decode r = Done None"
proof
  show "b = concat (map encode fs) @ r \<and> (\<forall>f \<in> set fs. sendable f) \<and> try_decode r = Done None"
    if "drain_frames b = Done (fs, r)"
    using that
  proof (induction b arbitrary: fs rule: drain_frames.induct)
    case (1 b)
    from 1(2) show ?case
    proof (cases rule: ipc_stream.drain_cases)
      case Stop
      then show ?thesis by (simp add: frame_step_simps)
    next
      case (Emit f gs q)
      then have d: "try_decode b = Done (Some (f, q))" by (simp add: frame_step_simps)
      with 1(1) [OF d refl refl Emit(2)] Emit(3) try_decode_SomeD [OF d] show ?thesis
        by (simp add: sendable_def)
    qed
  qed
next
  show "drain_frames b = Done (fs, r)"
    if "b = concat (map encode fs) @ r \<and> (\<forall>f \<in> set fs. sendable f) \<and> try_decode r = Done None"
    using that drain_frames_encode [of fs r] ipc_stream.drain_Stop [of r]
    by (simp add: frame_step_simps)
qed

text \<open>C11: The receive loops of the daemon and of the clients terminate on every buffer: one test more
  than a sixth of its length is enough fuel. They end, if not in the overread of the length guard, with the buffer
  split into the encodings of the frames delivered and a rest in which nothing can be decoded.\<close>
theorem receive_loop_terminates:
  assumes "length b div 6 < n"
  shows "\<exists>x. receive_loop n b [] = Some x \<and>
    (\<forall>fs r. x = Done (fs, r) \<longleftrightarrow>
       b = concat (map encode fs) @ r \<and> (\<forall>f \<in> set fs. sendable f) \<and> try_decode r = Done None)"
proof -
  have "map_cpp (\<lambda>(gs, q). ([] @ gs, q)) (drain_frames b) = drain_frames b"
    by (cases "drain_frames b") auto
  with receive_loop_drain [OF assms, of "[]"] show ?thesis by (simp add: drain_frames_split)
qed

theorem receive_loop_terminates_witness:
  "\<exists>x. receive_loop 2 [0, 0, 0, 3, 0, 10, 7, 0] [] = Some x
     \<and> x = Done ([\<lparr>ftype = Command, payload = [7]\<rparr>], [0])"
proof -
  let ?b = "[0, 0, 0, 3, 0, 10, 7, 0] :: bytes"
  have "?b = concat (map encode [\<lparr>ftype = Command, payload = [7]\<rparr>]) @ [0]"
    by (simp add: encode_def Let_def append_u32_def append_u16_def)
  moreover have "try_decode [0] = Done None" by (simp add: try_decode_def)
  moreover have "\<forall>f \<in> set [\<lparr>ftype = Command, payload = [7]\<rparr>]. sendable f" by (simp add: sendable_def)
  moreover have "length ?b div 6 < 2" by simp
  ultimately show ?thesis using receive_loop_terminates [of ?b 2] by blast
qed

end
