(* ===== verification/Framer.thy ===== *)
theory Framer
  imports GS_Prelude Stream_Splitter Protocol
begin

text \<open>
  The CCSDS Space Packet framer: \<open>shared/src/framer.cpp\<close> and
  \<open>shared/include/exn/shared/daemon/framer.hpp\<close>. The daemon and the simulator both push
  what their link delivers into it. \<open>ccsds::buffer::declaredPacketSize\<close> belongs to the
  external library CCSDSPack and is the parameter \<open>dps\<close>: an error message or the total
  packet size declared by a primary header.
\<close>

section \<open>State and operation\<close>

type_synonym declared_size = "bytes \<Rightarrow> string + nat"

record framer =
  acc :: bytes
  has_callback :: bool
  framing_errors :: u64

definition new_framer :: framer where
  "new_framer = \<lparr>acc = [], has_callback = False, framing_errors = 0\<rparr>"

definition set_on_packet :: "framer \<Rightarrow> framer" where
  "set_on_packet f = f\<lparr>has_callback := True\<rparr>"

text \<open>
  The \<open>while (true)\<close> loop over \<open>acc_\<close>: the packets cut, what stays in the accumulator
  and the error counter. Copying and erasing more than \<open>acc_\<close> holds is undefined.
\<close>

function frame_loop :: "declared_size \<Rightarrow> bytes \<Rightarrow> u64 \<Rightarrow> (bytes list \<times> bytes \<times> u64) cpp" where
  "frame_loop dps a errs =
     (if length a < 6 then Done ([], a, errs)
      else case dps a of
        Inl _ \<Rightarrow> bind_cpp (erase_front 1 a) (\<lambda>a. frame_loop dps a (errs + 1))
      | Inr sz \<Rightarrow>
          if sz < 7 \<or> sz > 65542 then bind_cpp (erase_front 1 a) (\<lambda>a. frame_loop dps a (errs + 1))
          else if length a < sz then Done ([], a, errs)
          else bind_cpp (copy_front sz a) (\<lambda>pkt. bind_cpp (erase_front sz a) (\<lambda>a.
                 map_cpp (\<lambda>(pkts, a, errs). (pkt # pkts, a, errs)) (frame_loop dps a errs))))"
  by pat_completeness auto
termination
  by (relation "measure (\<lambda>(dps, a, errs). length a)") (auto dest!: erase_front_Done)

declare frame_loop.simps [simp del]

text \<open>
  \<open>push_bytes(data, n)\<close>; a null pointer is the empty list. The packets are what the
  callback receives, in order: none when no callback is set.
\<close>

definition push_bytes :: "declared_size \<Rightarrow> bytes \<Rightarrow> framer \<Rightarrow> (framer \<times> bytes list) cpp" where
  "push_bytes dps data f =
     (if data = [] then Done (f, [])
      else map_cpp (\<lambda>(pkts, a, errs).
             (f\<lparr>acc := a, framing_errors := errs\<rparr>, if has_callback f then pkts else []))
           (frame_loop dps (acc f @ data) (framing_errors f)))"

section \<open>The loop as a stream splitter\<close>

text \<open>
  One iteration either drops a byte (a framing error) or cuts a packet. As a sequence of
  events the loop is an instance of the incremental-decoder interface.
\<close>

datatype frame_event = Dropped byte | Packet bytes

fun event_bytes :: "frame_event \<Rightarrow> bytes" where
  "event_bytes (Dropped b) = [b]"
| "event_bytes (Packet p) = p"

fun packets_of :: "frame_event list \<Rightarrow> bytes list" where
  "packets_of [] = []"
| "packets_of (Dropped b # es) = packets_of es"
| "packets_of (Packet p # es) = p # packets_of es"

fun drops_of :: "frame_event list \<Rightarrow> nat" where
  "drops_of [] = 0"
| "drops_of (Dropped b # es) = Suc (drops_of es)"
| "drops_of (Packet p # es) = drops_of es"

lemma packets_of_append [simp]: "packets_of (es @ fs) = packets_of es @ packets_of fs"
  by (induction es rule: packets_of.induct) auto

lemma drops_of_append [simp]: "drops_of (es @ fs) = drops_of es + drops_of fs"
  by (induction es rule: drops_of.induct) auto

lemma packets_of_map_Packet [simp]: "packets_of (map Packet ps) = ps"
  by (induction ps) auto

lemma drops_of_map_Packet [simp]: "drops_of (map Packet ps) = 0"
  by (induction ps) auto

text \<open>What the loop does with a buffer whose header is complete.\<close>

definition verdict :: "declared_size \<Rightarrow> bytes \<Rightarrow> nat option" where
  "verdict dps a =
     (case dps a of Inl _ \<Rightarrow> None
      | Inr sz \<Rightarrow> if sz < 7 \<or> sz > 65542 then None else Some sz)"

lemma verdict_bounds: "verdict dps a = Some n \<Longrightarrow> 7 \<le> n \<and> n \<le> 65542"
  by (auto simp: verdict_def split: sum.splits if_splits)

definition packet_step :: "declared_size \<Rightarrow> bytes \<Rightarrow> (frame_event, byte) split" where
  "packet_step dps a =
     (if length a < 6 then Stop
      else case verdict dps a of
        None \<Rightarrow> Emit (Dropped (hd a)) (tl a)
      | Some n \<Rightarrow> if length a < n then Stop else Emit (Packet (take n a)) (drop n a))"

function drain_packets :: "declared_size \<Rightarrow> bytes \<Rightarrow> (frame_event list \<times> bytes) cpp" where
  "drain_packets dps a =
     (case packet_step dps a of
        Stop \<Rightarrow> Done ([], a)
      | Fault \<Rightarrow> UB
      | Emit e r \<Rightarrow> map_cpp (\<lambda>(es, q). (e # es, q)) (drain_packets dps r))"
  by pat_completeness auto
termination
  by (relation "measure (\<lambda>(dps, a). length a)")
    (auto simp: packet_step_def split: if_splits option.splits dest: verdict_bounds)

declare drain_packets.simps [simp del]

lemma packet_step_no_fault [simp]: "packet_step dps a \<noteq> Fault"
  by (simp add: packet_step_def split: option.splits)

lemma packet_step_shrinks: "packet_step dps a = Emit e r \<Longrightarrow> length r < length a"
  by (auto simp: packet_step_def split: if_splits option.splits dest: verdict_bounds)

lemma packet_step_conserves: "packet_step dps a = Emit e r \<Longrightarrow> event_bytes e @ r = a"
  by (auto simp: packet_step_def split: if_splits option.splits simp flip: length_greater_0_conv)

text \<open>
  What the framer relies on: \<open>declaredPacketSize\<close> reads the six-byte primary header only,
  so the answer does not change when more bytes have arrived.
\<close>

definition header_only :: "declared_size \<Rightarrow> bool" where
  "header_only dps \<longleftrightarrow> (\<forall>a c. 6 \<le> length a \<longrightarrow> dps (a @ c) = dps a)"

lemma header_only_verdict:
  "header_only dps \<Longrightarrow> 6 \<le> length a \<Longrightarrow> verdict dps (a @ c) = verdict dps a"
  by (simp add: header_only_def verdict_def)

lemma packet_step_append:
  assumes "header_only dps" and "packet_step dps a = Emit e r"
  shows "packet_step dps (a @ c) = Emit e (r @ c)"
proof -
  from assms(2) have 6: "6 \<le> length a" by (auto simp: packet_step_def split: if_splits)
  then have "a \<noteq> []" by auto
  with assms 6 header_only_verdict [OF assms(1) 6, of c] show ?thesis
    by (auto simp: packet_step_def split: if_splits option.splits)
qed

lemma framer_splitter:
  assumes "header_only dps"
  shows "stream_splitter (packet_step dps) (drain_packets dps)"
proof
  fix b c :: bytes and e r
  assume e: "packet_step dps b = Emit e r"
  show "packet_step dps (b @ c) = Emit e (r @ c)"
    using assms e by (rule packet_step_append)
  show "length r < length b" using e by (rule packet_step_shrinks)
  show "drain_packets dps b = map_cpp (\<lambda>(xs, q). (e # xs, q)) (drain_packets dps r)"
    using e by (simp add: drain_packets.simps [of dps b])
next
  fix b :: bytes
  show "packet_step dps b = Stop \<Longrightarrow> drain_packets dps b = Done ([], b)"
    and "packet_step dps b = Fault \<Longrightarrow> drain_packets dps b = UB"
    by (simp_all add: drain_packets.simps [of dps b])
qed

text \<open>
  The library's answer for the packet format of the ICD: version 0 in the top three bits,
  and a Packet Data Length field that holds the number of octets after the header, less
  one. It is the instance the witnesses use.
\<close>

definition icd_declared_size :: declared_size where
  "icd_declared_size b =
     (if length b < 6 then Inl ''short header''
      else if drop_bit 5 (b ! 0) \<noteq> 0 then Inl ''version''
      else Inr (7 + unat (read_u16 (drop 4 b))))"

lemma header_only_icd: "header_only icd_declared_size"
  by (auto simp: header_only_def icd_declared_size_def nth_append read_u16_append)

interpretation packet_stream:
  stream_splitter "packet_step icd_declared_size" "drain_packets icd_declared_size"
  by (rule framer_splitter) (rule header_only_icd)

section \<open>The loop in terms of events\<close>

lemma frame_loop_step:
  "frame_loop dps a errs =
     (case packet_step dps a of
        Emit (Dropped b) r \<Rightarrow> frame_loop dps r (errs + 1)
      | Emit (Packet p) r \<Rightarrow> map_cpp (\<lambda>(ps, a', e'). (p # ps, a', e')) (frame_loop dps r errs)
      | _ \<Rightarrow> Done ([], a, errs))"
proof -
  have "6 \<le> length a \<Longrightarrow> erase_front 1 a = Done (tl a)" by (simp add: drop_Suc)
  then show ?thesis
    by (subst frame_loop.simps) (auto simp: packet_step_def verdict_def split: sum.splits)
qed

text \<open>The loop never reads or erases past the accumulator.\<close>

lemma frame_loop_drain:
  "\<exists>es r. drain_packets dps a = Done (es, r) \<and>
     frame_loop dps a errs = Done (packets_of es, r, errs + of_nat (drops_of es))"
proof (induction "length a" arbitrary: a errs rule: less_induct)
  case less
  show ?case
  proof (cases "packet_step dps a")
    case Stop
    then show ?thesis
      by (simp add: drain_packets.simps [of dps a] frame_loop_step [of dps a])
  next
    case (Emit e r)
    then have l: "length r < length a" by (rule packet_step_shrinks)
    show ?thesis
    proof (cases e)
      case (Dropped b)
      from less.hyps [OF l, of "errs + 1"] obtain es q where
        "drain_packets dps r = Done (es, q)"
        "frame_loop dps r (errs + 1) = Done (packets_of es, q, errs + 1 + of_nat (drops_of es))"
        by blast
      with Emit Dropped show ?thesis
        by (simp add: drain_packets.simps [of dps a] frame_loop_step [of dps a] add.assoc)
    next
      case (Packet p)
      from less.hyps [OF l, of errs] obtain es q where
        "drain_packets dps r = Done (es, q)"
        "frame_loop dps r errs = Done (packets_of es, q, errs + of_nat (drops_of es))"
        by blast
      with Emit Packet show ?thesis
        by (simp add: drain_packets.simps [of dps a] frame_loop_step [of dps a])
    qed
  next
    case Fault
    then show ?thesis by simp
  qed
qed

lemma frame_loop_of_drain:
  "drain_packets dps a = Done (es, r) \<Longrightarrow>
     frame_loop dps a errs = Done (packets_of es, r, errs + of_nat (drops_of es))"
  using frame_loop_drain [of dps a errs] by auto

lemma push_bytes_total: "\<exists>g ps. push_bytes dps data f = Done (g, ps)"
  using frame_loop_drain [of dps "acc f @ data" "framing_errors f"] by (auto simp: push_bytes_def)

text \<open>Every loop run as events; the rest never holds a complete packet.\<close>

lemma drain_conserves:
  "drain_packets dps a = Done (es, r) \<Longrightarrow> concat (map event_bytes es) @ r = a"
proof (induction "length a" arbitrary: a es rule: less_induct)
  case less
  show ?case
  proof (cases "packet_step dps a")
    case Stop
    with less.prems show ?thesis by (simp add: drain_packets.simps [of dps a])
  next
    case (Emit e q)
    with less.prems obtain fs where "drain_packets dps q = Done (fs, r)" "es = e # fs"
      by (auto simp: drain_packets.simps [of dps a])
    with less.hyps [OF packet_step_shrinks [OF Emit]] packet_step_conserves [OF Emit]
    show ?thesis by simp
  next
    case Fault
    then show ?thesis by simp
  qed
qed

lemma drain_rest_short: "drain_packets dps a = Done (es, r) \<Longrightarrow> length r < 65542"
proof (induction "length a" arbitrary: a es rule: less_induct)
  case less
  show ?case
  proof (cases "packet_step dps a")
    case Stop
    with less.prems have "r = a" by (simp add: drain_packets.simps [of dps a])
    with Stop show ?thesis
      by (auto simp: packet_step_def split: if_splits option.splits dest: verdict_bounds)
  next
    case (Emit e q)
    with less.prems obtain fs where "drain_packets dps q = Done (fs, r)"
      by (auto simp: drain_packets.simps [of dps a])
    then show ?thesis by (rule less.hyps [OF packet_step_shrinks [OF Emit]])
  next
    case Fault
    then show ?thesis by simp
  qed
qed

lemma packet_step_valid:
  assumes "header_only dps" and "packet_step dps a = Emit (Packet p) r"
  shows "dps p = Inr (length p)" and "7 \<le> length p" and "length p \<le> 65542"
proof -
  from assms(2) obtain n where n: "verdict dps a = Some n" "n \<le> length a" "p = take n a"
    by (auto simp: packet_step_def split: if_splits option.splits)
  from verdict_bounds [OF n(1)] n show "7 \<le> length p" "length p \<le> 65542" by auto
  have "verdict dps (take n a @ drop n a) = verdict dps (take n a)"
    using verdict_bounds [OF n(1)] n(2) by (intro header_only_verdict [OF assms(1)]) simp
  with n show "dps p = Inr (length p)"
    by (auto simp: verdict_def split: sum.splits if_splits)
qed

lemma drain_packets_valid:
  assumes "header_only dps" and "drain_packets dps a = Done (es, r)" and "p \<in> set (packets_of es)"
  shows "dps p = Inr (length p) \<and> 7 \<le> length p \<and> length p \<le> 65542"
  using assms(2,3)
proof (induction "length a" arbitrary: a es rule: less_induct)
  case less
  show ?case
  proof (cases "packet_step dps a")
    case Stop
    with less.prems show ?thesis by (simp add: drain_packets.simps [of dps a])
  next
    case (Emit e q)
    with less.prems obtain fs where fs: "drain_packets dps q = Done (fs, r)" "es = e # fs"
      by (auto simp: drain_packets.simps [of dps a])
    with less.hyps [OF packet_step_shrinks [OF Emit] fs(1)] less.prems(2) Emit show ?thesis
      by (cases e) (auto dest: packet_step_valid [OF assms(1)])
  next
    case Fault
    then show ?thesis by simp
  qed
qed

text \<open>Pushing chunk by chunk.\<close>

fun push_chunks :: "declared_size \<Rightarrow> bytes list \<Rightarrow> framer \<Rightarrow> (framer \<times> bytes list) cpp" where
  "push_chunks dps [] f = Done (f, [])"
| "push_chunks dps (c # cs) f =
     bind_cpp (push_bytes dps c f) (\<lambda>(g, ps). map_cpp (\<lambda>(h, qs). (h, ps @ qs)) (push_chunks dps cs g))"

lemma push_bytes_append:
  assumes "header_only dps"
  shows "push_bytes dps (a @ b) f =
    bind_cpp (push_bytes dps a f) (\<lambda>(g, ps). map_cpp (\<lambda>(h, qs). (h, ps @ qs)) (push_bytes dps b g))"
proof -
  obtain es r where d: "drain_packets dps (acc f @ a) = Done (es, r)"
    using frame_loop_drain by blast
  obtain gs q where e: "drain_packets dps (r @ b) = Done (gs, q)"
    using frame_loop_drain by blast
  from stream_splitter.drain_append [OF framer_splitter [OF assms] d, of b] e
  have j: "drain_packets dps (acc f @ a @ b) = Done (es @ gs, q)" by simp
  show ?thesis
  proof (cases "a = [] \<or> b = []")
    case True
    then show ?thesis
      by (elim disjE) (simp_all add: push_bytes_def frame_loop_of_drain [OF d] frame_loop_of_drain cpp.map_id)
  next
    case False
    with d e j show ?thesis by (simp add: push_bytes_def frame_loop_of_drain add.assoc)
  qed
qed

section \<open>Well-formed packets and garbage\<close>

definition whole_packet :: "declared_size \<Rightarrow> bytes \<Rightarrow> bool" where
  "whole_packet dps p \<longleftrightarrow> dps p = Inr (length p) \<and> 7 \<le> length p \<and> length p \<le> 65542"

lemma packet_step_whole:
  assumes "header_only dps" and "whole_packet dps p"
  shows "packet_step dps (p @ c) = Emit (Packet p) c"
proof -
  have "verdict dps (p @ c) = Some (length p)"
    using assms by (subst header_only_verdict) (auto simp: whole_packet_def verdict_def)
  with assms(2) show ?thesis by (simp add: packet_step_def whole_packet_def)
qed

lemma drain_whole_packets:
  assumes "header_only dps" and "\<forall>p \<in> set ps. whole_packet dps p"
  shows "drain_packets dps (concat ps @ t) = map_cpp (\<lambda>(es, q). (map Packet ps @ es, q)) (drain_packets dps t)"
  using stream_splitter.drain_items [OF framer_splitter [OF assms(1)], of ps "\<lambda>p. p" Packet t]
    packet_step_whole [OF assms(1)] assms(2) by simp

lemma drain_packets_Nil [simp]: "drain_packets dps [] = Done ([], [])"
  by (simp add: drain_packets.simps [of dps "[]"] packet_step_def)

text \<open>Bytes in front of a packet from which no plausible header starts.\<close>

fun implausible :: "declared_size \<Rightarrow> bytes \<Rightarrow> bytes \<Rightarrow> bool" where
  "implausible dps [] rest \<longleftrightarrow> True"
| "implausible dps (g # gs) rest \<longleftrightarrow>
     verdict dps (g # gs @ rest) = None \<and> implausible dps gs rest"

lemma drain_garbage:
  assumes "implausible dps g rest" and "6 \<le> length rest"
  shows "drain_packets dps (g @ rest)
    = map_cpp (\<lambda>(es, q). (map Dropped g @ es, q)) (drain_packets dps rest)"
  using assms(1)
proof (induction g)
  case Nil
  then show ?case by (cases "drain_packets dps rest") auto
next
  case (Cons x g)
  then have "packet_step dps ((x # g) @ rest) = Emit (Dropped x) (g @ rest)"
    using assms(2) by (simp add: packet_step_def)
  with Cons show ?case
    by (cases "drain_packets dps rest") (auto simp: drain_packets.simps [of dps "x # _"])
qed

lemma packets_of_map_Dropped [simp]: "packets_of (map Dropped g) = []"
  by (induction g) auto

lemma drops_of_map_Dropped [simp]: "drops_of (map Dropped g) = length g"
  by (induction g) auto

lemma push_chunks_concat:
  assumes "header_only dps"
  shows "push_chunks dps cs f = push_bytes dps (concat cs) f"
proof (induction cs arbitrary: f)
  case Nil
  then show ?case by (simp add: push_bytes_def)
next
  case (Cons c cs)
  then show ?case by (simp add: push_bytes_append [OF assms, of c "concat cs"])
qed

lemma push_bytes_drain:
  assumes "drain_packets dps (acc f @ data) = Done (es, r)" and "data \<noteq> []"
  shows "push_bytes dps data f =
    Done (f\<lparr>acc := r, framing_errors := framing_errors f + of_nat (drops_of es)\<rparr>,
      if has_callback f then packets_of es else [])"
  using assms by (simp add: push_bytes_def frame_loop_of_drain)

lemma push_bytes_keeps:
  assumes "push_bytes dps data f = Done (g, ps)"
  shows "has_callback g = has_callback f"
    and "length (acc f) < 65542 \<Longrightarrow> length (acc g) < 65542"
proof -
  obtain es r where d: "drain_packets dps (acc f @ data) = Done (es, r)"
    using frame_loop_drain by blast
  have g: "has_callback g = has_callback f \<and> (length (acc f) < 65542 \<longrightarrow> length (acc g) < 65542)"
  proof (cases "data = []")
    case True
    with assms show ?thesis by (simp add: push_bytes_def)
  next
    case False
    from push_bytes_drain [OF d False] assms
    have "g = f\<lparr>acc := r, framing_errors := framing_errors f + of_nat (drops_of es)\<rparr>" by simp
    with drain_rest_short [OF d] show ?thesis by simp
  qed
  then show "has_callback g = has_callback f" "length (acc f) < 65542 \<Longrightarrow> length (acc g) < 65542" by blast+
qed

section \<open>Properties\<close>

text \<open>The framer does not depend on how the link cut the byte stream: two ways of
  delivering the same bytes give the same packets, the same bytes kept and the same
  error count.\<close>
lemma framer_any_chunking:
  assumes "header_only dps" and "concat cs = concat ds"
  shows "push_chunks dps cs f = push_chunks dps ds f"
  using assms by (simp add: push_chunks_concat)

text \<open>Packets sent back to back and delivered in any pieces come out of a fresh framer
  whole and in order, with no framing error and nothing left over.\<close>
lemma framer_reassembles:
  assumes "header_only dps" and "\<forall>p \<in> set ps. whole_packet dps p" and "concat cs = concat ps"
  shows "push_chunks dps cs (set_on_packet new_framer) = Done (set_on_packet new_framer, ps)"
proof (cases "ps = []")
  case True
  with assms show ?thesis by (simp add: push_chunks_concat push_bytes_def)
next
  case False
  with assms(2) have "concat ps \<noteq> []" by (cases ps) (auto simp: whole_packet_def)
  moreover have "drain_packets dps (concat ps) = Done (map Packet ps, [])"
    using drain_whole_packets [OF assms(1,2), of "[]"] by simp
  ultimately show ?thesis
    using assms(1,3)
    by (simp add: push_chunks_concat push_bytes_drain new_framer_def set_on_packet_def)
qed

text \<open>C17: Every byte is accounted for. \<open>push_bytes\<close> is defined on every input; what was kept plus
  what arrives is, in this order, the delivered packets and the single bytes dropped between them,
  followed by what is kept; the error counter grows by the number of dropped bytes.\<close>
theorem framer_conserves_bytes:
  "\<exists>g ps es. push_bytes dps data f = Done (g, ps)
     \<and> acc f @ data = concat (map event_bytes es) @ acc g
     \<and> ps = (if has_callback f then packets_of es else [])
     \<and> framing_errors g = framing_errors f + of_nat (drops_of es)"
proof (cases "data = []")
  case True
  then show ?thesis by (intro exI [of _ f] exI [of _ "[]"]) (simp add: push_bytes_def)
next
  case False
  obtain es r where d: "drain_packets dps (acc f @ data) = Done (es, r)"
    using frame_loop_drain by blast
  let ?g = "f\<lparr>acc := r, framing_errors := framing_errors f + of_nat (drops_of es)\<rparr>"
  have "acc f @ data = concat (map event_bytes es) @ acc ?g" using drain_conserves [OF d] by simp
  moreover have "framing_errors ?g = framing_errors f + of_nat (drops_of es)" by simp
  ultimately show ?thesis using push_bytes_drain [OF d False] by blast
qed

text \<open>Every delivered packet has the size its own header declares, between 7 and 65542
  bytes, and the accumulator stays below one maximal packet.\<close>
lemma framer_packets_valid_and_memory_bounded:
  assumes "header_only dps" and "length (acc f) < 65542" and "push_bytes dps data f = Done (g, ps)"
  shows "(\<forall>p \<in> set ps. whole_packet dps p) \<and> length (acc g) < 65542"
proof (cases "data = []")
  case True
  with assms(2,3) show ?thesis by (simp add: push_bytes_def)
next
  case False
  obtain es r where d: "drain_packets dps (acc f @ data) = Done (es, r)"
    using frame_loop_drain by blast
  from push_bytes_drain [OF d False] drain_rest_short [OF d]
    drain_packets_valid [OF assms(1) d] assms(3) show ?thesis
    by (auto simp: whole_packet_def split: if_splits)
qed

text \<open>C18: Resynchronisation and reassembly: however the stream is cut, bytes from which no plausible
  header starts are dropped one by one, each counted once, and the packets after them, sent back to
  back, come out whole and in order, with nothing left over.\<close>
theorem framer_resynchronises:
  assumes "header_only dps" and "\<forall>q \<in> set (p # ps). whole_packet dps q"
    and "implausible dps g (concat (p # ps))" and "acc f = []" and "has_callback f"
    and "concat cs = g @ concat (p # ps)"
  shows "push_chunks dps cs f = Done (f\<lparr>framing_errors := framing_errors f + of_nat (length g)\<rparr>, p # ps)"
proof -
  have "drain_packets dps (concat (p # ps) @ []) = Done (map Packet (p # ps), [])"
    using drain_whole_packets [OF assms(1,2), of "[]"] by simp
  then have "drain_packets dps (acc f @ g @ concat (p # ps)) = Done (map Dropped g @ map Packet (p # ps), [])"
    using drain_garbage [OF assms(3)] assms(2,4) by (simp add: whole_packet_def)
  moreover have "g @ concat (p # ps) \<noteq> []" using assms(2) by (auto simp: whole_packet_def)
  moreover have "f\<lparr>acc := [], framing_errors := x\<rparr> = f\<lparr>framing_errors := x\<rparr>" for x
    using assms(4) by (cases f) simp
  ultimately show ?thesis
    using assms(1,5,6) by (simp add: push_chunks_concat push_bytes_drain)
qed

theorem framer_resynchronises_witness:
  "push_chunks icd_declared_size [[255, 64, 8], [1, 192, 7, 0], [0, 170, 9, 1, 0, 0], [0, 0, 204]]
     (set_on_packet new_framer)
   = Done ((set_on_packet new_framer)\<lparr>framing_errors :=
        framing_errors (set_on_packet new_framer) + of_nat (length [255 :: byte, 64])\<rparr>,
      [[8, 1, 192, 7, 0, 0, 170], [9, 1, 0, 0, 0, 0, 204]])"
  by (rule framer_resynchronises [OF header_only_icd])
    (simp_all add: whole_packet_def icd_declared_size_def read_u16_def verdict_def
      new_framer_def set_on_packet_def)

end
