(* ===== verification/State_Store.thy ===== *)
theory State_Store
  imports GS_Prelude
begin

text \<open>
  The daemon's shared state: \<open>daemon/src/state.cpp\<close>, \<open>daemon/include/exn/daemon/state.hpp\<close>
  and the record types of \<open>shared/include/exn/shared/types.hpp\<close>. The mutex is not modelled:
  every operation holds it from its first to its last statement.
\<close>

section \<open>Types\<close>

datatype direction = TC | TM

datatype link_state = Disconnected | Connected | LinkError

record packet_record =
  rec_ts :: u64
  rec_dir :: direction
  rec_apid :: u16
  rec_seq :: u16
  rec_service :: byte
  rec_subservice :: byte
  rec_summary :: string
  rec_raw :: bytes

record snapshot =
  link :: link_state
  link_detail :: string
  rx_packets :: u64
  rx_bytes :: u64
  tx_packets :: u64
  tx_bytes :: u64
  decode_errors :: u64
  framing_error_count :: u64
  services :: "byte \<rightharpoonup> u64"

record state_store =
  cap :: nat
  snap :: snapshot
  ring :: "packet_record list"

definition empty_snapshot :: snapshot where
  "empty_snapshot = \<lparr>link = Disconnected, link_detail = [], rx_packets = 0, rx_bytes = 0,
     tx_packets = 0, tx_bytes = 0, decode_errors = 0, framing_error_count = 0,
     services = Map.empty\<rparr>"

definition new_store :: "nat \<Rightarrow> state_store" where
  "new_store c = \<lparr>cap = c, snap = empty_snapshot, ring = []\<rparr>"

section \<open>Operations\<close>

definition set_link :: "link_state \<Rightarrow> string \<Rightarrow> state_store \<Rightarrow> state_store" where
  "set_link st detail s = s\<lparr>snap := (snap s)\<lparr>link := st, link_detail := detail\<rparr>\<rparr>"

text \<open>\<open>while (ring_.size() > cap_) ring_.pop_front()\<close>.\<close>

fun pop_over :: "nat \<Rightarrow> 'a list \<Rightarrow> 'a list" where
  "pop_over c [] = []"
| "pop_over c (x # xs) = (if c < length (x # xs) then pop_over c xs else x # xs)"

definition on_packet :: "packet_record \<Rightarrow> state_store \<Rightarrow> state_store" where
  "on_packet r s =
     (let n = snap s;
          n = n\<lparr>rx_packets := rx_packets n + 1\<rparr>;
          n = n\<lparr>rx_bytes := rx_bytes n + of_nat (length (rec_raw r))\<rparr>;
          n = n\<lparr>services := (services n)(rec_service r \<mapsto> rec_ts r)\<rparr>
      in s\<lparr>snap := n, ring := pop_over (cap s) (ring s @ [r])\<rparr>)"

definition on_tx :: "nat \<Rightarrow> state_store \<Rightarrow> state_store" where
  "on_tx n s = s\<lparr>snap := (snap s)\<lparr>tx_packets := tx_packets (snap s) + 1,
     tx_bytes := tx_bytes (snap s) + of_nat n\<rparr>\<rparr>"

definition on_decode_error :: "state_store \<Rightarrow> state_store" where
  "on_decode_error s = s\<lparr>snap := (snap s)\<lparr>decode_errors := decode_errors (snap s) + 1\<rparr>\<rparr>"

definition on_framing_error :: "state_store \<Rightarrow> state_store" where
  "on_framing_error s =
     s\<lparr>snap := (snap s)\<lparr>framing_error_count := framing_error_count (snap s) + 1\<rparr>\<rparr>"

definition last_packets :: "nat \<Rightarrow> state_store \<Rightarrow> packet_record list" where
  "last_packets n s =
     (if length (ring s) \<le> n then ring s else drop (length (ring s) - n) (ring s))"

lemmas store_defs [unfold_ops] =
  set_link_def on_packet_def on_tx_def on_decode_error_def on_framing_error_def

lemma pop_over_last_n: "pop_over c xs = last_n c xs"
proof (induction xs)
  case Nil
  then show ?case by (simp add: last_n_def)
next
  case (Cons x xs)
  then show ?case
    by (cases "c < length (x # xs)") (auto simp: last_n_def Suc_diff_le)
qed

lemma cap_ops [simp]:
  "cap (set_link st d s) = cap s" "cap (on_packet r s) = cap s" "cap (on_tx n s) = cap s"
  "cap (on_decode_error s) = cap s" "cap (on_framing_error s) = cap s"
  by (simp_all add: store_defs Let_def)

section \<open>Abstract history\<close>

text \<open>
  The specification: the store is a view of everything that happened. A history is a list
  of events; each counter, the service table and the ring are functions of it.
\<close>

datatype store_event =
    SetLink link_state string
  | Rx packet_record
  | Tx nat
  | DecodeError
  | FramingError

fun store_step :: "state_store \<Rightarrow> store_event \<Rightarrow> state_store" where
  "store_step s (SetLink st d) = set_link st d s"
| "store_step s (Rx r) = on_packet r s"
| "store_step s (Tx n) = on_tx n s"
| "store_step s DecodeError = on_decode_error s"
| "store_step s FramingError = on_framing_error s"

definition store_run :: "nat \<Rightarrow> store_event list \<Rightarrow> state_store" where
  "store_run c es = foldl store_step (new_store c) es"

fun rx_of :: "store_event \<Rightarrow> packet_record list" where
  "rx_of (Rx r) = [r]"
| "rx_of _ = []"

fun tx_of :: "store_event \<Rightarrow> nat list" where
  "tx_of (Tx n) = [n]"
| "tx_of _ = []"

definition received :: "store_event list \<Rightarrow> packet_record list" where
  "received es = concat (map rx_of es)"

definition transmitted :: "store_event list \<Rightarrow> nat list" where
  "transmitted es = concat (map tx_of es)"

fun link_after :: "link_state \<times> string \<Rightarrow> store_event \<Rightarrow> link_state \<times> string" where
  "link_after l (SetLink st d) = (st, d)"
| "link_after l _ = l"

definition last_link :: "store_event list \<Rightarrow> link_state \<times> string" where
  "last_link es = foldl link_after (Disconnected, []) es"

definition seen_at :: "packet_record list \<Rightarrow> byte \<rightharpoonup> u64" where
  "seen_at rs = map_of (rev (map (\<lambda>r. (rec_service r, rec_ts r)) rs))"

lemma store_run_snoc: "store_run c (es @ [e]) = store_step (store_run c es) e"
  by (simp add: store_run_def)

lemma received_snoc: "received (es @ [e]) = received es @ rx_of e"
  by (simp add: received_def)

lemma transmitted_snoc: "transmitted (es @ [e]) = transmitted es @ tx_of e"
  by (simp add: transmitted_def)

lemma seen_at_snoc: "seen_at (rs @ [r]) = (seen_at rs)(rec_service r \<mapsto> rec_ts r)"
  by (simp add: seen_at_def)

lemma cap_store_run [simp]: "cap (store_run c es) = c"
proof (induction es rule: rev_induct)
  case Nil
  then show ?case by (simp add: store_run_def new_store_def)
next
  case (snoc e es)
  then show ?case by (cases e) (simp_all add: store_run_snoc)
qed

lemma ring_store_run: "ring (store_run c es) = last_n c (received es)"
proof (induction es rule: rev_induct)
  case Nil
  then show ?case by (simp add: store_run_def new_store_def received_def)
next
  case (snoc e es)
  then show ?case
    by (cases e) (simp_all add: store_run_snoc received_snoc store_defs Let_def
        pop_over_last_n last_n_snoc)
qed

lemma rx_store_run:
  "rx_packets (snap (store_run c es)) = of_nat (length (received es))
   \<and> rx_bytes (snap (store_run c es)) = of_nat (sum_list (map (length \<circ> rec_raw) (received es)))
   \<and> services (snap (store_run c es)) = seen_at (received es)"
proof (induction es rule: rev_induct)
  case Nil
  then show ?case
    by (simp add: store_run_def new_store_def received_def empty_snapshot_def seen_at_def)
next
  case (snoc e es)
  then show ?case
    by (cases e) (simp_all add: store_run_snoc received_snoc store_defs Let_def seen_at_snoc)
qed

lemma tx_store_run:
  "tx_packets (snap (store_run c es)) = of_nat (length (transmitted es))
   \<and> tx_bytes (snap (store_run c es)) = of_nat (sum_list (transmitted es))"
proof (induction es rule: rev_induct)
  case Nil
  then show ?case
    by (simp add: store_run_def new_store_def transmitted_def empty_snapshot_def)
next
  case (snoc e es)
  then show ?case
    by (cases e) (simp_all add: store_run_snoc transmitted_snoc store_defs Let_def)
qed

lemma errors_store_run:
  "decode_errors (snap (store_run c es)) = of_nat (count_list es DecodeError)
   \<and> framing_error_count (snap (store_run c es)) = of_nat (count_list es FramingError)"
proof (induction es rule: rev_induct)
  case Nil
  then show ?case
    by (simp add: store_run_def new_store_def empty_snapshot_def)
next
  case (snoc e es)
  then show ?case
    by (cases e) (simp_all add: store_run_snoc store_defs Let_def)
qed

lemma link_store_run:
  "(link (snap (store_run c es)), link_detail (snap (store_run c es))) = last_link es"
proof (induction es rule: rev_induct)
  case Nil
  then show ?case
    by (simp add: store_run_def new_store_def empty_snapshot_def last_link_def)
next
  case (snoc e es)
  then show ?case
    by (cases e) (auto simp: store_run_snoc store_defs Let_def last_link_def)
qed

section \<open>Properties\<close>

text \<open>C19: The store refines the history of its events: after any sequence of operations the
  ring holds the most recent \<open>cap_\<close> received packets in order, the RX and TX counters are
  the counts and byte sums of the history modulo \<open>2 ^ 64\<close>, the service table maps each
  service to the time of its last packet, and the link state is the last one set.\<close>
theorem store_refines_history:
  "store_run c es =
     \<lparr>cap = c,
      snap = \<lparr>link = fst (last_link es), link_detail = snd (last_link es),
        rx_packets = of_nat (length (received es)),
        rx_bytes = of_nat (sum_list (map (length \<circ> rec_raw) (received es))),
        tx_packets = of_nat (length (transmitted es)),
        tx_bytes = of_nat (sum_list (transmitted es)),
        decode_errors = of_nat (count_list es DecodeError),
        framing_error_count = of_nat (count_list es FramingError),
        services = seen_at (received es)\<rparr>,
      ring = last_n c (received es)\<rparr>"
proof -
  have link: "link (snap (store_run c es)) = fst (last_link es)"
    "link_detail (snap (store_run c es)) = snd (last_link es)"
    by (simp_all flip: link_store_run [of c es])
  show ?thesis
    using rx_store_run [of c es] tx_store_run [of c es] errors_store_run [of c es] link
    by (intro state_store.equality snapshot.equality) (simp_all add: ring_store_run)
qed

text \<open>\<open>last_packets(n)\<close> returns the most recent \<open>n\<close> packets ever received, in order of
  arrival, as long as the ring keeps that many; otherwise everything the ring keeps.\<close>
lemma last_packets_most_recent:
  "last_packets n (store_run c es) = last_n (min n c) (received es)"
proof (cases "n \<le> c")
  case True
  have "last_packets n (store_run c es) = last_n n (last_n c (received es))"
    by (simp add: last_packets_def ring_store_run last_n_def)
  with True show ?thesis by (simp add: last_n_last_n min_def)
next
  case False
  then show ?thesis by (simp add: last_packets_def ring_store_run min_def)
qed

end
