(* ===== verification/Packet_Log.thy ===== *)
theory Packet_Log
  imports GS_Prelude State_Store
begin

text \<open>
  The JSONL packet log: \<open>daemon/src/storage_file.cpp\<close>. The sink is the state of the
  \<open>ofstream\<close> (usable or not) and the contents of \<open>packets.jsonl\<close>; the mutex and the
  flush after each line have no counterpart.
\<close>

section \<open>Sink\<close>

record log_sink =
  good :: bool
  contents :: string

text \<open>Opened with \<open>std::ios::app\<close>: what the file held stays; opening may fail.\<close>

definition open_sink :: "bool \<Rightarrow> string \<Rightarrow> log_sink" where
  "open_sink opened old = \<lparr>good = opened, contents = old\<rparr>"

definition quote :: char where "quote = CHR 0x22"
definition backslash :: char where "backslash = CHR 0x5C"
definition newline :: char where "newline = CHR 0x0A"
definition carriage :: char where "carriage = CHR 0x0D"
definition tabulator :: char where "tabulator = CHR 0x09"

lemmas special_chars = quote_def backslash_def newline_def carriage_def tabulator_def

definition escape_char :: "char \<Rightarrow> string" where
  "escape_char c =
     (if c = quote then [backslash, quote]
      else if c = backslash then [backslash, backslash]
      else if c = newline then [backslash, CHR ''n'']
      else if c = carriage then [backslash, CHR ''r'']
      else if c = tabulator then [backslash, CHR ''t'']
      else [c])"

definition escape :: "string \<Rightarrow> string" where
  "escape s = concat (map escape_char s)"

text \<open>A member name in quotes and its colon.\<close>

definition key :: "string \<Rightarrow> string" where
  "key k = [quote] @ k @ [quote] @ '':''"

definition dir_text :: "direction \<Rightarrow> string" where
  "dir_text d = [quote] @ (if d = TC then ''TC'' else ''TM'') @ [quote]"

text \<open>One \<open>operator<<\<close> chain of \<open>store\<close>, without the final newline.\<close>

definition json_line :: "packet_record \<Rightarrow> string" where
  "json_line r = ''{''
     @ key ''ts_ns'' @ dec (unat (rec_ts r)) @ '',''
     @ key ''dir'' @ dir_text (rec_dir r) @ '',''
     @ key ''apid'' @ dec (unat (rec_apid r)) @ '',''
     @ key ''seq'' @ dec (unat (rec_seq r)) @ '',''
     @ key ''service'' @ dec (unat (rec_service r)) @ '',''
     @ key ''subservice'' @ dec (unat (rec_subservice r)) @ '',''
     @ key ''summary'' @ [quote] @ escape (rec_summary r) @ [quote]
     @ ''}''"

definition store_record :: "packet_record \<Rightarrow> log_sink \<Rightarrow> log_sink" where
  "store_record r k =
     (if \<not> good k then k else k\<lparr>contents := contents k @ json_line r @ [newline]\<rparr>)"

section \<open>Reading the log back\<close>

fun unescape :: "string \<Rightarrow> string" where
  "unescape [] = []"
| "unescape [c] = [c]"
| "unescape (c # d # s) =
     (if c = backslash then
        (if d = CHR ''n'' then newline else if d = CHR ''r'' then carriage
         else if d = CHR ''t'' then tabulator else d) # unescape s
      else c # unescape (d # s))"

lemma escape_char_cases:
  obtains "c = quote" | "c = backslash" | "c = newline" | "c = carriage" | "c = tabulator"
    | "escape_char c = [c]" "c \<noteq> backslash" "c \<noteq> quote"
  by (cases "c = quote"; cases "c = backslash"; cases "c = newline"; cases "c = carriage";
      cases "c = tabulator") (simp_all add: escape_char_def)

lemma unescape_plain: "c \<noteq> backslash \<Longrightarrow> unescape (c # s) = c # unescape s"
  by (cases s) auto

lemma unescape_escape [simp, roundtrips]: "unescape (escape s) = s"
proof (induction s)
  case Nil
  then show ?case by (simp add: escape_def)
next
  case (Cons c s)
  then have IH: "unescape (concat (map escape_char s)) = s" by (simp add: escape_def)
  show ?case
  proof (cases c rule: escape_char_cases)
    case 6
    then show ?thesis by (simp add: escape_def IH unescape_plain)
  qed (simp_all add: escape_def escape_char_def IH special_chars)
qed

text \<open>A string literal ends at its first unescaped quote.\<close>

fun literal_end :: "string \<Rightarrow> string \<times> string" where
  "literal_end [] = ([], [])"
| "literal_end [c] = (if c = quote then ([], []) else ([c], []))"
| "literal_end (c # d # s) =
     (if c = quote then ([], d # s)
      else if c = backslash then map_prod (\<lambda>t. c # d # t) id (literal_end s)
      else map_prod (\<lambda>t. c # t) id (literal_end (d # s)))"

lemma literal_end_plain:
  "c \<noteq> quote \<Longrightarrow> c \<noteq> backslash \<Longrightarrow> literal_end (c # s) = map_prod (\<lambda>t. c # t) id (literal_end s)"
  by (cases s) auto

lemma literal_end_quote [simp]: "literal_end (quote # s) = ([], s)"
  by (cases s) auto

lemma literal_end_escape: "literal_end (escape s @ quote # r) = (escape s, r)"
proof (induction s)
  case Nil
  then show ?case by (simp add: escape_def)
next
  case (Cons c s)
  then have IH: "literal_end (concat (map escape_char s) @ quote # r)
    = (concat (map escape_char s), r)" by (simp add: escape_def)
  show ?case
  proof (cases c rule: escape_char_cases)
    case 6
    with IH show ?thesis by (simp add: escape_def literal_end_plain)
  qed (simp_all add: escape_def escape_char_def IH [unfolded special_chars] special_chars)
qed

definition is_digit :: "char \<Rightarrow> bool" where
  "is_digit c \<longleftrightarrow> 48 \<le> (of_char c :: nat) \<and> (of_char c :: nat) \<le> 57"

lemma dec_digits: "c \<in> set (dec n) \<Longrightarrow> is_digit c"
proof (induction n rule: dec.induct)
  case (1 n)
  have "d < 10 \<Longrightarrow> is_digit (digit d)" for d
    by (simp add: is_digit_def of_char_digit)
  with 1 show ?case
    by (cases "n < 10") (auto simp: dec.simps [of n])
qed

lemma takeWhile_dec:
  assumes "\<not> is_digit x"
  shows "takeWhile is_digit (dec n @ x # r) = dec n" and "dropWhile is_digit (dec n @ x # r) = x # r"
  using assms dec_digits by (simp_all add: takeWhile_append2 dropWhile_append2)

text \<open>A reader of one log line, by the fixed positions of its member names.\<close>

definition read_number :: "string \<Rightarrow> nat \<times> string" where
  "read_number s = (dec_value (takeWhile is_digit s), dropWhile is_digit s)"

definition read_line ::
    "string \<Rightarrow> nat \<times> direction \<times> nat \<times> nat \<times> nat \<times> nat \<times> string" where
  "read_line s =
     (let (ts, s) = read_number (drop (length ''.ts_ns..:'') s);
          d = (if take 2 (drop 8 s) = ''TC'' then TC else TM);
          (a, s) = read_number (drop (length '',.dir.:.TC.,.apid.:'') s);
          (q, s) = read_number (drop (length '',.seq.:'') s);
          (sv, s) = read_number (drop (length '',.service.:'') s);
          (sb, s) = read_number (drop (length '',.subservice.:'') s);
          s = drop (length '',.summary.:.'') s
      in (ts, d, a, q, sv, sb, unescape (fst (literal_end s))))"

lemma read_number_dec:
  "\<not> is_digit x \<Longrightarrow> read_number (dec n @ x # r) = (n, x # r)"
  by (simp add: read_number_def takeWhile_dec)

lemma escape_no_newline: "newline \<notin> set (escape s)"
  by (auto simp: escape_def escape_char_def special_chars split: if_splits)

lemma newline_not_digit [simp]: "\<not> is_digit newline"
  by (simp add: is_digit_def newline_def)

lemma json_line_no_newline: "newline \<notin> set (json_line r)"
proof -
  have "newline \<notin> set (dec n)" for n using dec_digits newline_not_digit by blast
  then show ?thesis
    using escape_no_newline [of "rec_summary r"]
    by (auto simp: json_line_def key_def dir_text_def special_chars)
qed

fun lines_of :: "string \<Rightarrow> string list" where
  "lines_of [] = []"
| "lines_of (c # s) =
     (if c = newline then [] # lines_of s
      else case lines_of s of [] \<Rightarrow> [[c]] | l # ls \<Rightarrow> (c # l) # ls)"

lemma lines_of_line:
  "newline \<notin> set l \<Longrightarrow> lines_of (l @ newline # s) = l # lines_of s"
  by (induction l) auto

lemma lines_of_lines:
  "\<forall>l \<in> set ls. newline \<notin> set l \<Longrightarrow> lines_of (concat (map (\<lambda>l. l @ [newline]) ls)) = ls"
  by (induction ls) (auto simp: lines_of_line)

lemma contents_store_records:
  "good k \<Longrightarrow> contents (fold store_record rs k)
     = contents k @ concat (map (\<lambda>l. l @ [newline]) (map json_line rs))"
  by (induction rs arbitrary: k) (auto simp: store_record_def)

section \<open>Properties\<close>

text \<open>The log of a usable file is one line per stored record, in order: reading the
  new file line by line gives the JSON texts of the records and nothing else, whatever
  characters their summaries hold.\<close>
lemma log_one_line_per_record:
  "lines_of (contents (fold store_record rs (open_sink True []))) = map json_line rs"
  using contents_store_records [of "open_sink True []" rs] json_line_no_newline
  by (simp add: open_sink_def lines_of_lines del: map_map)

text \<open>C28: A log line can be read back: the reader recovers timestamp, direction, APID,
  sequence count, service, subservice and summary of the stored record.\<close>
theorem json_line_roundtrip:
  "read_line (json_line r) =
     (unat (rec_ts r), rec_dir r, unat (rec_apid r), unat (rec_seq r), unat (rec_service r),
      unat (rec_subservice r), rec_summary r)"
proof -
  have comma: "\<not> is_digit CHR '',''" by (simp add: is_digit_def)
  show ?thesis
    by (cases "rec_dir r")
      (simp_all add: json_line_def read_line_def key_def dir_text_def comma read_number_dec
        literal_end_escape)
qed

end
