(* ===== verification/Space_Packet.thy ===== *)
theory Space_Packet
  imports GS_Prelude Protocol Framer
begin

text \<open>
  The Space Packet profile: \<open>shared/src/ccsds.cpp\<close>, \<open>shared/include/exn/shared/ccsds.hpp\<close>
  and the clock of \<open>shared/src/time.cpp\<close>. The code is a client of the external library
  CCSDSPack: packet objects, headers and the CRC are the library's. The library is the
  record \<open>ccsdspack\<close> of the operations the code calls, an argument of every definition
  that calls them; a failing call carries the text of its \<open>Error::message()\<close>.
\<close>

section \<open>The library interface\<close>

record primary_header =
  hdr_version :: byte
  hdr_type :: byte
  hdr_secondary :: byte
  hdr_apid :: u16
  hdr_seq_flags :: byte
  hdr_seq_count :: u16
  hdr_length :: u16

record cuc_config =
  cuc_epoch_agency :: bool
  cuc_implicit :: bool
  cuc_coarse_octets :: nat
  cuc_fine_octets :: nat

record tm_tailoring =
  timestamp_present :: bool
  cuc :: cuc_config
  spare_octets :: nat

record cuc_time =
  coarse :: u64
  fine :: u64

text \<open>Arguments of the constructors \<open>rev_c::TcHeader\<close> and \<open>rev_c::TmHeader\<close>.\<close>

datatype secondary_header =
    TcHeader (service: byte) (subservice: byte) (source: u16) (acks: byte)
  | TmHeader tm_tailoring byte byte u16 u16 byte cuc_time

record tc_view =
  tc_service :: byte
  tc_subtype :: byte
  tc_source :: u16
  tc_acks :: byte

record 'p ccsdspack =
  declared_packet_size :: declared_size
  new_packet :: 'p
  set_update_enable :: "bool \<Rightarrow> 'p \<Rightarrow> 'p"
  set_crc16 :: "'p \<Rightarrow> 'p"
  set_version :: "byte \<Rightarrow> 'p \<Rightarrow> string + 'p"
  set_apid :: "u16 \<Rightarrow> 'p \<Rightarrow> string + 'p"
  set_unsegmented :: "'p \<Rightarrow> 'p"
  set_sequence :: "u16 \<Rightarrow> 'p \<Rightarrow> string + 'p"
  set_secondary :: "secondary_header \<Rightarrow> 'p \<Rightarrow> string + 'p"
  set_data :: "bytes \<Rightarrow> 'p \<Rightarrow> string + 'p"
  serialize :: "'p \<Rightarrow> string + bytes"
  deserialize_tc :: "bytes \<Rightarrow> 'p \<Rightarrow> string + 'p"
  primary_of :: "'p \<Rightarrow> primary_header"
  secondary_tc :: "'p \<Rightarrow> tc_view option"
  data_of :: "'p \<Rightarrow> bytes"
  read_primary :: "bytes \<Rightarrow> string + primary_header"
  tc_header_size :: nat
  read_tc_header :: "bytes \<Rightarrow> (byte \<times> byte) option"
  tm_header_size :: "tm_tailoring \<Rightarrow> nat"
  read_tm_header :: "tm_tailoring \<Rightarrow> bytes \<Rightarrow> (byte \<times> byte) option"

section \<open>Operations\<close>

text \<open>\<open>set_error\<close>: the context, a colon and the library's message.\<close>

definition set_error :: "string \<Rightarrow> string \<Rightarrow> string" where
  "set_error context message = context @ '': '' @ message"

text \<open>
  \<open>prepare_primary\<close>, \<open>Inl\<close> for the error text of \<open>return false\<close>.
\<close>

definition prepare_primary ::
    "'p ccsdspack \<Rightarrow> u16 \<Rightarrow> u16 \<Rightarrow> 'p \<Rightarrow> string + 'p" where
  "prepare_primary L ap seq_count p =
     (let p = set_crc16 L (set_update_enable L True p) in
      case set_version L 0 p of
        Inl e \<Rightarrow> Inl (set_error ''set CCSDS version'' e)
      | Inr p \<Rightarrow>
     (case set_apid L ap p of
        Inl e \<Rightarrow> Inl (set_error ''set APID'' e)
      | Inr p \<Rightarrow>
     (case set_sequence L seq_count (set_unsegmented L p) of
        Inl e \<Rightarrow> Inl (set_error ''set sequence count'' e)
      | Inr p \<Rightarrow> Inr p)))"

definition fill_primary_meta :: "primary_header \<Rightarrow> packet_meta \<Rightarrow> packet_meta" where
  "fill_primary_meta h m = m\<lparr>ver := hdr_version h, ptyp := hdr_type h,
     shf := hdr_secondary h, apid := hdr_apid h, seqf := hdr_seq_flags h,
     seqc := hdr_seq_count h, dlen := hdr_length h\<rparr>"

definition exn_tm_tailoring :: tm_tailoring where
  "exn_tm_tailoring = \<lparr>timestamp_present = True,
     cuc = \<lparr>cuc_epoch_agency = True, cuc_implicit = True, cuc_coarse_octets = 4,
            cuc_fine_octets = 2\<rparr>,
     spare_octets = 0\<rparr>"

text \<open>\<open>current_exn_cuc\<close>, the value of \<open>now_ns()\<close> being \<open>ns\<close>.\<close>

definition exn_cuc :: "u64 \<Rightarrow> cuc_time" where
  "exn_cuc ns =
     (let kNsPerSecond = 1000000000; kFineScale = 65536;
          c = ns div kNsPerSecond;
          remainder = ns mod kNsPerSecond
      in \<lparr>coarse = c, fine = (remainder * kFineScale) div kNsPerSecond\<rparr>)"

text \<open>
  The common tail of \<open>build_pus_c_tc\<close> and \<open>build_pus_c_tm\<close>: success flag, packet and
  error text, the last two cleared first.
\<close>

definition finish_packet ::
    "'p ccsdspack \<Rightarrow> bytes \<Rightarrow> 'p \<Rightarrow> bool \<times> bytes \<times> string" where
  "finish_packet L data p =
     (case (if data \<noteq> [] then set_data L data p else Inr p) of
        Inl e \<Rightarrow> (False, [], set_error ''set application data'' e)
      | Inr p \<Rightarrow>
     (case serialize L p of
        Inl e \<Rightarrow> (False, [], set_error ''serialize Space Packet'' e)
      | Inr bs \<Rightarrow> (True, bs, [])))"

definition build_pus_c_tc ::
    "'p ccsdspack \<Rightarrow> u16 \<Rightarrow> u16 \<Rightarrow> byte \<Rightarrow> byte \<Rightarrow> u16 \<Rightarrow> byte \<Rightarrow> bytes
       \<Rightarrow> bool \<times> bytes \<times> string" where
  "build_pus_c_tc L ap seq_count sv sb src ack data =
     (case prepare_primary L ap seq_count (new_packet L) of
        Inl e \<Rightarrow> (False, [], e)
      | Inr p \<Rightarrow>
     (case set_secondary L (TcHeader sv sb src ack) p of
        Inl e \<Rightarrow> (False, [], set_error ''set PUS-C TC secondary header'' e)
      | Inr p \<Rightarrow> finish_packet L data p))"

definition build_pus_c_tm ::
    "'p ccsdspack \<Rightarrow> u64 \<Rightarrow> u16 \<Rightarrow> u16 \<Rightarrow> byte \<Rightarrow> byte \<Rightarrow> u16 \<Rightarrow> u16 \<Rightarrow> byte \<Rightarrow> bytes
       \<Rightarrow> bool \<times> bytes \<times> string" where
  "build_pus_c_tm L now ap seq_count sv sb counter dest status data =
     (case prepare_primary L ap seq_count (new_packet L) of
        Inl e \<Rightarrow> (False, [], e)
      | Inr p \<Rightarrow>
     (case set_secondary L (TmHeader exn_tm_tailoring sv sb counter dest status (exn_cuc now)) p of
        Inl e \<Rightarrow> (False, [], set_error ''set PUS-C TM secondary header'' e)
      | Inr p \<Rightarrow> finish_packet L data p))"

record tc_info =
  source_id :: u16
  acknowledgement_flags :: byte
  request_id :: bytes

text \<open>
  \<open>parse_pus_c_tc\<close> with a non-null \<open>tc_info\<close> of initial value \<open>info\<close>: success flag, metadata,
  application data, error text and \<open>tc_info\<close>. \<open>request_id\<close> is \<open>std::array<uint8_t, 4>\<close>.
\<close>

definition parse_pus_c_tc ::
    "'p ccsdspack \<Rightarrow> u64 \<Rightarrow> bytes \<Rightarrow> tc_info
       \<Rightarrow> bool \<times> packet_meta \<times> bytes \<times> string \<times> tc_info" where
  "parse_pus_c_tc L now packet info =
     (let m = empty_meta\<lparr>ts_ns := now\<rparr> in
      case deserialize_tc L packet (set_crc16 L (new_packet L)) of
        Inl e \<Rightarrow> (False, m, [], set_error ''parse PUS-C TC'' e, info)
      | Inr p \<Rightarrow>
     (let m = fill_primary_meta (primary_of L p) m in
      case secondary_tc L p of
        None \<Rightarrow> (False, m, [], ''parse PUS-C TC: secondary header is missing'', info)
      | Some h \<Rightarrow>
          (True, m\<lparr>svc := tc_service h, ssvc := tc_subtype h\<rparr>, data_of L p, [],
           \<lparr>source_id = tc_source h, acknowledgement_flags = tc_acks h,
            request_id = (if 4 \<le> length packet then take 4 packet else [0, 0, 0, 0])\<rparr>)))"

text \<open>
  \<open>decode_meta\<close>: success flag, metadata and error text. The six header bytes are copied
  with iterators, which is undefined for a shorter packet.
\<close>

definition service_fields :: "(byte \<times> byte) option \<Rightarrow> packet_meta \<Rightarrow> packet_meta" where
  "service_fields r m = (case r of None \<Rightarrow> m | Some (s, t) \<Rightarrow> m\<lparr>svc := s, ssvc := t\<rparr>)"

definition decode_meta ::
    "'p ccsdspack \<Rightarrow> u64 \<Rightarrow> bytes \<Rightarrow> (bool \<times> packet_meta \<times> string) cpp" where
  "decode_meta L now packet =
     (let m = empty_meta\<lparr>ts_ns := now\<rparr> in
      case declared_packet_size L packet of
        Inl e \<Rightarrow> Done (False, m, set_error ''inspect Space Packet'' e)
      | Inr n \<Rightarrow>
      if n \<noteq> length packet
      then Done (False, m, ''Space Packet size does not match CCSDS Packet Data Length'')
      else if length packet < 6 then UB
      else case read_primary L (take 6 packet) of
        Inl e \<Rightarrow> Done (False, m, set_error ''parse primary header'' e)
      | Inr h \<Rightarrow>
     (let m = fill_primary_meta h m in
      if shf m = 0 then Done (True, m, [])
      else if ptyp m = 1 then
        let k = tc_header_size L in
        if 6 + k \<le> length packet
        then Done (True, service_fields (read_tc_header L (take k (drop 6 packet))) m, [])
        else Done (True, m, [])
      else
        let t = exn_tm_tailoring; k = tm_header_size L t in
        if 6 + k \<le> length packet
        then Done (True, service_fields (read_tm_header L t (take k (drop 6 packet))) m, [])
        else Done (True, m, [])))"

text \<open>The structural check the daemon routes by, without the monitoring metadata.\<close>

definition routable :: "'p ccsdspack \<Rightarrow> bytes \<Rightarrow> bool" where
  "routable L packet \<longleftrightarrow> declared_packet_size L packet = Inr (length packet)
     \<and> \<not> isl (read_primary L (take 6 packet))"

text \<open>
  What the code relies on when it copies six bytes after a successful inspection: a
  declared size is that of a primary header and at least one data octet.
\<close>

definition sizes_sane :: "'p ccsdspack \<Rightarrow> bool" where
  "sizes_sane L \<longleftrightarrow> (\<forall>p n. declared_packet_size L p = Inr n \<longrightarrow> 7 \<le> n)"

lemma sizes_saneD: "sizes_sane L \<Longrightarrow> declared_packet_size L p = Inr n \<Longrightarrow> 7 \<le> n"
  by (auto simp: sizes_sane_def)

lemma decode_meta_defined:
  assumes "sizes_sane L"
  shows "\<exists>ok m e. decode_meta L now p = Done (ok, m, e)"
  using sizes_saneD [OF assms, of p "length p"]
  by (auto simp: decode_meta_def Let_def split: sum.splits)

lemma decode_meta_result:
  assumes "decode_meta L now p = Done (ok, m, e)"
  shows "ok \<longleftrightarrow> routable L p" and "ok \<longleftrightarrow> e = []" and "ts_ns m = now"
  using assms
  by (auto simp: decode_meta_def Let_def routable_def set_error_def empty_meta_def
      fill_primary_meta_def service_fields_def split: sum.splits if_splits option.splits)

lemma decode_meta_ok_iff:
  "(\<exists>m e. decode_meta L now p = Done (True, m, e)) \<longleftrightarrow> 6 \<le> length p \<and> routable L p"
  by (auto simp: decode_meta_def Let_def routable_def split: sum.splits if_splits)

section \<open>The time code\<close>

lemma unat_exn_cuc:
  "unat (coarse (exn_cuc ns)) = unat ns div 1000000000"
  "unat (fine (exn_cuc ns)) = (unat ns mod 1000000000) * 65536 div 1000000000"
proof -
  show "unat (coarse (exn_cuc ns)) = unat ns div 1000000000"
    by (simp add: exn_cuc_def Let_def unat_div)
  have "(unat ns mod 1000000000) * 65536 < 2 ^ 64"
    using mod_less_divisor [of 1000000000 "unat ns"] by simp
  then show "unat (fine (exn_cuc ns)) = (unat ns mod 1000000000) * 65536 div 1000000000"
    by (simp add: exn_cuc_def Let_def unat_div unat_mod unat_word_ariths)
qed

section \<open>The library's contract for telecommands\<close>

text \<open>
  The documented behaviour of CCSDSPack that building and parsing a telecommand rest on:
  each setter changes its own field of a packet, and deserialising what a packet with a
  PUS-C TC header serialised to gives back its fields (with the length field filled in).
\<close>

definition setters_ok :: "'p ccsdspack \<Rightarrow> bool" where
  "setters_ok L \<longleftrightarrow>
     data_of L (new_packet L) = [] \<and>
     (\<forall>b p. primary_of L (set_update_enable L b p) = primary_of L p
        \<and> data_of L (set_update_enable L b p) = data_of L p) \<and>
     (\<forall>p. primary_of L (set_crc16 L p) = primary_of L p \<and> data_of L (set_crc16 L p) = data_of L p) \<and>
     (\<forall>v p q. set_version L v p = Inr q \<longrightarrow>
        primary_of L q = (primary_of L p)\<lparr>hdr_version := v\<rparr> \<and> data_of L q = data_of L p) \<and>
     (\<forall>a p q. set_apid L a p = Inr q \<longrightarrow>
        primary_of L q = (primary_of L p)\<lparr>hdr_apid := a\<rparr> \<and> data_of L q = data_of L p) \<and>
     (\<forall>p. primary_of L (set_unsegmented L p) = (primary_of L p)\<lparr>hdr_seq_flags := 3\<rparr>
        \<and> data_of L (set_unsegmented L p) = data_of L p) \<and>
     (\<forall>n p q. set_sequence L n p = Inr q \<longrightarrow>
        primary_of L q = (primary_of L p)\<lparr>hdr_seq_count := n\<rparr> \<and> data_of L q = data_of L p) \<and>
     (\<forall>s t i a p q. set_secondary L (TcHeader s t i a) p = Inr q \<longrightarrow>
        primary_of L q = (primary_of L p)\<lparr>hdr_type := 1, hdr_secondary := 1\<rparr>
        \<and> data_of L q = data_of L p
        \<and> secondary_tc L q = Some \<lparr>tc_service = s, tc_subtype = t, tc_source = i, tc_acks = a\<rparr>) \<and>
     (\<forall>d p q. set_data L d p = Inr q \<longrightarrow>
        primary_of L q = primary_of L p \<and> data_of L q = d \<and> secondary_tc L q = secondary_tc L p)"

definition wire_ok :: "'p ccsdspack \<Rightarrow> bool" where
  "wire_ok L \<longleftrightarrow>
     (\<forall>p h bs. serialize L p = Inr bs \<longrightarrow> secondary_tc L p = Some h \<longrightarrow>
        6 \<le> length bs \<and>
        (\<exists>q. deserialize_tc L bs (set_crc16 L (new_packet L)) = Inr q
           \<and> secondary_tc L q = Some h \<and> data_of L q = data_of L p
           \<and> (\<exists>n. primary_of L q = (primary_of L p)\<lparr>hdr_length := n\<rparr>)))"

lemma prepare_primary_view:
  assumes "setters_ok L" and "prepare_primary L ap sq p = Inr q"
  shows "primary_of L q = (primary_of L p)\<lparr>hdr_version := 0, hdr_apid := ap,
      hdr_seq_flags := 3, hdr_seq_count := sq\<rparr>" and "data_of L q = data_of L p"
  using assms
  by (auto simp: prepare_primary_def setters_ok_def Let_def split: sum.splits)

lemma finish_packet_wire:
  assumes "setters_ok L" and "wire_ok L" and "data_of L p = []" and "secondary_tc L p = Some h"
    and "finish_packet L d p = (True, bs, e)"
  shows "6 \<le> length bs \<and> (\<exists>q n. deserialize_tc L bs (set_crc16 L (new_packet L)) = Inr q
      \<and> secondary_tc L q = Some h \<and> data_of L q = d
      \<and> primary_of L q = (primary_of L p)\<lparr>hdr_length := n\<rparr>)"
proof -
  from assms(5) obtain r where r: "(if d \<noteq> [] then set_data L d p else Inr p) = Inr r"
    and s: "serialize L r = Inr bs"
    by (auto simp: finish_packet_def split: sum.splits if_splits)
  from r assms(1,3,4) have "secondary_tc L r = Some h" "data_of L r = d"
    "primary_of L r = primary_of L p"
    by (auto simp: setters_ok_def split: if_splits)
  with s assms(2) show ?thesis by (fastforce simp: wire_ok_def)
qed

text \<open>A telecommand that was built is parsed.\<close>

lemma parse_built_tc:
  assumes "setters_ok L" and "wire_ok L"
    and "build_pus_c_tc L ap sq sv sb src ack d = (True, bs, e)"
  shows "\<exists>n. parse_pus_c_tc L now bs info =
    (True, \<lparr>ts_ns = now, ver = 0, ptyp = 1, shf = 1, apid = ap, seqf = 3, seqc = sq, dlen = n,
       svc = sv, ssvc = sb\<rparr>, d, [],
     \<lparr>source_id = src, acknowledgement_flags = ack, request_id = take 4 bs\<rparr>)"
proof -
  from assms(3) obtain p q where p: "prepare_primary L ap sq (new_packet L) = Inr p"
    and q: "set_secondary L (TcHeader sv sb src ack) p = Inr q"
    and f: "finish_packet L d q = (True, bs, e)"
    by (auto simp: build_pus_c_tc_def split: sum.splits)
  from prepare_primary_view [OF assms(1) p] assms(1) q
  have h: "primary_of L q = (primary_of L (new_packet L))\<lparr>hdr_version := 0, hdr_apid := ap,
      hdr_seq_flags := 3, hdr_seq_count := sq, hdr_type := 1, hdr_secondary := 1\<rparr>"
    and t: "secondary_tc L q = Some \<lparr>tc_service = sv, tc_subtype = sb, tc_source = src, tc_acks = ack\<rparr>"
    and n: "data_of L q = []"
    by (simp_all add: setters_ok_def)
  from finish_packet_wire [OF assms(1,2) n t f] h show ?thesis
    by (auto simp: parse_pus_c_tc_def Let_def fill_primary_meta_def empty_meta_def)
qed

section \<open>An instance of the library\<close>

text \<open>
  A codec for the packet profile stated in \<open>ccsds.hpp\<close> and pinned byte by byte in
  \<open>tests/gs_test.cpp\<close>: version 0 primary header, five-octet PUS-C TC header (version 2 and
  acknowledgement flags, service, subservice, 16-bit source), CRC-16/CCITT-FALSE. It shows
  that the contract above can be met and is what the witnesses run on; no theorem about
  the program assumes it.
\<close>

record icd_packet =
  ip_header :: primary_header
  ip_tc :: "tc_view option"
  ip_data :: bytes

definition crc_shift :: "u16 \<Rightarrow> u16" where
  "crc_shift c = (if bit c 15 then push_bit 1 c XOR 0x1021 else push_bit 1 c)"

definition crc_byte :: "u16 \<Rightarrow> byte \<Rightarrow> u16" where
  "crc_byte c b = crc_shift (crc_shift (crc_shift (crc_shift (crc_shift (crc_shift
     (crc_shift (crc_shift (c XOR push_bit 8 (ucast b)))))))))"

definition crc16 :: "bytes \<Rightarrow> u16" where
  "crc16 bs = foldl crc_byte 0xFFFF bs"

definition icd_read_primary :: "bytes \<Rightarrow> string + primary_header" where
  "icd_read_primary b =
     (if length b \<noteq> 6 then Inl ''short header''
      else let w = read_u16 b; s = read_u16 (drop 2 b) in
        Inr \<lparr>hdr_version = ucast (drop_bit 13 w), hdr_type = ucast (drop_bit 12 w AND 1),
             hdr_secondary = ucast (drop_bit 11 w AND 1), hdr_apid = w AND 0x7FF,
             hdr_seq_flags = ucast (drop_bit 14 s), hdr_seq_count = s AND 0x3FFF,
             hdr_length = read_u16 (drop 4 b)\<rparr>)"

definition icd_write_primary :: "primary_header \<Rightarrow> bytes" where
  "icd_write_primary h =
     append_u16 [] (push_bit 13 (ucast (hdr_version h)) OR push_bit 12 (ucast (hdr_type h))
       OR push_bit 11 (ucast (hdr_secondary h)) OR hdr_apid h)
     @ append_u16 [] (push_bit 14 (ucast (hdr_seq_flags h)) OR hdr_seq_count h)
     @ append_u16 [] (hdr_length h)"

definition icd_read_tc :: "bytes \<Rightarrow> icd_packet \<Rightarrow> string + icd_packet" where
  "icd_read_tc bs p =
     (if length bs < 13 then Inl ''short packet''
      else if icd_declared_size bs \<noteq> Inr (length bs) then Inl ''size''
      else let n = length bs - 2; body = take n bs in
        if crc16 body \<noteq> read_u16 (drop n bs) then Inl ''crc''
        else if drop_bit 4 (bs ! 6) \<noteq> 2 then Inl ''PUS version''
        else map_sum id (\<lambda>h. \<lparr>ip_header = h,
               ip_tc = Some \<lparr>tc_service = bs ! 7, tc_subtype = bs ! 8,
                 tc_source = read_u16 (drop 9 bs), tc_acks = bs ! 6 AND 15\<rparr>,
               ip_data = drop 11 body\<rparr>) (icd_read_primary (take 6 bs)))"

text \<open>Serialising fills in the length and the CRC; fields that do not fit are an error,
  found by reading the octets back.\<close>

definition icd_serialize :: "icd_packet \<Rightarrow> string + bytes" where
  "icd_serialize p =
     (case ip_tc p of None \<Rightarrow> Inl ''no telecommand header''
      | Some t \<Rightarrow>
        let h = (ip_header p)\<lparr>hdr_length := of_nat (6 + length (ip_data p))\<rparr>;
            body = icd_write_primary h @ [0x20 OR tc_acks t, tc_service t, tc_subtype t]
              @ append_u16 [] (tc_source t) @ ip_data p;
            bs = append_u16 body (crc16 body)
        in if icd_read_tc bs p = Inr (p\<lparr>ip_header := h\<rparr>) then Inr bs else Inl ''field range'')"

definition icd_pack :: "icd_packet ccsdspack" where
  "icd_pack = \<lparr>
     declared_packet_size = icd_declared_size,
     new_packet = \<lparr>ip_header = \<lparr>hdr_version = 0, hdr_type = 0, hdr_secondary = 0, hdr_apid = 0,
       hdr_seq_flags = 0, hdr_seq_count = 0, hdr_length = 0\<rparr>, ip_tc = None, ip_data = []\<rparr>,
     set_update_enable = (\<lambda>_ p. p),
     set_crc16 = (\<lambda>p. p),
     set_version = (\<lambda>v p. if v < 8 then Inr (p\<lparr>ip_header := (ip_header p)\<lparr>hdr_version := v\<rparr>\<rparr>)
       else Inl ''version''),
     set_apid = (\<lambda>a p. if a < 0x800 then Inr (p\<lparr>ip_header := (ip_header p)\<lparr>hdr_apid := a\<rparr>\<rparr>)
       else Inl ''apid''),
     set_unsegmented = (\<lambda>p. p\<lparr>ip_header := (ip_header p)\<lparr>hdr_seq_flags := 3\<rparr>\<rparr>),
     set_sequence = (\<lambda>n p. if n < 0x4000
       then Inr (p\<lparr>ip_header := (ip_header p)\<lparr>hdr_seq_count := n\<rparr>\<rparr>) else Inl ''sequence count''),
     set_secondary = (\<lambda>h p. case h of
         TcHeader s t i a \<Rightarrow> Inr (p\<lparr>ip_header := (ip_header p)\<lparr>hdr_type := 1, hdr_secondary := 1\<rparr>,
           ip_tc := Some \<lparr>tc_service = s, tc_subtype = t, tc_source = i, tc_acks = a\<rparr>\<rparr>)
       | _ \<Rightarrow> Inl ''telemetry''),
     set_data = (\<lambda>d p. Inr (p\<lparr>ip_data := d\<rparr>)),
     serialize = icd_serialize,
     deserialize_tc = icd_read_tc,
     primary_of = ip_header,
     secondary_tc = ip_tc,
     data_of = ip_data,
     read_primary = icd_read_primary,
     tc_header_size = 5,
     read_tc_header = (\<lambda>h. if length h = 5 \<and> drop_bit 4 (h ! 0) = 2 then Some (h ! 1, h ! 2) else None),
     tm_header_size = (\<lambda>_. 13),
     read_tm_header = (\<lambda>_ h. if length h = 13 \<and> drop_bit 4 (h ! 0) = 2
       then Some (h ! 1, h ! 2) else None)\<rparr>"

lemma icd_setters_ok: "setters_ok icd_pack"
  by (auto simp: setters_ok_def icd_pack_def split: if_splits)

lemma icd_read_tc_ignores: "icd_read_tc bs p = icd_read_tc bs q"
  by (simp add: icd_read_tc_def)

lemma icd_read_tc_long: "icd_read_tc bs p = Inr q \<Longrightarrow> 13 \<le> length bs"
  by (auto simp: icd_read_tc_def split: if_splits)

lemma icd_wire_ok: "wire_ok icd_pack"
  unfolding wire_ok_def
proof (intro allI impI)
  fix p h bs
  assume "serialize icd_pack p = Inr bs" and "secondary_tc icd_pack p = Some h"
  then have tc: "ip_tc p = Some h" and
    r: "icd_read_tc bs p = Inr (p\<lparr>ip_header := (ip_header p)\<lparr>hdr_length := of_nat (6 + length (ip_data p))\<rparr>\<rparr>)"
    by (auto simp: icd_pack_def icd_serialize_def Let_def split: if_splits)
  have new: "deserialize_tc icd_pack bs (set_crc16 icd_pack (new_packet icd_pack)) = icd_read_tc bs p"
    by (simp add: icd_pack_def icd_read_tc_ignores)
  show "6 \<le> length bs \<and> (\<exists>q. deserialize_tc icd_pack bs (set_crc16 icd_pack (new_packet icd_pack)) = Inr q
      \<and> secondary_tc icd_pack q = Some h \<and> data_of icd_pack q = data_of icd_pack p
      \<and> (\<exists>n. primary_of icd_pack q = (primary_of icd_pack p)\<lparr>hdr_length := n\<rparr>))"
    unfolding new r using icd_read_tc_long [OF r] tc by (auto simp: icd_pack_def)
qed

lemma icd_sizes_sane: "sizes_sane icd_pack"
  by (auto simp: sizes_sane_def icd_pack_def icd_declared_size_def split: if_splits)

text \<open>The System HK telecommand of the regression test, octet for octet.\<close>

definition hk_request_octets :: bytes where
  "hk_request_octets = [25, 0, 192, 7, 0, 6, 40, 3, 128, 0, 16, 233, 73]"

lemma crc_hk_request: "crc16 [25, 0, 192, 7, 0, 6, 40, 3, 128, 0, 16] = 0xE949"
  by (simp add: crc16_def crc_byte_def crc_shift_def)

lemma icd_serialize_hk:
  "icd_serialize \<lparr>ip_header = \<lparr>hdr_version = 0, hdr_type = 1, hdr_secondary = 1, hdr_apid = 0x100,
       hdr_seq_flags = 3, hdr_seq_count = 7, hdr_length = 0\<rparr>,
     ip_tc = Some \<lparr>tc_service = 3, tc_subtype = 128, tc_source = 0x10, tc_acks = 8\<rparr>,
     ip_data = []\<rparr> = Inr hk_request_octets"
  by (simp add: icd_serialize_def Let_def icd_write_primary_def append_u16_def crc_hk_request
      icd_read_tc_def icd_declared_size_def read_u16_def icd_read_primary_def hk_request_octets_def)

lemma build_hk_request:
  "build_pus_c_tc icd_pack 0x100 7 3 128 0x10 8 [] = (True, hk_request_octets, [])"
  by (simp add: build_pus_c_tc_def prepare_primary_def Let_def icd_pack_def finish_packet_def
      icd_serialize_hk)

lemma routable_hk_request: "routable icd_pack hk_request_octets"
  by (simp add: routable_def icd_pack_def icd_declared_size_def icd_read_primary_def Let_def
      hk_request_octets_def read_u16_def)

text \<open>A library that writes the primary header, for telemetry as for telecommands.\<close>

definition plain_pack :: "icd_packet ccsdspack" where
  "plain_pack = icd_pack\<lparr>set_secondary := (\<lambda>h p. Inr p),
     serialize := (\<lambda>p. Inr (icd_write_primary (ip_header p) @ ip_data p))\<rparr>"

section \<open>Properties\<close>

text \<open>C25: A telecommand that was built parses: with a library that keeps its contract, the
  endpoint parser accepts the octets and recovers APID, sequence count, service, subservice,
  source, acknowledgement flags and application data, marks the packet as version 0, type
  TC, unsegmented, and takes the first four octets as the request ID.\<close>
theorem tc_build_parse_roundtrip:
  assumes "setters_ok L" and "wire_ok L"
    and "build_pus_c_tc L ap sq sv sb src ack d = (True, bs, e)"
  shows "\<exists>n. parse_pus_c_tc L now bs info =
    (True, \<lparr>ts_ns = now, ver = 0, ptyp = 1, shf = 1, apid = ap, seqf = 3, seqc = sq, dlen = n,
       svc = sv, ssvc = sb\<rparr>, d, [],
     \<lparr>source_id = src, acknowledgement_flags = ack, request_id = take 4 bs\<rparr>)"
  using assms by (rule parse_built_tc)

theorem tc_build_parse_roundtrip_witness:
  "\<exists>n. parse_pus_c_tc icd_pack 5 hk_request_octets undefined =
    (True, \<lparr>ts_ns = 5, ver = 0, ptyp = 1, shf = 1, apid = 0x100, seqf = 3, seqc = 7, dlen = n,
       svc = 3, ssvc = 128\<rparr>, [], [],
     \<lparr>source_id = 0x10, acknowledgement_flags = 8, request_id = take 4 hk_request_octets\<rparr>)"
  by (rule tc_build_parse_roundtrip [OF icd_setters_ok icd_wire_ok build_hk_request])

text \<open>C26: Routing is service-agnostic: \<open>decode_meta\<close> accepts exactly the structurally valid
  packets, leaves the error text empty exactly then, and neither its verdict, its error
  nor any field but service and subservice depends on how the library reads PUS headers.\<close>
theorem decode_meta_service_agnostic:
  assumes "decode_meta L now p = Done (ok, m, e)"
  shows "(ok \<longleftrightarrow> routable L p) \<and> (ok \<longleftrightarrow> e = []) \<and> ts_ns m = now \<and>
    (\<exists>m'. decode_meta (L\<lparr>read_tc_header := f, read_tm_header := g\<rparr>) now p = Done (ok, m', e)
       \<and> m'\<lparr>svc := svc m, ssvc := ssvc m\<rparr> = m)"
proof -
  have "\<exists>m'. decode_meta (L\<lparr>read_tc_header := f, read_tm_header := g\<rparr>) now p = Done (ok, m', e)
       \<and> m'\<lparr>svc := svc m, ssvc := ssvc m\<rparr> = m"
    using assms
    by (auto simp: decode_meta_def Let_def service_fields_def split: sum.splits if_splits option.splits)
  with decode_meta_result [OF assms] show ?thesis by blast
qed

theorem decode_meta_service_agnostic_witness:
  "\<exists>m. decode_meta icd_pack 9 hk_request_octets = Done (True, m, []) \<and>
    (True \<longleftrightarrow> routable icd_pack hk_request_octets) \<and>
    (\<exists>m'. decode_meta (icd_pack\<lparr>read_tc_header := (\<lambda>_. None), read_tm_header := (\<lambda>_ _. None)\<rparr>) 9
       hk_request_octets = Done (True, m', []) \<and> m'\<lparr>svc := svc m, ssvc := ssvc m\<rparr> = m)"
proof -
  have "\<exists>m e. decode_meta icd_pack 9 hk_request_octets = Done (True, m, e)"
    using routable_hk_request by (simp add: decode_meta_ok_iff hk_request_octets_def)
  then obtain m e where d: "decode_meta icd_pack 9 hk_request_octets = Done (True, m, e)" by blast
  with decode_meta_service_agnostic [OF d, where f = "\<lambda>_. None" and g = "\<lambda>_ _. None"] show ?thesis by auto
qed

text \<open>The six-octet telemetry time is the clock truncated: seconds exactly, and the
  fraction rounded down to a multiple of \<open>1/65536\<close> second, never out of its two octets.\<close>
lemma cuc_truncates_clock:
  "unat (coarse (exn_cuc ns)) = unat ns div 1000000000 \<and>
   unat (fine (exn_cuc ns)) < 65536 \<and>
   unat (fine (exn_cuc ns)) * 1000000000 \<le> (unat ns mod 1000000000) * 65536 \<and>
   (unat ns mod 1000000000) * 65536 < (unat (fine (exn_cuc ns)) + 1) * 1000000000"
proof -
  define r where "r = unat ns mod 1000000000"
  have "r < 1000000000" by (simp add: r_def)
  moreover have "r * 65536 div 1000000000 * 1000000000 \<le> r * 65536" by simp
  moreover have "r * 65536 < (r * 65536 div 1000000000 + 1) * 1000000000"
    by (simp add: dividend_less_div_times)
  ultimately show ?thesis
    unfolding unat_exn_cuc r_def [symmetric]
    by (auto simp: div_less_iff_less_mult)
qed

text \<open>Building reports faithfully: a telecommand or telemetry build succeeds exactly when
  its error text is empty, and hands out no octets otherwise.\<close>
lemma build_reports_errors:
  "(case build_pus_c_tc L ap sq sv sb src ack d of (ok, bs, e) \<Rightarrow> (ok \<longleftrightarrow> e = []) \<and> (ok \<or> bs = [])) \<and>
   (case build_pus_c_tm L now ap sq sv sb counter dest status d of
      (ok, bs, e) \<Rightarrow> (ok \<longleftrightarrow> e = []) \<and> (ok \<or> bs = []))"
  by (auto simp: build_pus_c_tc_def build_pus_c_tm_def prepare_primary_def finish_packet_def
      Let_def set_error_def split: sum.splits)

end
