(* ===== verification/Cpp_Numbers.thy ===== *)
theory Cpp_Numbers
  imports GS_Prelude
begin

text \<open>
  The standard library's number and string functions that the option and URI parsers use:
  \<open>std::stoi\<close>, \<open>std::string::find\<close>, \<open>rfind(s, 0)\<close> as a prefix test and \<open>substr\<close>. An
  exception of \<open>stoi\<close> is an error value.
\<close>

datatype number_error = Invalid_argument | Out_of_range

definition is_space :: "char \<Rightarrow> bool" where
  "is_space c \<longleftrightarrow> (let n = (of_char c :: nat) in n = 32 \<or> 9 \<le> n \<and> n \<le> 13)"

definition is_decimal :: "char \<Rightarrow> bool" where
  "is_decimal c \<longleftrightarrow> (let n = (of_char c :: nat) in 48 \<le> n \<and> n \<le> 57)"

text \<open>\<open>std::stoi(s)\<close>: leading white space, an optional sign, the longest run of digits;
  what follows is ignored; the value must fit a 32-bit \<open>int\<close>.\<close>

definition stoi :: "string \<Rightarrow> number_error + int" where
  "stoi s =
     (let t = dropWhile is_space s;
          neg = (t \<noteq> [] \<and> hd t = CHR ''-'');
          u = (if t \<noteq> [] \<and> (hd t = CHR ''-'' \<or> hd t = CHR ''+'') then tl t else t);
          ds = takeWhile is_decimal u;
          v = (if neg then - int (dec_value ds) else int (dec_value ds))
      in if ds = [] then Inl Invalid_argument
         else if v < - 2147483648 \<or> 2147483647 < v then Inl Out_of_range
         else Inr v)"

text \<open>\<open>static_cast<uint16_t>(int)\<close> is reduction modulo \<open>2 ^ 16\<close>.\<close>

definition to_u16 :: "int \<Rightarrow> u16" where
  "to_u16 v = word_of_int v"

text \<open>\<open>s.find(c)\<close>: the text before the first \<open>c\<close> and the text after it, if there is one.\<close>

definition split_at :: "char \<Rightarrow> string \<Rightarrow> (string \<times> string) option" where
  "split_at c s = (if c \<in> set s
     then Some (takeWhile (\<lambda>x. x \<noteq> c) s, tl (dropWhile (\<lambda>x. x \<noteq> c) s)) else None)"

definition starts_with :: "string \<Rightarrow> string \<Rightarrow> bool" where
  "starts_with s pfx \<longleftrightarrow> take (length pfx) s = pfx"

lemma cut_before:
  "c \<notin> set a \<Longrightarrow> takeWhile (\<lambda>x. x \<noteq> c) (a @ c # b) = a \<and> dropWhile (\<lambda>x. x \<noteq> c) (a @ c # b) = c # b"
  by (induction a) auto

lemma split_at_eq:
  "split_at c s = Some (a, b) \<longleftrightarrow> s = a @ c # b \<and> c \<notin> set a"
proof
  assume "split_at c s = Some (a, b)"
  then have c: "c \<in> set s" and a: "a = takeWhile (\<lambda>x. x \<noteq> c) s"
    and b: "b = tl (dropWhile (\<lambda>x. x \<noteq> c) s)"
    by (auto simp: split_at_def split: if_splits)
  then have "dropWhile (\<lambda>x. x \<noteq> c) s \<noteq> []" by (simp add: dropWhile_eq_Nil_conv)
  then have "dropWhile (\<lambda>x. x \<noteq> c) s = c # b"
    using b hd_dropWhile [of "\<lambda>x. x \<noteq> c" s] by (cases "dropWhile (\<lambda>x. x \<noteq> c) s") auto
  then show "s = a @ c # b \<and> c \<notin> set a"
    using a takeWhile_dropWhile_id [of "\<lambda>x. x \<noteq> c" s] by (auto dest: set_takeWhileD)
next
  assume s: "s = a @ c # b \<and> c \<notin> set a"
  with cut_before [of c a b] have "takeWhile (\<lambda>x. x \<noteq> c) s = a"
    and "dropWhile (\<lambda>x. x \<noteq> c) s = c # b"
    by simp_all
  with s show "split_at c s = Some (a, b)"
    by (simp add: split_at_def)
qed

lemma dec_decimal: "c \<in> set (dec n) \<Longrightarrow> is_decimal c"
proof (induction n rule: dec.induct)
  case (1 n)
  have "d < 10 \<Longrightarrow> is_decimal (digit d)" for d
    by (simp add: is_decimal_def Let_def of_char_digit)
  with 1 show ?case
    by (cases "n < 10") (auto simp: dec.simps [of n])
qed

lemma dec_Cons: "\<exists>c cs. dec n = c # cs \<and> is_decimal c"
proof -
  have "dec n \<noteq> []" by (simp add: dec.simps [of n])
  then obtain c cs where "dec n = c # cs" by (cases "dec n") auto
  with dec_decimal [of c n] show ?thesis by auto
qed

text \<open>A printed number reads back, whatever follows its digits.\<close>

lemma stoi_dec:
  assumes "n \<le> 2147483647" and "r = [] \<or> \<not> is_decimal (hd r)"
  shows "stoi (dec n @ r) = Inr (int n)"
proof -
  obtain c cs where c: "dec n = c # cs" "is_decimal c" using dec_Cons by blast
  have ne: "\<not> is_space c" "c \<noteq> CHR ''-''" "c \<noteq> CHR ''+''"
    using c(2) by (auto simp: is_decimal_def is_space_def Let_def)
  have t: "takeWhile is_decimal (dec n @ r) = dec n"
    using assms(2) dec_decimal by (cases r) (auto simp: takeWhile_append2)
  have v: "dec_value (c # cs) = n" using c(1) dec_value_dec [of n] by simp
  show ?thesis
    using assms(1) t ne v by (simp add: stoi_def c(1) Let_def)
qed

end
