(* ===== verification/Write_Queue.thy ===== *)
theory Write_Queue
  imports GS_Prelude
begin

text \<open>
  The write discipline shared by three objects: the device link, the daemon's IPC session
  and the UI's IPC client. A posted handler appends a buffer to \<open>tx_queue_\<close> and starts an
  \<open>async_write\<close> when the queue was empty; the completion handler pops the front and starts
  the next. The interface states what one handler does; what it guarantees over every
  interleaving of posts and completions is proved here once.
\<close>

datatype 'b write_event = Enqueue 'b | Completed

text \<open>A run of handlers: the final state and the buffers handed to \<open>async_write\<close>.\<close>

fun run_writer :: "('b \<Rightarrow> 's \<Rightarrow> 's \<times> 'b list) \<Rightarrow> ('s \<Rightarrow> ('s \<times> 'b list) cpp)
    \<Rightarrow> 'b write_event list \<Rightarrow> 's \<Rightarrow> ('s \<times> 'b list) cpp" where
  "run_writer enq fin [] s = Done (s, [])"
| "run_writer enq fin (Enqueue b # es) s =
     (let (t, w) = enq b s in map_cpp (\<lambda>(u, ws). (u, w @ ws)) (run_writer enq fin es t))"
| "run_writer enq fin (Completed # es) s =
     bind_cpp (fin s) (\<lambda>(t, w). map_cpp (\<lambda>(u, ws). (u, w @ ws)) (run_writer enq fin es t))"

fun enqueued :: "'b write_event list \<Rightarrow> 'b list" where
  "enqueued [] = []"
| "enqueued (Enqueue b # es) = b # enqueued es"
| "enqueued (Completed # es) = enqueued es"

fun completions :: "'b write_event list \<Rightarrow> nat" where
  "completions [] = 0"
| "completions (Enqueue b # es) = completions es"
| "completions (Completed # es) = Suc (completions es)"

text \<open>A completion is delivered only for a write in progress.\<close>

fun feasible :: "nat \<Rightarrow> 'b write_event list \<Rightarrow> bool" where
  "feasible k [] \<longleftrightarrow> True"
| "feasible k (Enqueue b # es) \<longleftrightarrow> feasible (Suc k) es"
| "feasible k (Completed # es) \<longleftrightarrow> 0 < k \<and> feasible (k - 1) es"

locale async_writer =
  fixes queue :: "'s \<Rightarrow> 'b list"
    and ready :: "'s \<Rightarrow> bool"
    and enq :: "'b \<Rightarrow> 's \<Rightarrow> 's \<times> 'b list"
    and fin :: "'s \<Rightarrow> ('s \<times> 'b list) cpp"
  assumes enq_ready: "ready s \<Longrightarrow> enq b s = (t, w) \<Longrightarrow>
      ready t \<and> queue t = queue s @ [b] \<and> w = (if queue s = [] then [b] else [])"
    and enq_closed: "\<not> ready s \<Longrightarrow> enq b s = (t, w) \<Longrightarrow> \<not> ready t \<and> queue t = queue s \<and> w = []"
    and fin_ready: "ready s \<Longrightarrow> queue s = b # q \<Longrightarrow>
      \<exists>t. fin s = Done (t, take 1 q) \<and> ready t \<and> queue t = q"
begin

text \<open>
  With \<open>n\<close> completions delivered, exactly the first \<open>n + 1\<close> buffers have been started, in
  the order they were posted, and the queue holds what was not completed: at most one write
  is in progress, nothing is lost, duplicated or reordered.
\<close>

lemma run_writer_queue:
  "ready s \<Longrightarrow> feasible (length (queue s)) es \<Longrightarrow>
   \<exists>t ws. run_writer enq fin es s = Done (t, ws) \<and> ready t
     \<and> queue t = drop (completions es) (queue s @ enqueued es)
     \<and> take 1 (queue s) @ ws = take (Suc (completions es)) (queue s @ enqueued es)"
proof (induction es arbitrary: s)
  case Nil
  then show ?case by simp
next
  case (Cons e es)
  show ?case
  proof (cases e)
    case (Enqueue b)
    obtain t w where t: "enq b s = (t, w)" by fastforce
    with Cons.prems(1) have "ready t" and q: "queue t = queue s @ [b]"
      and w: "w = (if queue s = [] then [b] else [])"
      using enq_ready by blast+
    with Cons.IH [of t] Cons.prems(2) Enqueue obtain u ws where
      "run_writer enq fin es t = Done (u, ws)" "ready u"
      "queue u = drop (completions es) (queue t @ enqueued es)"
      "take 1 (queue t) @ ws = take (Suc (completions es)) (queue t @ enqueued es)"
      by auto
    with Enqueue t q w show ?thesis by (cases "queue s") auto
  next
    case Completed
    with Cons.prems(2) obtain b q where q: "queue s = b # q" by (cases "queue s") auto
    with Cons.prems(1) obtain t where t: "fin s = Done (t, take 1 q)" "ready t" "queue t = q"
      using fin_ready by blast
    with Cons.IH [of t] Cons.prems(2) Completed q obtain u ws where
      "run_writer enq fin es t = Done (u, ws)" "ready u"
      "queue u = drop (completions es) (q @ enqueued es)"
      "take 1 q @ ws = take (Suc (completions es)) (q @ enqueued es)"
      by auto
    with Completed t q show ?thesis by simp
  qed
qed

lemma run_writer_fifo:
  assumes "ready s" and "queue s = []" and "feasible 0 es"
  shows "\<exists>t. run_writer enq fin es s = Done (t, take (Suc (completions es)) (enqueued es))
    \<and> queue t = drop (completions es) (enqueued es)"
  using run_writer_queue [of s es] assms by auto

text \<open>A closed writer starts nothing.\<close>

lemma run_writer_closed:
  assumes "\<not> ready s" and "\<forall>e \<in> set es. e \<noteq> Completed"
  shows "\<exists>t. run_writer enq fin es s = Done (t, []) \<and> \<not> ready t \<and> queue t = queue s"
  using assms
proof (induction es arbitrary: s)
  case Nil
  then show ?case by simp
next
  case (Cons e es)
  then obtain b where b: "e = Enqueue b" by (cases e) auto
  obtain t w where t: "enq b s = (t, w)" by fastforce
  with enq_closed Cons.prems(1) have n: "\<not> ready t" "queue t = queue s" "w = []" by blast+
  with Cons.IH [of t] Cons.prems(2) b t show ?case by auto
qed

end

end
