(* ===== verification/Serial_Link.thy ===== *)
theory Serial_Link
  imports GS_Prelude Cpp_Numbers Write_Queue
begin

text \<open>
  The device link: \<open>daemon/src/serial_link.cpp\<close> and
  \<open>daemon/include/exn/daemon/serial_link.hpp\<close>. Boost.Asio and the operating system are the
  environment: an asynchronous operation is recorded in \<open>pending\<close> when it is started and
  its handler runs when the environment completes it with some result; a handler given to
  \<open>post\<close> waits in \<open>posted\<close>, in order. Handlers run one at a time (one thread runs the
  \<open>io_context\<close>). Callbacks are the outputs of a handler, in order; \<open>App::run\<close> sets all
  three before the link is used. Cancelling and closing descriptors has no state of its
  own here: an operation in progress still completes, with any result.
\<close>

section \<open>State\<close>

datatype link_op =
    ResolveOp (op_gen: u64)
  | ConnectOp (op_gen: u64)
  | ReadOp (op_gen: u64)
  | WriteOp (op_gen: u64) bytes

datatype link_out = OnState bool string | OnError string | OnBytes bytes

record serial_link =
  is_tcp :: bool
  tcp_host :: string
  tcp_port :: u16
  port_name :: string
  baud :: u32
  opened :: bool
  connecting :: bool
  generation :: u64
  detail :: string
  tx_queue :: "bytes list"
  posted :: "bytes list"
  pending :: "link_op list"

text \<open>\<open>parse_tcp_uri\<close>: \<open>Inl\<close> is the exception of \<open>stoi\<close>, \<open>Inr None\<close> is \<open>return false\<close>.\<close>

definition parse_tcp_uri :: "string \<Rightarrow> number_error + (string \<times> u16) option" where
  "parse_tcp_uri s =
     (let pfx = ''tcp://'' in
      if \<not> starts_with s pfx then Inr None
      else case split_at CHR '':'' (drop (length pfx) s) of
        None \<Rightarrow> Inr None
      | Some (host, p) \<Rightarrow>
          (case stoi p of Inl e \<Rightarrow> Inl e | Inr v \<Rightarrow> Inr (Some (host, to_u16 v))))"

definition new_link :: "string \<Rightarrow> u32 \<Rightarrow> number_error + serial_link" where
  "new_link p b =
     (case parse_tcp_uri p of
        Inl e \<Rightarrow> Inl e
      | Inr r \<Rightarrow> Inr \<lparr>is_tcp = (r \<noteq> None),
          tcp_host = (case r of None \<Rightarrow> [] | Some (h, _) \<Rightarrow> h),
          tcp_port = (case r of None \<Rightarrow> 0 | Some (_, n) \<Rightarrow> n),
          port_name = p, baud = b, opened = False, connecting = False, generation = 0,
          detail = [], tx_queue = [], posted = [], pending = []\<rparr>)"

section \<open>Operations\<close>

text \<open>What opening a serial port and setting its baud rate give.\<close>

datatype serial_result = SerialOpened | OpenFailed string | BaudFailed string

definition start_op :: "link_op \<Rightarrow> serial_link \<Rightarrow> serial_link" where
  "start_op p l = l\<lparr>pending := pending l @ [p]\<rparr>"

text \<open>\<open>do_read_tcp\<close> and \<open>do_read_serial\<close>.\<close>

definition do_read :: "u64 \<Rightarrow> serial_link \<Rightarrow> serial_link" where
  "do_read g l = (if g \<noteq> generation l \<or> \<not> opened l then l else start_op (ReadOp g) l)"

definition do_write :: "u64 \<Rightarrow> serial_link \<Rightarrow> serial_link cpp" where
  "do_write g l =
     (if g \<noteq> generation l \<or> \<not> opened l \<or> tx_queue l = [] then Done l
      else map_cpp (\<lambda>b. start_op (WriteOp g b) l) (front (tx_queue l)))"

definition handle_io_error ::
    "string \<Rightarrow> string \<Rightarrow> u64 \<Rightarrow> serial_link \<Rightarrow> serial_link \<times> link_out list" where
  "handle_io_error context message g l =
     (if g \<noteq> generation l then (l, [])
      else (l\<lparr>opened := False, connecting := False, tx_queue := []\<rparr>,
            [OnError (context @ '': '' @ message)]))"

definition link_start :: "serial_result \<Rightarrow> serial_link \<Rightarrow> serial_link \<times> link_out list" where
  "link_start r l =
     (if opened l \<or> connecting l then (l, [])
      else let g = generation l + 1; l = l\<lparr>generation := g, connecting := True\<rparr> in
        if is_tcp l then
          (start_op (ResolveOp g)
             (l\<lparr>detail := ''tcp://'' @ tcp_host l @ '':'' @ dec (unat (tcp_port l))\<rparr>), [])
        else if port_name l = [] then
          (l\<lparr>connecting := False\<rparr>,
           [OnError ''no port configured (use --port /dev/ttyACM0 or --port tcp://HOST:PORT)''])
        else case r of
          OpenFailed e \<Rightarrow> (l\<lparr>connecting := False\<rparr>, [OnError (''serial open failed: '' @ e)])
        | BaudFailed e \<Rightarrow> (l\<lparr>connecting := False\<rparr>, [OnError (''serial baud set failed: '' @ e)])
        | SerialOpened \<Rightarrow>
            let l = l\<lparr>connecting := False, opened := True, detail := port_name l\<rparr>
            in (do_read g l, [OnState True (detail l)]))"

definition link_stop :: "serial_link \<Rightarrow> serial_link \<times> link_out list" where
  "link_stop l =
     (l\<lparr>generation := generation l + 1, opened := False, connecting := False, tx_queue := []\<rparr>,
      [OnState False (detail l)])"

text \<open>\<open>write_bytes\<close> posts a handler; the handler itself is \<open>write_handler\<close>.\<close>

definition write_bytes :: "bytes \<Rightarrow> serial_link \<Rightarrow> serial_link" where
  "write_bytes data l = (if data = [] then l else l\<lparr>posted := posted l @ [data]\<rparr>)"

definition write_handler :: "bytes \<Rightarrow> serial_link \<Rightarrow> serial_link cpp" where
  "write_handler b l =
     (if \<not> opened l then Done l
      else let idle = (tx_queue l = []); l = l\<lparr>tx_queue := tx_queue l @ [b]\<rparr>
        in if idle then do_write (generation l) l else Done l)"

text \<open>The result of an operation: \<open>Inl\<close> the error message, \<open>Inr\<close> the bytes a read delivered.\<close>

type_synonym io_result = "string + bytes"

definition on_resolve :: "u64 \<Rightarrow> io_result \<Rightarrow> serial_link \<Rightarrow> serial_link \<times> link_out list" where
  "on_resolve g r l =
     (if g \<noteq> generation l then (l, [])
      else case r of
        Inl e \<Rightarrow> handle_io_error ''tcp resolve failed'' e g l
      | Inr _ \<Rightarrow> (start_op (ConnectOp g) l, []))"

definition on_connect :: "u64 \<Rightarrow> io_result \<Rightarrow> serial_link \<Rightarrow> serial_link \<times> link_out list" where
  "on_connect g r l =
     (if g \<noteq> generation l then (l, [])
      else case r of
        Inl e \<Rightarrow> handle_io_error ''tcp connect failed'' e g l
      | Inr _ \<Rightarrow> let l = l\<lparr>connecting := False, opened := True\<rparr>
          in (do_read g l, [OnState True (detail l)]))"

definition on_read :: "u64 \<Rightarrow> io_result \<Rightarrow> serial_link \<Rightarrow> serial_link \<times> link_out list" where
  "on_read g r l =
     (if g \<noteq> generation l then (l, [])
      else case r of
        Inl e \<Rightarrow> handle_io_error (if is_tcp l then ''tcp read failed'' else ''serial read failed'') e g l
      | Inr bs \<Rightarrow> (do_read g l, if bs = [] then [] else [OnBytes bs]))"

text \<open>\<open>pop_front\<close> is called only on a queue that is not empty; it is undefined otherwise.\<close>

definition on_write :: "u64 \<Rightarrow> io_result \<Rightarrow> serial_link \<Rightarrow> (serial_link \<times> link_out list) cpp" where
  "on_write g r l =
     (if g \<noteq> generation l then Done (l, [])
      else case r of
        Inl e \<Rightarrow> Done (handle_io_error ''device write failed'' e g l)
      | Inr _ \<Rightarrow>
          bind_cpp (if tx_queue l \<noteq> [] then map_cpp (\<lambda>q. l\<lparr>tx_queue := q\<rparr>) (pop_front (tx_queue l)) else Done l)
            (\<lambda>l. map_cpp (\<lambda>l. (l, [])) (do_write g l)))"

fun on_complete :: "link_op \<Rightarrow> io_result \<Rightarrow> serial_link \<Rightarrow> (serial_link \<times> link_out list) cpp" where
  "on_complete (ResolveOp g) r l = Done (on_resolve g r l)"
| "on_complete (ConnectOp g) r l = Done (on_connect g r l)"
| "on_complete (ReadOp g) r l = Done (on_read g r l)"
| "on_complete (WriteOp g b) r l = on_write g r l"

section \<open>Steps\<close>

datatype link_event =
    Start serial_result
  | Stop
  | Write bytes
  | RunPosted
  | Complete link_op io_result

text \<open>One call or handler; \<open>None\<close> when there is no such handler to run.\<close>

fun link_step :: "link_event \<Rightarrow> serial_link \<Rightarrow> (serial_link \<times> link_out list) cpp option" where
  "link_step (Start r) l = Some (Done (link_start r l))"
| "link_step Stop l = Some (Done (link_stop l))"
| "link_step (Write b) l = Some (Done (write_bytes b l, []))"
| "link_step RunPosted l =
     (case posted l of [] \<Rightarrow> None
      | b # ps \<Rightarrow> Some (map_cpp (\<lambda>l. (l, [])) (write_handler b (l\<lparr>posted := ps\<rparr>))))"
| "link_step (Complete p r) l =
     (if p \<in> set (pending l) then Some (on_complete p r (l\<lparr>pending := remove1 p (pending l)\<rparr>))
      else None)"

text \<open>States after \<open>n\<close> steps from construction.\<close>

inductive link_reach :: "nat \<Rightarrow> serial_link \<Rightarrow> bool" where
  reach_new: "new_link p b = Inr l \<Longrightarrow> link_reach 0 l"
| reach_step: "link_reach n l \<Longrightarrow> link_step e l = Some (Done (m, outs)) \<Longrightarrow> link_reach (Suc n) m"

section \<open>No handler is undefined\<close>

text \<open>The guards of the handlers in front of \<open>front\<close> and \<open>pop_front\<close> see to it; what the handlers then do.\<close>

definition next_write :: "u64 \<Rightarrow> serial_link \<Rightarrow> serial_link" where
  "next_write g l =
     (if g \<noteq> generation l \<or> \<not> opened l \<or> tx_queue l = [] then l
      else start_op (WriteOp g (hd (tx_queue l))) l)"

lemma do_write_Done [simp]: "do_write g l = Done (next_write g l)"
  by (simp add: do_write_def next_write_def)

definition after_post :: "bytes \<Rightarrow> serial_link \<Rightarrow> serial_link" where
  "after_post b l =
     (if \<not> opened l then l
      else let idle = (tx_queue l = []); l = l\<lparr>tx_queue := tx_queue l @ [b]\<rparr>
        in if idle then next_write (generation l) l else l)"

lemma write_handler_Done [simp]: "write_handler b l = Done (after_post b l)"
  by (simp add: write_handler_def after_post_def Let_def)

definition written :: "u64 \<Rightarrow> io_result \<Rightarrow> serial_link \<Rightarrow> serial_link \<times> link_out list" where
  "written g r l =
     (if g \<noteq> generation l then (l, [])
      else case r of
        Inl e \<Rightarrow> handle_io_error ''device write failed'' e g l
      | Inr _ \<Rightarrow>
          (let l = (if tx_queue l \<noteq> [] then l\<lparr>tx_queue := tl (tx_queue l)\<rparr> else l)
           in (next_write g l, [])))"

lemma on_write_Done [simp]: "on_write g r l = Done (written g r l)"
  by (simp add: on_write_def written_def Let_def split: sum.split)

fun completed :: "link_op \<Rightarrow> io_result \<Rightarrow> serial_link \<Rightarrow> serial_link \<times> link_out list" where
  "completed (ResolveOp g) r l = on_resolve g r l"
| "completed (ConnectOp g) r l = on_connect g r l"
| "completed (ReadOp g) r l = on_read g r l"
| "completed (WriteOp g b) r l = written g r l"

lemma on_complete_Done [simp]: "on_complete p r l = Done (completed p r l)"
  by (cases p) simp_all

declare on_complete.simps [simp del]

lemma link_step_total: "link_step e l = Some r \<Longrightarrow> \<exists>m outs. r = Done (m, outs)"
  by (cases e) (auto split: list.splits if_splits)

lemmas link_ops [unfold_ops] = link_start_def link_stop_def write_bytes_def after_post_def
  on_resolve_def on_connect_def on_read_def written_def handle_io_error_def do_read_def
  next_write_def start_op_def Let_def

section \<open>Stale handlers\<close>

lemma completed_stale: "op_gen p \<noteq> generation l \<Longrightarrow> completed p r l = (l, [])"
  by (cases p) (simp_all add: on_resolve_def on_connect_def on_read_def written_def)

section \<open>Invariant\<close>

fun is_setup :: "link_op \<Rightarrow> bool" where
  "is_setup (ResolveOp g) = True"
| "is_setup (ConnectOp g) = True"
| "is_setup _ = False"

fun is_read :: "link_op \<Rightarrow> bool" where
  "is_read (ReadOp g) = True"
| "is_read _ = False"

fun is_write :: "link_op \<Rightarrow> bool" where
  "is_write (WriteOp g b) = True"
| "is_write _ = False"

lemma op_kinds:
  "is_setup p \<or> is_read p \<or> is_write p"
  "is_setup p \<Longrightarrow> \<not> is_read p" "is_setup p \<Longrightarrow> \<not> is_write p" "is_read p \<Longrightarrow> \<not> is_write p"
  by (cases p; simp)+

text \<open>The operations in progress that belong to the current connection.\<close>

definition current :: "serial_link \<Rightarrow> link_op list" where
  "current l = filter (\<lambda>p. op_gen p = generation l) (pending l)"

definition outstanding :: "serial_link \<Rightarrow> link_op list" where
  "outstanding l = (if tx_queue l = [] then [] else [WriteOp (generation l) (hd (tx_queue l))])"

definition link_inv :: "serial_link \<Rightarrow> bool" where
  "link_inv l \<longleftrightarrow>
     (\<forall>p \<in> set (pending l). unat (op_gen p) \<le> unat (generation l)) \<and>
     \<not> (opened l \<and> connecting l) \<and>
     (opened l \<or> tx_queue l = []) \<and>
     (if opened l then filter is_setup (current l) = []
          \<and> filter is_read (current l) = [ReadOp (generation l)]
          \<and> filter is_write (current l) = outstanding l
      else if connecting l then filter is_setup (current l) = current l \<and> length (current l) = 1
      else filter is_setup (current l) = [])"

lemma link_inv_new: "new_link p b = Inr l \<Longrightarrow> link_inv l"
  by (auto simp: new_link_def link_inv_def current_def split: sum.splits)

text \<open>Opening a new generation: no operation in progress belongs to it.\<close>

lemma unat_Suc_gen: "unat (g :: u64) + 1 < 18446744073709551616 \<Longrightarrow> unat (g + 1) = unat g + 1"
  by (simp add: unat_word_ariths)

lemma no_op_of_next_generation:
  assumes "\<forall>p \<in> set ps. unat (op_gen p) \<le> unat g" and "unat (g :: u64) + 1 < 18446744073709551616"
  shows "filter (\<lambda>p. op_gen p = g + 1) ps = []"
    and "filter (\<lambda>p. op_gen p = g + 1 \<and> P p) ps = []"
  using assms unat_Suc_gen [OF assms(2)] by (fastforce simp: filter_empty_conv)+

lemma link_inv_start:
  assumes "link_inv l" and "unat (generation l) + 1 < 18446744073709551616"
  shows "link_inv (fst (link_start r l))"
proof (cases "opened l \<or> connecting l")
  case True
  with assms show ?thesis by (simp add: link_start_def)
next
  case False
  have old: "\<forall>p \<in> set (pending l). unat (op_gen p) \<le> unat (generation l)"
    and q: "tx_queue l = []"
    using assms(1) False by (auto simp: link_inv_def)
  then have le: "\<forall>p \<in> set (pending l). unat (op_gen p) \<le> unat (generation l + 1)"
    using unat_Suc_gen [OF assms(2)] by fastforce
  note none = no_op_of_next_generation [OF old assms(2)]
  show ?thesis
    using False le none q
    by (cases r) (auto simp: link_start_def link_inv_def Let_def current_def start_op_def
        do_read_def outstanding_def)
qed

lemma link_inv_stop:
  assumes "link_inv l" and "unat (generation l) + 1 < 18446744073709551616"
  shows "link_inv (fst (link_stop l))"
proof -
  have old: "\<forall>p \<in> set (pending l). unat (op_gen p) \<le> unat (generation l)"
    using assms(1) by (auto simp: link_inv_def)
  then have le: "\<forall>p \<in> set (pending l). unat (op_gen p) \<le> unat (generation l + 1)"
    using unat_Suc_gen [OF assms(2)] by fastforce
  with no_op_of_next_generation [OF old assms(2)] show ?thesis
    by (auto simp: link_stop_def link_inv_def current_def)
qed

lemma link_inv_posted [simp]: "link_inv (l\<lparr>posted := ps\<rparr>) = link_inv l"
  by (simp add: link_inv_def current_def outstanding_def)

lemma link_inv_write_bytes: "link_inv l \<Longrightarrow> link_inv (write_bytes b l)"
  by (simp add: write_bytes_def)

lemma link_inv_write_handler: "link_inv l \<Longrightarrow> link_inv (after_post b l)"
  by (auto simp: after_post_def link_inv_def current_def outstanding_def next_write_def
      start_op_def Let_def)

text \<open>Taking a completed operation out of \<open>pending\<close>.\<close>

definition take_op :: "link_op \<Rightarrow> serial_link \<Rightarrow> serial_link" where
  "take_op p l = l\<lparr>pending := remove1 p (pending l)\<rparr>"

lemma current_take_op:
  "current (take_op p l) =
     (if op_gen p = generation l then remove1 p (current l) else current l)"
proof (cases "op_gen p = generation l")
  case True
  then show ?thesis by (simp add: current_def take_op_def filter_remove1)
next
  case False
  then have "p \<notin> set (current l)" by (simp add: current_def)
  with False show ?thesis
    by (simp add: current_def take_op_def filter_remove1 remove1_idem)
qed

lemma old_gens_take_op:
  "\<forall>q \<in> set (pending l). unat (op_gen q) \<le> n \<Longrightarrow>
   \<forall>q \<in> set (pending (take_op p l)). unat (op_gen q) \<le> n"
  using set_remove1_subset [of p "pending l"] by (auto simp: take_op_def)

lemma take_op_fields [simp]:
  "opened (take_op p l) = opened l" "connecting (take_op p l) = connecting l"
  "generation (take_op p l) = generation l" "tx_queue (take_op p l) = tx_queue l"
  "posted (take_op p l) = posted l" "is_tcp (take_op p l) = is_tcp l"
  "detail (take_op p l) = detail l"
  by (simp_all add: take_op_def)

lemma link_inv_take_stale:
  assumes "link_inv l" and "op_gen p \<noteq> generation l"
  shows "link_inv (take_op p l)"
  using assms old_gens_take_op [of l _ p]
  by (simp add: link_inv_def current_take_op outstanding_def)

text \<open>A handler of the current connection: its operation is gone, then it acts.\<close>

lemma current_mem: "p \<in> set (current l) \<longleftrightarrow> p \<in> set (pending l) \<and> op_gen p = generation l"
  by (auto simp: current_def)

lemma link_inv_connecting:
  assumes "link_inv l" and "p \<in> set (current l)" and "is_setup p"
  shows "connecting l" and "\<not> opened l" and "current l = [p]"
proof -
  have "p \<in> set (filter is_setup (current l))" using assms(2,3) by simp
  then have ne: "filter is_setup (current l) \<noteq> []" by (metis empty_iff empty_set)
  with assms(1) show "connecting l" and "\<not> opened l"
    by (auto simp: link_inv_def split: if_splits)
  with assms(1) have "length (current l) = 1" by (simp add: link_inv_def)
  with assms(2) show "current l = [p]" by (cases "current l") auto
qed

lemma link_inv_not_connecting:
  assumes "link_inv l" and "p \<in> set (current l)" and "\<not> is_setup p"
  shows "\<not> connecting l"
proof
  assume c: "connecting l"
  with assms(1) have "filter is_setup (current l) = current l"
    by (auto simp: link_inv_def split: if_splits)
  then have "p \<in> set (filter is_setup (current l))" using assms(2) by (simp only:)
  with assms(3) show False by simp
qed

lemma link_inv_fail:
  assumes "link_inv l" and "p \<in> set (current l)"
  shows "link_inv ((take_op p l)\<lparr>opened := False, connecting := False, tx_queue := []\<rparr>)"
proof -
  have g: "op_gen p = generation l" using assms(2) by (simp add: current_mem)
  have "filter is_setup (remove1 p (current l)) = []"
  proof (cases "is_setup p")
    case True
    with link_inv_connecting(3) [OF assms] show ?thesis by simp
  next
    case False
    with link_inv_not_connecting [OF assms] assms(1) show ?thesis
      by (auto simp: link_inv_def filter_remove1 split: if_splits)
  qed
  with assms(1) old_gens_take_op [of l _ p] current_take_op [of p l] g show ?thesis
    by (simp add: link_inv_def current_def)
qed

lemma current_start_op:
  "op_gen q = generation l \<Longrightarrow> current (start_op q l) = current l @ [q]"
  by (simp add: current_def start_op_def)

lemma current_update [simp]:
  "current (l\<lparr>connecting := c\<rparr>) = current l" "current (l\<lparr>opened := b\<rparr>) = current l"
  "current (l\<lparr>tx_queue := q\<rparr>) = current l"
  by (simp_all add: current_def)

lemma link_inv_resolved:
  assumes "link_inv l" and "ResolveOp g \<in> set (current l)"
  shows "link_inv (start_op (ConnectOp g) (take_op (ResolveOp g) l))"
proof -
  note c = link_inv_connecting [OF assms]
  have g: "g = generation l" using assms(2) by (simp add: current_mem)
  with c have "current (start_op (ConnectOp g) (take_op (ResolveOp g) l)) = [ConnectOp g]"
    by (simp add: current_start_op current_take_op)
  with assms(1) c old_gens_take_op [of l "unat (generation l)" "ResolveOp g"] g show ?thesis
    by (auto simp: link_inv_def start_op_def)
qed

lemma link_inv_connected:
  assumes "link_inv l" and "ConnectOp g \<in> set (current l)"
  shows "link_inv (do_read g ((take_op (ConnectOp g) l)\<lparr>connecting := False, opened := True\<rparr>))"
proof -
  note c = link_inv_connecting [OF assms]
  have g: "g = generation l" using assms(2) by (simp add: current_mem)
  let ?m = "(take_op (ConnectOp g) l)\<lparr>connecting := False, opened := True\<rparr>"
  from g c have "current (do_read g ?m) = [ReadOp g]"
    by (simp add: do_read_def current_start_op current_take_op)
  moreover have "tx_queue l = []" using assms(1) c by (simp add: link_inv_def)
  ultimately show ?thesis
    using assms(1) c old_gens_take_op [of l "unat (generation l)" "ConnectOp g"] g
    by (auto simp: link_inv_def start_op_def do_read_def outstanding_def)
qed

lemma link_inv_read:
  assumes "link_inv l" and "ReadOp g \<in> set (current l)"
  shows "link_inv (do_read g (take_op (ReadOp g) l))"
proof -
  have nc: "\<not> connecting l" using link_inv_not_connecting [OF assms] by simp
  have g: "g = generation l" using assms(2) by (simp add: current_mem)
  have old: "\<forall>p \<in> set (pending (take_op (ReadOp g) l)). unat (op_gen p) \<le> unat (generation l)"
    using assms(1) old_gens_take_op [of l "unat (generation l)" "ReadOp g"]
    by (simp add: link_inv_def)
  let ?c = "current (do_read g (take_op (ReadOp g) l))"
  have "?c = remove1 (ReadOp g) (current l) @ (if opened l then [ReadOp g] else [])"
    using g by (simp add: do_read_def current_start_op current_take_op)
  then have "filter is_setup ?c = filter is_setup (current l)"
    "filter is_write ?c = filter is_write (current l)"
    "opened l \<Longrightarrow> filter is_read ?c = remove1 (ReadOp g) (filter is_read (current l)) @ [ReadOp g]"
    by (simp_all add: filter_remove1 remove1_idem)
  with assms(1) nc old g show ?thesis
    by (auto simp: link_inv_def do_read_def start_op_def outstanding_def)
qed

lemma link_inv_written:
  assumes "link_inv l" and "WriteOp g b \<in> set (current l)"
  shows "link_inv (next_write g ((take_op (WriteOp g b) l)\<lparr>tx_queue := tl (tx_queue l)\<rparr>))"
proof -
  have nc: "\<not> connecting l" using link_inv_not_connecting [OF assms] by simp
  have g: "g = generation l" using assms(2) by (simp add: current_mem)
  let ?m = "(take_op (WriteOp g b) l)\<lparr>tx_queue := tl (tx_queue l)\<rparr>"
  have old: "\<forall>p \<in> set (pending ?m). unat (op_gen p) \<le> unat (generation l)"
    using assms(1) old_gens_take_op [of l "unat (generation l)" "WriteOp g b"]
    by (simp add: link_inv_def)
  have c: "filter is_setup (current ?m) = filter is_setup (current l)"
    "filter is_read (current ?m) = filter is_read (current l)"
    "filter is_write (current ?m) = remove1 (WriteOp g b) (filter is_write (current l))"
    using g by (simp_all add: current_take_op filter_remove1 remove1_idem)
  show ?thesis
  proof (cases "opened l")
    case True
    then have w: "filter is_write (current l) = outstanding l"
      using assms(1) by (simp add: link_inv_def)
    have "WriteOp g b \<in> set (filter is_write (current l))" using assms(2) by simp
    then have "WriteOp g b \<in> set (outstanding l)" by (simp only: w)
    with w c(3) have "filter is_write (current ?m) = []"
      by (auto simp: outstanding_def split: if_splits)
    with True c(1,2) assms(1) old g show ?thesis
      by (auto simp: link_inv_def next_write_def current_start_op outstanding_def)
        (auto simp: start_op_def)
  next
    case False
    with c(1) assms(1) nc old show ?thesis
      by (auto simp: link_inv_def next_write_def)
  qed
qed

lemma link_inv_complete:
  assumes "link_inv l" and "p \<in> set (pending l)"
  shows "link_inv (fst (completed p r (take_op p l)))"
proof (cases "op_gen p = generation l")
  case False
  with assms link_inv_take_stale show ?thesis by (simp add: completed_stale)
next
  case True
  with assms(2) have c: "p \<in> set (current l)" by (simp add: current_mem)
  show ?thesis
  proof (cases r)
    case (Inl e)
    with True link_inv_fail [OF assms(1) c] show ?thesis
      by (cases p) (simp_all add: on_resolve_def on_connect_def on_read_def written_def
          handle_io_error_def)
  next
    case (Inr bs)
    show ?thesis
    proof (cases p)
      case (WriteOp g b)
      have id: "(take_op p l)\<lparr>tx_queue := []\<rparr> = take_op p l" if "tx_queue l = []"
        using that by (cases l) (simp add: take_op_def)
      have "fst (completed p r (take_op p l))
          = next_write g ((take_op p l)\<lparr>tx_queue := tl (tx_queue l)\<rparr>)"
      proof (cases "tx_queue l = []")
        case empty: True
        have "fst (completed p r (take_op p l)) = next_write g (take_op p l)"
          using Inr True WriteOp empty by (simp add: written_def)
        then show ?thesis by (simp only: empty list.sel id [OF empty])
      next
        case False
        with Inr True WriteOp show ?thesis by (simp add: written_def)
      qed
      with WriteOp c link_inv_written [OF assms(1), of g b] show ?thesis by simp
    qed (use Inr True c link_inv_resolved [OF assms(1)] link_inv_connected [OF assms(1)]
        link_inv_read [OF assms(1)] in \<open>auto simp: on_resolve_def on_connect_def on_read_def Let_def\<close>)
  qed
qed

lemma link_inv_step:
  assumes "link_inv l" and "link_step e l = Some (Done (m, outs))"
    and "unat (generation l) + 1 < 18446744073709551616"
  shows "link_inv m"
proof (cases e)
  case (Start r)
  with assms(2) link_inv_start [OF assms(1,3), of r] show ?thesis by simp
next
  case Stop
  with assms(2) link_inv_stop [OF assms(1,3)] show ?thesis by simp
next
  case (Write b)
  with assms link_inv_write_bytes show ?thesis by auto
next
  case RunPosted
  with assms(1,2) show ?thesis
    by (auto simp: link_inv_write_handler split: list.splits)
next
  case (Complete p r)
  with assms(2) link_inv_complete [OF assms(1), of p r] show ?thesis
    by (auto simp: take_op_def split: if_splits)
qed

text \<open>Each step starts at most one generation, so \<open>2 ^ 64\<close> is out of reach of shorter runs.\<close>

lemma generation_ops:
  "generation (after_post b l) = generation l" "generation (write_bytes b l) = generation l"
  "generation (fst (completed p r l)) = generation l"
  by (auto simp: link_ops split: sum.splits) (cases p; auto simp: link_ops split: sum.splits)

lemma generation_step:
  "link_step e l = Some (Done (m, outs)) \<Longrightarrow> generation m = generation l \<or> generation m = generation l + 1"
proof (cases e)
  case (Complete p r)
  assume "link_step e l = Some (Done (m, outs))"
  with Complete have "m = fst (completed p r (take_op p l))"
    by (auto simp: take_op_def split: if_splits)
  then show ?thesis by (simp add: generation_ops)
next
  case RunPosted
  assume "link_step e l = Some (Done (m, outs))"
  with RunPosted show ?thesis by (auto simp: generation_ops split: list.splits)
next
  case (Start r)
  assume "link_step e l = Some (Done (m, outs))"
  with Start show ?thesis
    by (cases r) (auto simp: link_start_def Let_def start_op_def do_read_def split: if_splits)
qed (auto simp: link_stop_def generation_ops)

lemma unat_add_1_le: "unat (g + 1 :: u64) \<le> unat g + 1"
  by (simp add: unat_word_ariths)

lemma link_reach_inv:
  "link_reach n l \<Longrightarrow> n < 18446744073709551615 \<Longrightarrow> link_inv l \<and> unat (generation l) \<le> n"
proof (induction rule: link_reach.induct)
  case (reach_new p b l)
  then have "generation l = 0" by (auto simp: new_link_def split: sum.splits)
  with link_inv_new [OF reach_new(1)] show ?case by simp
next
  case (reach_step n l e m outs)
  then have "link_inv l" "unat (generation l) \<le> n" by simp_all
  with reach_step show ?case
    using link_inv_step [of l e m outs] generation_step [of e l m outs]
      unat_add_1_le [of "generation l"] by auto
qed

section \<open>Ordered writes\<close>

text \<open>The buffers of the write operations that a handler started.\<close>

fun op_buffer :: "link_op \<Rightarrow> bytes list" where
  "op_buffer (WriteOp g b) = [b]"
| "op_buffer _ = []"

definition writes_started :: "serial_link \<Rightarrow> serial_link \<Rightarrow> bytes list" where
  "writes_started l m = concat (map op_buffer (drop (length (pending l)) (pending m)))"

definition link_enqueue :: "bytes \<Rightarrow> serial_link \<Rightarrow> serial_link \<times> bytes list" where
  "link_enqueue b l = (let m = after_post b l in (m, writes_started l m))"

definition link_written :: "serial_link \<Rightarrow> (serial_link \<times> bytes list) cpp" where
  "link_written l = map_cpp (\<lambda>(m, outs). (m, writes_started l m)) (on_write (generation l) (Inr []) l)"

interpretation link_writer: async_writer tx_queue opened link_enqueue link_written
proof
  fix l m :: serial_link and b :: bytes and w
  assume o: "opened l" and e: "link_enqueue b l = (m, w)"
  then show "opened m \<and> tx_queue m = tx_queue l @ [b] \<and> w = (if tx_queue l = [] then [b] else [])"
    by (auto simp: link_enqueue_def after_post_def next_write_def start_op_def writes_started_def Let_def)
next
  fix l m :: serial_link and b :: bytes and w
  assume "\<not> opened l" and "link_enqueue b l = (m, w)"
  then show "\<not> opened m \<and> tx_queue m = tx_queue l \<and> w = []"
    by (auto simp: link_enqueue_def after_post_def writes_started_def Let_def)
next
  fix l :: serial_link and b :: bytes and q
  assume "opened l" and "tx_queue l = b # q"
  then show "\<exists>t. link_written l = Done (t, take 1 q) \<and> opened t \<and> tx_queue t = q"
    by (cases q) (auto simp: link_written_def written_def next_write_def start_op_def
        writes_started_def Let_def)
qed

section \<open>Closed connections\<close>

definition quiet :: "serial_link \<Rightarrow> bool" where
  "quiet l \<longleftrightarrow> \<not> opened l \<and> \<not> connecting l \<and> tx_queue l = []
     \<and> (\<forall>p \<in> set (pending l). op_gen p \<noteq> generation l)"

fun is_control :: "link_event \<Rightarrow> bool" where
  "is_control (Start r) = True"
| "is_control Stop = True"
| "is_control _ = False"

fun link_run :: "link_event list \<Rightarrow> serial_link \<Rightarrow> (serial_link \<times> link_out list) cpp option" where
  "link_run [] l = Some (Done (l, []))"
| "link_run (e # es) l =
     (case link_step e l of
        Some (Done (m, outs)) \<Rightarrow> map_option (map_cpp (\<lambda>(k, os). (k, outs @ os))) (link_run es m)
      | r \<Rightarrow> r)"

lemma quiet_step:
  assumes "quiet l" and "\<not> is_control e" and "link_step e l = Some (Done (m, outs))"
  shows "quiet m \<and> outs = [] \<and> set (pending m) \<subseteq> set (pending l)"
proof (cases e)
  case (Complete p r)
  with assms have "op_gen p \<noteq> generation l" and
    "(m, outs) = completed p r (take_op p l)"
    by (auto simp: quiet_def take_op_def split: if_splits)
  with assms(1) set_remove1_subset [of p "pending l"] show ?thesis
    by (auto simp: completed_stale quiet_def take_op_def)
next
  case RunPosted
  with assms show ?thesis
    by (auto simp: quiet_def after_post_def split: list.splits)
qed (use assms in \<open>auto simp: quiet_def write_bytes_def split: if_splits\<close>)

lemma quiet_run:
  "quiet l \<Longrightarrow> \<forall>e \<in> set es. \<not> is_control e \<Longrightarrow> link_run es l = Some (Done (m, outs)) \<Longrightarrow>
   quiet m \<and> outs = [] \<and> set (pending m) \<subseteq> set (pending l)"
proof (induction es arbitrary: l outs)
  case Nil
  then show ?case by simp
next
  case (Cons e es)
  then obtain k o1 o2 where k: "link_step e l = Some (Done (k, o1))" "link_run es k = Some (Done (m, o2))"
    "outs = o1 @ o2" by (auto split: option.splits cpp.splits)
  have e: "\<not> is_control e" using Cons.prems(2) by simp
  from quiet_step [OF Cons.prems(1) e k(1)] Cons.IH [OF _ _ k(2)] Cons.prems(2) k(3)
  show ?case by auto
qed

lemma quiet_stop:
  assumes "link_inv l" and "unat (generation l) + 1 < 18446744073709551616"
  shows "quiet (fst (link_stop l))"
proof -
  have "\<forall>p \<in> set (pending l). unat (op_gen p) \<le> unat (generation l)"
    using assms(1) by (simp add: link_inv_def)
  then have "\<forall>p \<in> set (pending l). op_gen p \<noteq> generation l + 1"
    using unat_Suc_gen [OF assms(2)] by fastforce
  then show ?thesis by (simp add: quiet_def link_stop_def)
qed

section \<open>Notifications\<close>

text \<open>What an observer of the callbacks believes about \<open>opened()\<close>.\<close>

fun heard :: "bool \<Rightarrow> link_out list \<Rightarrow> bool" where
  "heard b [] = b"
| "heard b (OnState s d # os) = heard s os"
| "heard b (OnError e # os) = heard False os"
| "heard b (OnBytes bs # os) = heard b os"

lemma opened_do [simp]: "opened (do_read g l) = opened l" "opened (next_write g l) = opened l"
  "opened (start_op p l) = opened l"
  by (simp_all add: do_read_def next_write_def start_op_def)

lemma completed_notifies:
  "completed p r l = (m, outs) \<Longrightarrow> opened m = heard (opened l) outs"
  by (cases p) (auto simp: on_resolve_def on_connect_def on_read_def written_def
      handle_io_error_def Let_def split: sum.splits if_splits)

lemma link_step_notifies:
  assumes "link_step e l = Some (Done (m, outs))"
  shows "opened m = heard (opened l) outs"
proof (cases e)
  case (Complete p r)
  with assms completed_notifies [of p r "take_op p l" m outs] show ?thesis
    by (simp add: take_op_def split: if_splits)
next
  case (Start r)
  with assms show ?thesis
    by (cases r) (auto simp: link_start_def Let_def split: if_splits)
next
  case RunPosted
  with assms show ?thesis
    by (auto simp: after_post_def Let_def split: list.splits if_splits)
qed (use assms in \<open>auto simp: link_stop_def write_bytes_def split: if_splits\<close>)

section \<open>Concrete runs\<close>

definition serial_fixture :: serial_link where
  "serial_fixture = \<lparr>is_tcp = False, tcp_host = [], tcp_port = 0, port_name = ''/dev/ttyACM0'',
     baud = 115200, opened = False, connecting = False, generation = 0, detail = [],
     tx_queue = [], posted = [], pending = []\<rparr>"

lemma new_serial_fixture: "new_link ''/dev/ttyACM0'' 115200 = Inr serial_fixture"
  by (simp add: new_link_def parse_tcp_uri_def starts_with_def serial_fixture_def)

definition serial_open_fixture :: serial_link where
  "serial_open_fixture = serial_fixture\<lparr>opened := True, generation := 1,
     detail := ''/dev/ttyACM0'', pending := [ReadOp 1]\<rparr>"

lemma start_serial_fixture:
  "link_step (Start SerialOpened) serial_fixture
     = Some (Done (serial_open_fixture, [OnState True ''/dev/ttyACM0'']))"
  by (simp add: link_ops serial_fixture_def serial_open_fixture_def)

lemma reach_serial_open: "link_reach 1 serial_open_fixture"
  using reach_step [OF reach_new [OF new_serial_fixture] start_serial_fixture] by simp

section \<open>Properties\<close>

text \<open>C21: In every state the link can reach in fewer than \<open>2 ^ 64 - 1\<close> steps it is never both
  open and connecting, and while it is open the current connection has exactly one read in
  progress and a write in progress exactly when the queue is not empty, of the buffer at
  the front: packets are never written concurrently.\<close>
theorem link_one_read_one_write:
  assumes "link_reach n l" and "n < 18446744073709551615"
  shows "\<not> (opened l \<and> connecting l) \<and>
    (opened l \<longrightarrow> filter is_read (current l) = [ReadOp (generation l)]
       \<and> filter is_write (current l)
         = (if tx_queue l = [] then [] else [WriteOp (generation l) (hd (tx_queue l))]))"
  using link_reach_inv [OF assms] by (auto simp: link_inv_def outstanding_def)

theorem link_one_read_one_write_witness:
  "\<not> (opened serial_open_fixture \<and> connecting serial_open_fixture) \<and>
    filter is_read (current serial_open_fixture) = [ReadOp 1] \<and>
    filter is_write (current serial_open_fixture) = []"
  using link_one_read_one_write [OF reach_serial_open]
  by (simp add: serial_open_fixture_def serial_fixture_def)

text \<open>An open link with an empty queue writes what is posted to it in order: after any
  interleaving of posts and completed writes with \<open>n\<close> completions, exactly the first
  \<open>n + 1\<close> buffers have been handed to the device, and the queue holds all but the first
  \<open>n\<close>.\<close>
lemma link_writes_in_order:
  assumes "opened l" and "tx_queue l = []" and "feasible 0 es"
  shows "\<exists>m. run_writer link_enqueue link_written es l
      = Done (m, take (Suc (completions es)) (enqueued es))
    \<and> tx_queue m = drop (completions es) (enqueued es)"
  using assms by (rule link_writer.run_writer_fifo)

text \<open>C20: \<open>stop\<close> is final: whatever the operations of the old connection do afterwards, and
  whatever is posted, until the next start or stop there is no callback, the link stays
  closed with an empty queue, and no operation is started.\<close>
theorem stop_silences_link:
  assumes "link_reach n l" and "n < 18446744073709551615"
    and "\<forall>e \<in> set es. \<not> is_control e"
    and "link_run es (fst (link_stop l)) = Some (Done (m, outs))"
  shows "outs = [] \<and> \<not> opened m \<and> \<not> connecting m \<and> tx_queue m = [] \<and>
    set (pending m) \<subseteq> set (pending l)"
proof -
  from link_reach_inv [OF assms(1,2)] assms(2) have "quiet (fst (link_stop l))"
    by (intro quiet_stop) auto
  from quiet_run [OF this assms(3,4)] show ?thesis
    by (auto simp: quiet_def link_stop_def)
qed

theorem stop_silences_link_witness:
  "\<exists>m outs. link_run [Write [7], Complete (ReadOp 1) (Inr [1, 2]), RunPosted]
      (fst (link_stop serial_open_fixture)) = Some (Done (m, outs)) \<and>
    outs = [] \<and> \<not> opened m \<and> \<not> connecting m \<and> tx_queue m = [] \<and>
    set (pending m) \<subseteq> set (pending serial_open_fixture)"
proof -
  have "\<exists>m outs. link_run [Write [7], Complete (ReadOp 1) (Inr [1, 2]), RunPosted]
      (fst (link_stop serial_open_fixture)) = Some (Done (m, outs))"
    by (simp add: link_ops serial_open_fixture_def serial_fixture_def)
  then obtain m outs where r: "link_run [Write [7], Complete (ReadOp 1) (Inr [1, 2]), RunPosted]
      (fst (link_stop serial_open_fixture)) = Some (Done (m, outs))" by blast
  from stop_silences_link [OF reach_serial_open _ _ r] r show ?thesis by auto
qed

text \<open>Every handler and call tells its observer the truth: the last state or error
  callback of a step agrees with \<open>opened()\<close> after it, and a step without one leaves
  \<open>opened()\<close> as it was.\<close>
lemma link_callbacks_track_opened:
  assumes "link_step e l = Some (Done (m, outs))"
  shows "opened m = heard (opened l) outs"
  using assms by (rule link_step_notifies)

text \<open>A lost connection is reported once per operation in progress: after a failed read
  the cancelled write of the same connection still passes the generation check, so its
  handler raises a second error that replaces the cause reported first.\<close>
lemma link_error_reported_twice:
  assumes "ReadOp (generation l) \<in> set (pending l)" and "WriteOp (generation l) b \<in> set (pending l)"
  shows "\<exists>k m. link_step (Complete (ReadOp (generation l)) (Inl cause)) l
      = Some (Done (k, [OnError ((if is_tcp l then ''tcp read failed: '' else ''serial read failed: '') @ cause)]))
    \<and> \<not> opened k
    \<and> link_step (Complete (WriteOp (generation l) b) (Inl ''Operation canceled'')) k
      = Some (Done (m, [OnError ''device write failed: Operation canceled'']))"
  using assms by (auto simp: on_read_def written_def handle_io_error_def)

text \<open>A link whose port is \<open>tcp://HOST:PORT\<close> with a decimal port number (in \<open>int\<close> range)
  and no colon in the host is a TCP link to that host, and to that port modulo \<open>2 ^ 16\<close>:
  a number above 65535 is not refused.\<close>
lemma link_address:
  assumes "CHR '':'' \<notin> set h" and "n \<le> 2147483647"
  shows "new_link (''tcp://'' @ h @ '':'' @ dec n) b
    = Inr \<lparr>is_tcp = True, tcp_host = h, tcp_port = of_nat n,
        port_name = ''tcp://'' @ h @ '':'' @ dec n, baud = b, opened = False, connecting = False,
        generation = 0, detail = [], tx_queue = [], posted = [], pending = []\<rparr>"
proof -
  have "split_at CHR '':'' (h @ CHR '':'' # dec n) = Some (h, dec n)"
    using assms(1) by (simp add: split_at_eq)
  moreover have "stoi (dec n) = Inr (int n)"
    using stoi_dec [OF assms(2), of "[]"] by simp
  ultimately show ?thesis
    by (simp add: new_link_def parse_tcp_uri_def starts_with_def to_u16_def Let_def)
qed

end
