(* ===== verification/Ipc_Server.thy ===== *)
theory Ipc_Server
  imports GS_Prelude Stream_Splitter Protocol Write_Queue
begin

text \<open>
  The daemon's side of the local IPC: \<open>daemon/src/ipc_server.cpp\<close> and
  \<open>daemon/include/exn/daemon/ipc_server.hpp\<close>. As for the device link, asynchronous
  operations in progress are part of the state and complete with any result. A session
  object lives as long as one of its handlers is waiting, which is what a \<open>weak_ptr\<close> of the
  server's list sees.
\<close>

section \<open>Session\<close>

record session =
  sock_open :: bool
  rxbuf :: bytes
  out_queue :: "bytes list"
  send_posted :: "bytes list"
  reading :: bool
  writing :: "bytes list"

definition new_session :: session where
  "new_session = \<lparr>sock_open = True, rxbuf = [], out_queue = [], send_posted = [],
     reading = False, writing = []\<rparr>"

definition session_send :: "frame \<Rightarrow> session \<Rightarrow> session" where
  "session_send f s = s\<lparr>send_posted := send_posted s @ [encode f]\<rparr>"

definition session_do_read :: "session \<Rightarrow> session" where
  "session_do_read s = s\<lparr>reading := True\<rparr>"

definition session_do_write :: "session \<Rightarrow> session" where
  "session_do_write s =
     (if out_queue s = [] \<or> \<not> sock_open s then s
      else s\<lparr>writing := writing s @ [hd (out_queue s)]\<rparr>)"

text \<open>The handler that \<open>send\<close> posts.\<close>

definition send_handler :: "bytes \<Rightarrow> session \<Rightarrow> session" where
  "send_handler b s =
     (if \<not> sock_open s then s
      else let idle = (out_queue s = []); s = s\<lparr>out_queue := out_queue s @ [b]\<rparr>
        in if idle then session_do_write s else s)"

definition session_start :: "session \<Rightarrow> session" where
  "session_start s =
     session_send \<lparr>ftype = Hello, payload = pack_string ''exn_gsd''\<rparr> (session_do_read s)"

text \<open>
  The completion handler of \<open>async_write\<close>, its operation already taken out of \<open>writing\<close>.
  \<open>pop_front\<close> is called without a test, and is undefined on an empty deque.
\<close>

definition write_completed :: "string option \<Rightarrow> session \<Rightarrow> session cpp" where
  "write_completed ec s =
     (case ec of
        Some e \<Rightarrow> Done (s\<lparr>out_queue := [], sock_open := False\<rparr>)
      | None \<Rightarrow> if out_queue s = [] then UB
          else Done (session_do_write (s\<lparr>out_queue := tl (out_queue s)\<rparr>)))"

text \<open>The types that are handed to \<open>on_frame_\<close>.\<close>

definition dispatched :: "frame \<Rightarrow> bool" where
  "dispatched f \<longleftrightarrow> ftype f = Command \<or> ftype f = Query \<or> ftype f = PacketSend"

text \<open>
  The completion handler of \<open>async_read_some\<close>: the session, re-armed on success, and the
  frames for \<open>on_frame_\<close> in order (\<open>App::run\<close> sets the callback before \<open>start\<close>).
\<close>

definition read_completed :: "string + bytes \<Rightarrow> session \<Rightarrow> (session \<times> frame list) cpp" where
  "read_completed r s =
     (case r of
        Inl e \<Rightarrow> Done (s\<lparr>sock_open := False, out_queue := [], reading := False\<rparr>, [])
      | Inr bs \<Rightarrow>
          map_cpp (\<lambda>(fs, rest). (session_do_read (s\<lparr>rxbuf := rest\<rparr>), filter dispatched fs))
            (drain_frames (rxbuf s @ bs)))"

section \<open>Server\<close>

text \<open>A session is kept alive by the handlers that hold \<open>self\<close>.\<close>

definition alive :: "session \<Rightarrow> bool" where
  "alive s \<longleftrightarrow> reading s \<or> send_posted s \<noteq> [] \<or> writing s \<noteq> []"

record ipc_server =
  sessions :: "(nat \<times> session) list"
  next_id :: nat

definition new_server :: ipc_server where
  "new_server = \<lparr>sessions = [], next_id = 0\<rparr>"

definition broadcast :: "frame \<Rightarrow> ipc_server \<Rightarrow> ipc_server" where
  "broadcast f srv = srv\<lparr>sessions :=
     map (\<lambda>(i, s). (i, session_send f s)) (filter (\<lambda>(i, s). alive s) (sessions srv))\<rparr>"

text \<open>An accepted connection, up to the call of \<open>on_connect_\<close>; a failed accept changes
  nothing.\<close>

definition accept_session :: "ipc_server \<Rightarrow> ipc_server" where
  "accept_session srv = srv\<lparr>sessions := sessions srv @ [(next_id srv, session_start new_session)],
     next_id := Suc (next_id srv)\<rparr>"

definition update_session :: "nat \<Rightarrow> (session \<Rightarrow> session) \<Rightarrow> ipc_server \<Rightarrow> ipc_server" where
  "update_session i h srv = srv\<lparr>sessions :=
     map (\<lambda>(j, s). (j, if j = i then h s else s)) (sessions srv)\<rparr>"

definition get_session :: "nat \<Rightarrow> ipc_server \<Rightarrow> session option" where
  "get_session i srv = map_of (sessions srv) i"

definition send_to :: "nat \<Rightarrow> frame \<Rightarrow> ipc_server \<Rightarrow> ipc_server" where
  "send_to i f srv = update_session i (session_send f) srv"

lemmas session_ops [unfold_ops] = session_send_def session_do_read_def session_do_write_def
  send_handler_def session_start_def write_completed_def read_completed_def Let_def

section \<open>Session steps\<close>

datatype session_event =
    Send frame
  | RunSend
  | ReadDone "string + bytes"
  | WriteDone "string option"

fun session_step :: "session_event \<Rightarrow> session \<Rightarrow> (session \<times> frame list) cpp option" where
  "session_step (Send f) s = Some (Done (session_send f s, []))"
| "session_step RunSend s =
     (case send_posted s of [] \<Rightarrow> None
      | b # bs \<Rightarrow> Some (Done (send_handler b (s\<lparr>send_posted := bs\<rparr>), [])))"
| "session_step (ReadDone r) s = (if reading s then Some (read_completed r s) else None)"
| "session_step (WriteDone ec) s =
     (case writing s of [] \<Rightarrow> None
      | b # ws \<Rightarrow> Some (map_cpp (\<lambda>t. (t, [])) (write_completed ec (s\<lparr>writing := ws\<rparr>))))"

inductive session_reach :: "session \<Rightarrow> bool" where
  session_new: "session_reach (session_start new_session)"
| session_next: "session_reach s \<Longrightarrow> session_step e s = Some (Done (t, fs)) \<Longrightarrow> session_reach t"

text \<open>
  While the socket is open at most one write is in progress, of the front of the queue;
  when it is closed the queue is empty. Nothing ties a closed session's \<open>writing\<close> down.
\<close>

definition session_inv :: "session \<Rightarrow> bool" where
  "session_inv s \<longleftrightarrow>
     (if sock_open s then writing s = take 1 (out_queue s) \<and> reading s else out_queue s = [])"

lemma session_inv_step:
  assumes "session_inv s" and "session_step e s = Some (Done (t, fs))"
  shows "session_inv t"
proof (cases e)
  case (ReadDone r)
  with assms show ?thesis
    by (cases r) (auto simp: session_inv_def read_completed_def session_do_read_def split: if_splits)
next
  case (WriteDone ec)
  with assms show ?thesis
    by (cases "out_queue s"; cases "tl (out_queue s)")
      (auto simp: session_inv_def write_completed_def session_do_write_def
        split: list.splits option.splits if_splits)
next
  case RunSend
  with assms show ?thesis
    by (auto simp: session_inv_def send_handler_def session_do_write_def Let_def
        split: list.splits if_splits) (cases "out_queue s"; simp)
qed (use assms in \<open>auto simp: session_inv_def session_send_def\<close>)

lemma session_reach_inv: "session_reach s \<Longrightarrow> session_inv s"
proof (induction rule: session_reach.induct)
  case session_new
  show ?case by (simp add: session_inv_def session_ops new_session_def)
next
  case (session_next s e t fs)
  then show ?case by (blast intro: session_inv_step)
qed

section \<open>Ordered writes\<close>

definition session_enqueue :: "bytes \<Rightarrow> session \<Rightarrow> session \<times> bytes list" where
  "session_enqueue b s = (let t = send_handler b s in (t, drop (length (writing s)) (writing t)))"

definition session_written :: "session \<Rightarrow> (session \<times> bytes list) cpp" where
  "session_written s =
     map_cpp (\<lambda>t. (t, drop (length (tl (writing s))) (writing t)))
       (write_completed None (s\<lparr>writing := tl (writing s)\<rparr>))"

interpretation session_writer: async_writer out_queue sock_open session_enqueue session_written
proof
  fix s t :: session and b w
  assume "sock_open s" and "session_enqueue b s = (t, w)"
  then show "sock_open t \<and> out_queue t = out_queue s @ [b] \<and> w = (if out_queue s = [] then [b] else [])"
    by (auto simp: session_enqueue_def session_ops)
next
  fix s t :: session and b w
  assume "\<not> sock_open s" and "session_enqueue b s = (t, w)"
  then show "\<not> sock_open t \<and> out_queue t = out_queue s \<and> w = []"
    by (auto simp: session_enqueue_def session_ops)
next
  fix s :: session and b q
  assume "sock_open s" and "out_queue s = b # q"
  then show "\<exists>t. session_written s = Done (t, take 1 q) \<and> sock_open t \<and> out_queue t = q"
    by (cases q) (auto simp: session_written_def session_ops)
qed

section \<open>Broadcast\<close>

lemma ids_broadcast: "map fst (sessions (broadcast f srv)) = map fst (filter (\<lambda>(i, s). alive s) (sessions srv))"
  by (simp add: broadcast_def comp_def split_def)

text \<open>Identifiers are given out in order, so a session is found under its own.\<close>

definition server_inv :: "ipc_server \<Rightarrow> bool" where
  "server_inv srv \<longleftrightarrow> distinct (map fst (sessions srv)) \<and> (\<forall>i \<in> fst ` set (sessions srv). i < next_id srv)"

lemma server_inv_new: "server_inv new_server"
  by (simp add: server_inv_def new_server_def)

lemma distinct_map_filter_pairs: "distinct (map fst xs) \<Longrightarrow> distinct (map fst (filter P xs))"
  by (simp add: distinct_map_filter)

lemma server_inv_broadcast: "server_inv srv \<Longrightarrow> server_inv (broadcast f srv)"
  by (auto simp: server_inv_def broadcast_def comp_def split_def distinct_map_filter)

lemma server_inv_accept: "server_inv srv \<Longrightarrow> server_inv (accept_session srv)"
  by (fastforce simp: server_inv_def accept_session_def)

lemma server_inv_update: "server_inv srv \<Longrightarrow> server_inv (update_session i h srv)"
  by (auto simp: server_inv_def update_session_def comp_def split_def)

lemma get_session_mem:
  "server_inv srv \<Longrightarrow> (i, s) \<in> set (sessions srv) \<Longrightarrow> get_session i srv = Some s"
  by (simp add: server_inv_def get_session_def)

lemma get_session_update:
  "get_session j (update_session i h srv) =
     (if j = i then map_option h (get_session j srv) else get_session j srv)"
proof -
  have "map_of (map (\<lambda>(j, s). (j, if j = i then h s else s)) xs) j
      = (if j = i then map_option h (map_of xs j) else map_of xs j)" for xs
    by (induction xs) auto
  then show ?thesis by (simp add: get_session_def update_session_def)
qed

lemma get_session_send:
  "get_session j (send_to i f srv) =
     (if j = i then map_option (session_send f) (get_session j srv) else get_session j srv)"
  by (simp add: send_to_def get_session_update)

text \<open>A broadcast reaches every session that is alive.\<close>

lemma get_session_broadcast:
  assumes "server_inv srv" and "get_session j srv = Some s" and "alive s"
  shows "get_session j (broadcast f srv) = Some (session_send f s)"
proof -
  have "(j, s) \<in> set (sessions srv)"
    using assms(2) by (auto simp: get_session_def dest: map_of_SomeD)
  then have "(j, session_send f s) \<in> set (sessions (broadcast f srv))"
    using assms(3) by (force simp: broadcast_def)
  with get_session_mem [OF server_inv_broadcast [OF assms(1)]] show ?thesis by blast
qed

lemma alive_send [simp]: "alive (session_send f s)"
  by (simp add: alive_def session_send_def)

section \<open>Sequences of reads\<close>

fun read_all :: "bytes list \<Rightarrow> session \<Rightarrow> (session \<times> frame list) cpp" where
  "read_all [] s = Done (s, [])"
| "read_all (c # cs) s = bind_cpp (read_completed (Inr c) s)
     (\<lambda>(t, fs). map_cpp (\<lambda>(u, gs). (u, fs @ gs)) (read_all cs t))"

lemma read_all_feed:
  "feed drain_frames (rxbuf s) cs = Done (fs, r) \<Longrightarrow>
   \<exists>t. read_all cs s = Done (t, filter dispatched fs) \<and> rxbuf t = r"
proof (induction cs arbitrary: s fs)
  case Nil
  then show ?case by simp
next
  case (Cons c cs)
  then obtain gs q hs where d: "drain_frames (rxbuf s @ c) = Done (gs, q)"
    and f: "feed drain_frames q cs = Done (hs, r)" and fs: "fs = gs @ hs"
    by auto
  let ?t = "session_do_read (s\<lparr>rxbuf := q\<rparr>)"
  have "rxbuf ?t = q" by (simp add: session_do_read_def)
  with Cons.IH [of ?t hs] f obtain u where
    "read_all cs ?t = Done (u, filter dispatched hs)" "rxbuf u = r" by auto
  with d fs show ?case by (simp add: read_completed_def)
qed

section \<open>Concrete runs\<close>

text \<open>A client whose socket delivers an error while the greeting is being written.\<close>

definition greeting :: bytes where
  "greeting = encode \<lparr>ftype = Hello, payload = pack_string ''exn_gsd''\<rparr>"

definition lost_session :: session where
  "lost_session = \<lparr>sock_open = False, rxbuf = [], out_queue = [], send_posted = [],
     reading = False, writing = [greeting]\<rparr>"

lemma reach_lost_session: "session_reach lost_session"
proof -
  let ?s = "session_start new_session"
  have 1: "session_step RunSend ?s = Some (Done (\<lparr>sock_open = True, rxbuf = [],
      out_queue = [greeting], send_posted = [], reading = True, writing = [greeting]\<rparr>, []))"
    (is "_ = Some (Done (?t, []))")
    by (simp add: session_ops new_session_def greeting_def)
  have 2: "session_step (ReadDone (Inl ''End of file'')) ?t = Some (Done (lost_session, []))"
    by (simp add: session_ops lost_session_def)
  from session_next [OF session_next [OF session_new 1] 2] show ?thesis .
qed

section \<open>Properties\<close>

text \<open>C33: The completion of a successful write of a session is undefined behaviour exactly when the session
  was closed while the write was in progress: the read handler has emptied \<open>tx_queue_\<close>, and the write handler
  pops it without a test. On an open session a completed write is always defined.\<close>
theorem session_write_completion_race:
  assumes "session_reach s" and "writing s \<noteq> []"
  shows "session_step (WriteDone None) s = Some UB \<longleftrightarrow> \<not> sock_open s"
  using session_reach_inv [OF assms(1)] assms(2)
  by (cases "out_queue s")
    (auto simp: session_inv_def write_completed_def split: list.splits if_splits)

theorem session_write_completion_race_witness: "session_step (WriteDone None) lost_session = Some UB"
  using session_write_completion_race [OF reach_lost_session] by (simp add: lost_session_def)

text \<open>From the client's bytes to the daemon's handler: however the socket cuts a
  client's stream of frames, a fresh session hands to \<open>on_frame_\<close> exactly the command,
  query and packet frames of the stream, in order, and drops the others.\<close>
lemma session_dispatches_stream:
  assumes "\<forall>f \<in> set fs. short_frame f" and "concat cs = concat (map encode fs)"
  shows "\<exists>t. read_all cs (session_start new_session) = Done (t, filter dispatched fs) \<and> rxbuf t = []"
proof (rule read_all_feed)
  have "rxbuf (session_start new_session) = []"
    by (simp add: session_ops new_session_def)
  with feed_frames [OF assms]
  show "feed drain_frames (rxbuf (session_start new_session)) cs = Done (fs, [])" by simp
qed

text \<open>C22: What the daemon sends arrives: for frames sent on an open idle session, under any
  interleaving of sends and completed writes, the octets handed to the socket are the
  encodings of the first frames in the order of the sends, and a client that reads them
  in any pieces decodes exactly these frames.\<close>
theorem session_frames_arrive:
  assumes "sock_open s" and "out_queue s = []" and "feasible 0 es"
    and "enqueued es = map encode fs" and "\<forall>f \<in> set fs. short_frame f"
  shows "\<exists>t ws. run_writer session_enqueue session_written es s = Done (t, ws) \<and>
    (\<forall>cs. concat cs = concat ws \<longrightarrow>
       feed drain_frames [] cs = Done (take (Suc (completions es)) fs, []))"
proof -
  from session_writer.run_writer_fifo [OF assms(1-3)] assms(4) obtain t where
    r: "run_writer session_enqueue session_written es s
      = Done (t, map encode (take (Suc (completions es)) fs))"
    by (auto simp: take_map)
  have "\<forall>f \<in> set (take (Suc (completions es)) fs). short_frame f"
    using assms(5) by (meson in_set_takeD)
  with r show ?thesis by (auto intro!: feed_frames)
qed

theorem session_frames_arrive_witness:
  "\<exists>t ws. run_writer session_enqueue session_written
      [Enqueue (encode \<lparr>ftype = QueryResult, payload = []\<rparr>), Completed] new_session = Done (t, ws) \<and>
    feed drain_frames [] [concat ws] = Done ([\<lparr>ftype = QueryResult, payload = []\<rparr>], [])"
proof -
  have "\<exists>t ws. run_writer session_enqueue session_written
      [Enqueue (encode \<lparr>ftype = QueryResult, payload = []\<rparr>), Completed] new_session = Done (t, ws) \<and>
    (\<forall>cs. concat cs = concat ws \<longrightarrow> feed drain_frames [] cs =
      Done (take (Suc (completions [Enqueue (encode \<lparr>ftype = QueryResult, payload = []\<rparr>), Completed]))
        [\<lparr>ftype = QueryResult, payload = []\<rparr>], []))"
    by (rule session_frames_arrive) (simp_all add: new_session_def short_frame_def)
  then obtain t ws where
    "run_writer session_enqueue session_written
      [Enqueue (encode \<lparr>ftype = QueryResult, payload = []\<rparr>), Completed] new_session = Done (t, ws)"
    and all: "\<forall>cs. concat cs = concat ws \<longrightarrow> feed drain_frames [] cs =
      Done (take (Suc (completions [Enqueue (encode \<lparr>ftype = QueryResult, payload = []\<rparr>), Completed]))
        [\<lparr>ftype = QueryResult, payload = []\<rparr>], [])"
    by blast
  moreover from all have "feed drain_frames [] [concat ws]
      = Done ([\<lparr>ftype = QueryResult, payload = []\<rparr>], [])"
    by (auto dest!: spec [of _ "[concat ws]"] simp del: feed.simps)
  ultimately show ?thesis by blast
qed

end
