(* ===== verification/Daemon_App.thy ===== *)
theory Daemon_App
  imports GS_Prelude Protocol Framer State_Store Packet_Log Space_Packet Serial_Link Ipc_Server
begin

text \<open>
  The daemon: \<open>daemon/src/app.cpp\<close>. \<open>App::run\<close> owns the store, the log, the IPC server, the
  device link and the framer and joins them by callbacks; these callbacks are the handlers
  here. One thread runs the \<open>io_context\<close>, so a run of the daemon is a sequence of steps, each
  one completion handler or posted handler with everything it calls. The environment gives
  the clock's successive readings, the result of opening the serial port at each attempt
  (named by the generation the attempt starts from) and the CCSDSPack library. Console
  output is in \<open>Daemon_Console\<close>.
\<close>

section \<open>State\<close>

record 'p environment =
  lib :: "'p ccsdspack"
  clock :: "nat \<Rightarrow> u64"
  port_open :: "u64 \<Rightarrow> serial_result"

text \<open>\<open>ticks\<close> counts the readings of the clock.\<close>

record daemon =
  store :: state_store
  logger :: log_sink
  ipc :: ipc_server
  dev :: serial_link
  deframer :: framer
  ticks :: nat

section \<open>Frames\<close>

definition link_state_to_string :: "link_state \<Rightarrow> string" where
  "link_state_to_string s = (case s of Disconnected \<Rightarrow> ''DISCONNECTED''
     | Connected \<Rightarrow> ''CONNECTED'' | LinkError \<Rightarrow> ''ERROR'')"

definition make_packet_frame :: "MsgType \<Rightarrow> packet_meta \<Rightarrow> string \<Rightarrow> frame" where
  "make_packet_frame t m desc = \<lparr>ftype = t, payload = pack_packet_meta m desc\<rparr>"

definition make_error_frame :: "string \<Rightarrow> frame" where
  "make_error_frame message = \<lparr>ftype = ErrorMsg, payload = pack_string message\<rparr>"

definition make_query_result :: "string \<Rightarrow> frame" where
  "make_query_result message = \<lparr>ftype = QueryResult, payload = pack_string message\<rparr>"

definition format_stats :: "snapshot \<Rightarrow> string" where
  "format_stats n = ''RX packets='' @ dec (unat (rx_packets n))
     @ '' bytes='' @ dec (unat (rx_bytes n))
     @ '' | TX packets='' @ dec (unat (tx_packets n))
     @ '' bytes='' @ dec (unat (tx_bytes n))
     @ '' | decode_errors='' @ dec (unat (decode_errors n))
     @ '' framing_errors='' @ dec (unat (framing_error_count n))"

definition current_link_frame :: "state_store \<Rightarrow> frame" where
  "current_link_frame s =
     \<lparr>ftype = LinkStateMsg, payload = pack_string (link_state_to_string (link (snap s))
        @ (if link_detail (snap s) \<noteq> [] then '' '' @ link_detail (snap s) else []))\<rparr>"

definition announce :: "frame \<Rightarrow> daemon \<Rightarrow> daemon" where
  "announce f d = d\<lparr>ipc := broadcast f (ipc d)\<rparr>"

definition reply :: "nat \<Rightarrow> frame \<Rightarrow> daemon \<Rightarrow> daemon" where
  "reply i f d = d\<lparr>ipc := send_to i f (ipc d)\<rparr>"

definition publish_link_state :: "daemon \<Rightarrow> daemon" where
  "publish_link_state d = announce (current_link_frame (store d)) d"

definition report_link :: "link_state \<Rightarrow> string \<Rightarrow> daemon \<Rightarrow> daemon" where
  "report_link st det d = publish_link_state (d\<lparr>store := set_link st det (store d)\<rparr>)"

section \<open>Packets from the device\<close>

text \<open>\<open>now_ns()\<close>, called once by \<open>decode_meta\<close> and once more for an undecoded packet.\<close>

definition tick :: "daemon \<Rightarrow> daemon" where
  "tick d = d\<lparr>ticks := Suc (ticks d)\<rparr>"

definition rx_record :: "bool \<Rightarrow> packet_meta \<Rightarrow> string \<Rightarrow> u64 \<Rightarrow> bytes \<Rightarrow> packet_record" where
  "rx_record decoded m err now bs =
     \<lparr>rec_ts = (if decoded then ts_ns m else now),
      rec_dir = (if decoded \<and> ptyp m = 1 then TC else TM),
      rec_apid = (if decoded then apid m else 0),
      rec_seq = (if decoded then seqc m else 0),
      rec_service = (if decoded then svc m else 0),
      rec_subservice = (if decoded then ssvc m else 0),
      rec_summary = (if decoded then ''RX'' else ''RX INVALID: '' @ err),
      rec_raw = bs\<rparr>"

definition packet_received :: "'p environment \<Rightarrow> bytes \<Rightarrow> daemon \<Rightarrow> daemon cpp" where
  "packet_received E bs d =
     bind_cpp (decode_meta (lib E) (clock E (ticks d)) bs) (\<lambda>(decoded, m, err).
       let d = tick d;
           r = rx_record decoded m err (clock E (ticks d)) bs;
           d = (if decoded then d else tick d);
           d = d\<lparr>store := on_packet r (store d), logger := store_record r (logger d)\<rparr>
       in if \<not> decoded
          then Done (announce (make_error_frame (rec_summary r))
                 (d\<lparr>store := on_decode_error (store d)\<rparr>))
          else Done (announce (make_packet_frame PacketRx m ''RX'') d))"

definition link_bytes :: "'p environment \<Rightarrow> bytes \<Rightarrow> daemon \<Rightarrow> daemon cpp" where
  "link_bytes E bs d =
     bind_cpp (push_bytes (declared_packet_size (lib E)) bs (deframer d))
       (\<lambda>(f, ps). fold_cpp (packet_received E) ps (d\<lparr>deframer := f\<rparr>))"

section \<open>Callbacks of the link\<close>

fun link_callback :: "'p environment \<Rightarrow> link_out \<Rightarrow> daemon \<Rightarrow> daemon cpp" where
  "link_callback E (OnState op det) d =
     Done (report_link (if op then Connected else Disconnected) det d)"
| "link_callback E (OnError err) d = Done (report_link LinkError err d)"
| "link_callback E (OnBytes bs) d = link_bytes E bs d"

text \<open>A link operation and its callbacks; none of them looks at the link again.\<close>

definition apply_link :: "'p environment \<Rightarrow> serial_link \<times> link_out list \<Rightarrow> daemon \<Rightarrow> daemon cpp" where
  "apply_link E r d = fold_cpp (link_callback E) (snd r) (d\<lparr>dev := fst r\<rparr>)"

definition start_link :: "'p environment \<Rightarrow> daemon \<Rightarrow> daemon cpp" where
  "start_link E d = apply_link E (link_start (port_open E (generation (dev d))) (dev d)) d"

definition stop_link :: "'p environment \<Rightarrow> daemon \<Rightarrow> daemon cpp" where
  "stop_link E d = apply_link E (link_stop (dev d)) d"

section \<open>Frames from a client\<close>

definition packet_send :: "'p environment \<Rightarrow> nat \<Rightarrow> bytes \<Rightarrow> daemon \<Rightarrow> daemon cpp" where
  "packet_send E i bs d =
     bind_cpp (decode_meta (lib E) (clock E (ticks d)) bs) (\<lambda>(decoded, m, err).
       let d = tick d in
       if \<not> decoded
       then Done (reply i (make_error_frame (''Rejected outbound packet: '' @ err)) d)
       else if \<not> opened (dev d)
       then Done (reply i (make_error_frame
              ''Rejected outbound packet: device link is disconnected'') d)
       else let d = d\<lparr>dev := write_bytes bs (dev d)\<rparr>;
                d = d\<lparr>store := on_tx (length bs) (store d)\<rparr>
            in Done (announce (make_packet_frame PacketTx m ''TX'') d))"

definition run_command :: "'p environment \<Rightarrow> nat \<Rightarrow> string \<Rightarrow> daemon \<Rightarrow> daemon cpp" where
  "run_command E i command d =
     (if command = ''CONNECT'' then
        (if opened (dev d) then Done (reply i (current_link_frame (store d)) d) else start_link E d)
      else if command = ''DISCONNECT'' then stop_link E d
      else if command = ''RECONNECT'' then bind_cpp (stop_link E d) (start_link E)
      else if command = ''PING'' then Done (reply i (make_query_result ''PONG'') d)
      else if command = ''STATUS'' then Done (reply i (current_link_frame (store d)) d)
      else if command = ''STATS'' then
        Done (reply i (make_query_result (format_stats (snap (store d)))) d)
      else Done (reply i (make_error_frame (''Unsupported daemon command: '' @ command)) d))"

definition frame_received :: "'p environment \<Rightarrow> nat \<Rightarrow> frame \<Rightarrow> daemon \<Rightarrow> daemon cpp" where
  "frame_received E i f d =
     (if ftype f = PacketSend then packet_send E i (payload f) d
      else bind_cpp (unpack_string (payload f)) (\<lambda>r. case r of
          None \<Rightarrow> Done (reply i (make_error_frame ''Invalid IPC command payload'') d)
        | Some command \<Rightarrow> run_command E i (uppercase command) d))"

section \<open>Runs\<close>

datatype daemon_event =
    Accepted
  | SessionPosted nat
  | SessionRead nat "string + bytes"
  | SessionWritten nat "string option"
  | LinkPosted
  | LinkCompleted link_op io_result

text \<open>A handler of session \<open>i\<close> and the frames it hands to \<open>on_frame\<close>.\<close>

definition session_handler ::
    "'p environment \<Rightarrow> nat \<Rightarrow> session_event \<Rightarrow> daemon \<Rightarrow> daemon cpp option" where
  "session_handler E i e d =
     (case get_session i (ipc d) of None \<Rightarrow> None
      | Some s \<Rightarrow> map_option (\<lambda>r. bind_cpp r (\<lambda>(t, fs).
          fold_cpp (frame_received E i) fs (d\<lparr>ipc := update_session i (\<lambda>_. t) (ipc d)\<rparr>)))
            (session_step e s))"

definition link_handler :: "'p environment \<Rightarrow> link_event \<Rightarrow> daemon \<Rightarrow> daemon cpp option" where
  "link_handler E e d = map_option (\<lambda>r. bind_cpp r (\<lambda>r. apply_link E r d)) (link_step e (dev d))"

text \<open>An accepted client is greeted by its session and told the link state.\<close>

definition client_accepted :: "daemon \<Rightarrow> daemon" where
  "client_accepted d = reply (next_id (ipc d)) (current_link_frame (store d))
     (d\<lparr>ipc := accept_session (ipc d)\<rparr>)"

fun daemon_step :: "'p environment \<Rightarrow> daemon_event \<Rightarrow> daemon \<Rightarrow> daemon cpp option" where
  "daemon_step E Accepted d = Some (Done (client_accepted d))"
| "daemon_step E (SessionPosted i) d = session_handler E i RunSend d"
| "daemon_step E (SessionRead i r) d = session_handler E i (ReadDone r) d"
| "daemon_step E (SessionWritten i ec) d = session_handler E i (WriteDone ec) d"
| "daemon_step E LinkPosted d = link_handler E RunPosted d"
| "daemon_step E (LinkCompleted p r) d = link_handler E (Complete p r) d"

text \<open>\<open>App::run\<close> up to \<open>io.run()\<close>; the port text may make the link's constructor throw.\<close>

definition daemon_init :: "'p environment \<Rightarrow> string \<Rightarrow> u32 \<Rightarrow> log_sink \<Rightarrow> number_error + daemon cpp" where
  "daemon_init E port b k =
     (case new_link port b of
        Inl e \<Rightarrow> Inl e
      | Inr l \<Rightarrow>
          (let d = \<lparr>store = new_store 2000, logger = k, ipc = new_server, dev = l,
                    deframer = set_on_packet new_framer, ticks = 0\<rparr>;
               d = report_link Disconnected [] d
           in Inr (if port \<noteq> [] then start_link E d else Done d)))"

inductive daemon_reach :: "'p environment \<Rightarrow> daemon \<Rightarrow> bool" for E where
  daemon_starts: "daemon_init E port b k = Inr (Done d) \<Longrightarrow> daemon_reach E d"
| daemon_steps: "daemon_reach E d \<Longrightarrow> daemon_step E e d = Some (Done t) \<Longrightarrow> daemon_reach E t"

fun daemon_run :: "'p environment \<Rightarrow> daemon_event list \<Rightarrow> daemon \<Rightarrow> daemon cpp option" where
  "daemon_run E [] d = Some (Done d)"
| "daemon_run E (e # es) d =
     (case daemon_step E e d of
        Some (Done t) \<Rightarrow> daemon_run E es t
      | r \<Rightarrow> r)"

lemma daemon_run_reach:
  "daemon_reach E d \<Longrightarrow> daemon_run E es d = Some (Done t) \<Longrightarrow> daemon_reach E t"
proof (induction es arbitrary: d)
  case Nil
  then show ?case by simp
next
  case (Cons e es)
  then show ?case
    by (auto split: option.splits cpp.splits intro: daemon_steps)
qed

lemmas daemon_ops [unfold_ops] = announce_def reply_def publish_link_state_def report_link_def
  tick_def client_accepted_def

section \<open>Invariants of the store and the link\<close>

lemma link_outs_single:
  assumes "link_step e l = Some (Done (m, outs))"
  shows "outs = [] \<or> (\<exists>b x. outs = [OnState b x]) \<or> (\<exists>x. outs = [OnError x])
    \<or> (\<exists>bs. outs = [OnBytes bs])"
proof (cases e)
  case (Complete p r)
  with assms show ?thesis
    by (cases p) (auto simp: on_resolve_def on_connect_def on_read_def written_def
        handle_io_error_def Let_def split: sum.splits if_splits)
next
  case (Start r)
  with assms show ?thesis
    by (cases r) (auto simp: link_start_def Let_def split: if_splits)
next
  case RunPosted
  with assms show ?thesis by (auto split: list.splits)
qed (use assms in \<open>auto simp: link_stop_def\<close>)

lemma daemon_fields [simp]:
  "store (announce f d) = store d" "dev (announce f d) = dev d"
  "logger (announce f d) = logger d" "deframer (announce f d) = deframer d"
  "ticks (announce f d) = ticks d" "ipc (announce f d) = broadcast f (ipc d)"
  "store (reply i f d) = store d" "dev (reply i f d) = dev d"
  "logger (reply i f d) = logger d" "deframer (reply i f d) = deframer d"
  "ticks (reply i f d) = ticks d" "ipc (reply i f d) = send_to i f (ipc d)"
  "store (tick d) = store d" "dev (tick d) = dev d" "logger (tick d) = logger d"
  "deframer (tick d) = deframer d" "ticks (tick d) = Suc (ticks d)" "ipc (tick d) = ipc d"
  "store (report_link st x d) = set_link st x (store d)" "dev (report_link st x d) = dev d"
  "logger (report_link st x d) = logger d" "deframer (report_link st x d) = deframer d"
  "ticks (report_link st x d) = ticks d"
  "store (client_accepted d) = store d" "dev (client_accepted d) = dev d"
  by (simp_all add: daemon_ops)

text \<open>A command either answers its client or operates the link.\<close>

definition command_shape :: "'p environment \<Rightarrow> nat \<Rightarrow> daemon \<Rightarrow> daemon cpp \<Rightarrow> bool" where
  "command_shape E i d r \<longleftrightarrow> (\<exists>f. r = Done (reply i f d)) \<or> r = start_link E d
     \<or> r = stop_link E d \<or> r = bind_cpp (stop_link E d) (start_link E)"

lemma command_shape_if:
  "command_shape E i d r \<Longrightarrow> command_shape E i d q \<Longrightarrow> command_shape E i d (if b then r else q)"
  by simp

lemma run_command_shape:
  "(\<exists>f. run_command E i c d = Done (reply i f d)) \<or> run_command E i c d = start_link E d
    \<or> run_command E i c d = stop_link E d
    \<or> run_command E i c d = bind_cpp (stop_link E d) (start_link E)"
proof -
  have "command_shape E i d (run_command E i c d)"
    unfolding run_command_def by (intro command_shape_if) (auto simp: command_shape_def)
  then show ?thesis by (simp add: command_shape_def)
qed

lemma run_command_cases [case_names reply start stop restart]:
  assumes "run_command E i c d = Done t"
  obtains f where "t = reply i f d" | "start_link E d = Done t" | "stop_link E d = Done t"
    | u where "stop_link E d = Done u" "start_link E u = Done t"
  using run_command_shape [of E i c d] unfolding assms
proof (elim disjE exE)
  assume "Done t = bind_cpp (stop_link E d) (start_link E)"
  then have "bind_cpp (stop_link E d) (start_link E) = Done t" by (rule sym)
  then show thesis using that(4) by auto
qed (use that(1-3) in auto)

text \<open>
  What a property of the store and the link has to satisfy to hold in every reachable state
  of the daemon: the laws speak of the components' operations only.
\<close>

locale daemon_invariant =
  fixes E :: "'p environment" and Q :: "state_store \<Rightarrow> serial_link \<Rightarrow> bool"
  assumes initially: "new_link port b = Inr l \<Longrightarrow> Q (set_link Disconnected [] (new_store 2000)) l"
    and received: "decode_meta (lib E) now bs = Done (ok, mt, err) \<Longrightarrow> Q s l \<Longrightarrow>
      Q (on_packet (rx_record ok mt err now' bs) s) l"
    and undecoded: "Q s l \<Longrightarrow> Q (on_decode_error s) l"
    and sent: "routable (lib E) bs \<Longrightarrow> opened l \<Longrightarrow> Q s l \<Longrightarrow> Q (on_tx (length bs) s) (write_bytes bs l)"
    and silent: "link_step e l = Some (Done (m, [])) \<Longrightarrow> \<forall>b. e \<noteq> Write b \<Longrightarrow> Q s l \<Longrightarrow> Q s m"
    and bytes: "link_step e l = Some (Done (m, [OnBytes bs])) \<Longrightarrow> Q s l \<Longrightarrow> Q s m"
    and state: "link_step e l = Some (Done (m, [OnState op x])) \<Longrightarrow> Q s l \<Longrightarrow>
      Q (set_link (if op then Connected else Disconnected) x s) m"
    and failed: "link_step e l = Some (Done (m, [OnError x])) \<Longrightarrow> Q s l \<Longrightarrow> Q (set_link LinkError x s) m"
begin

lemma inv_packet:
  assumes "Q (store d) (dev d)" and "packet_received E bs d = Done t"
  shows "Q (store t) (dev t)"
  using assms received undecoded
  by (fastforce simp: packet_received_def Let_def split: if_splits)

lemma inv_bytes:
  assumes "Q (store d) (dev d)" and "link_bytes E bs d = Done t"
  shows "Q (store t) (dev t)"
proof -
  obtain f ps where f: "push_bytes (declared_packet_size (lib E)) bs (deframer d) = Done (f, ps)"
    using push_bytes_total by blast
  with assms(2) have r: "fold_cpp (packet_received E) ps (d\<lparr>deframer := f\<rparr>) = Done t"
    by (simp add: link_bytes_def)
  show ?thesis
    by (rule fold_cpp_invariant [OF r]) (use assms(1) inv_packet in auto)
qed

lemma inv_apply_link:
  assumes "Q (store d) (dev d)" and "link_step e (dev d) = Some (Done r)" and "\<forall>b. e \<noteq> Write b"
    and "apply_link E r d = Done t"
  shows "Q (store t) (dev t)"
proof -
  obtain m outs where r: "r = (m, outs)" by (cases r)
  have st: "link_step e (dev d) = Some (Done (m, outs))" using assms(2) r by simp
  consider "outs = []" | b x where "outs = [OnState b x]" | x where "outs = [OnError x]"
    | bs where "outs = [OnBytes bs]"
    using link_outs_single [OF st] by blast
  then show ?thesis
  proof cases
    case 1
    with st assms silent r show ?thesis by (auto simp: apply_link_def)
  next
    case 2
    with st assms state r show ?thesis by (auto simp: apply_link_def)
  next
    case 3
    with st assms failed r show ?thesis by (auto simp: apply_link_def)
  next
    case (4 bs)
    have "Q (store (d\<lparr>dev := m\<rparr>)) (dev (d\<lparr>dev := m\<rparr>))"
      using st 4 bytes assms(1) by simp
    moreover have "link_bytes E bs (d\<lparr>dev := m\<rparr>) = Done t"
      using assms(4) r 4 by (auto simp: apply_link_def)
    ultimately show ?thesis by (rule inv_bytes)
  qed
qed

lemma inv_start: "Q (store d) (dev d) \<Longrightarrow> start_link E d = Done t \<Longrightarrow> Q (store t) (dev t)"
  using inv_apply_link [of d "Start (port_open E (generation (dev d)))"]
  by (simp add: start_link_def)

lemma inv_stop: "Q (store d) (dev d) \<Longrightarrow> stop_link E d = Done t \<Longrightarrow> Q (store t) (dev t)"
  using inv_apply_link [of d Stop] by (simp add: stop_link_def)

lemma inv_send:
  assumes "Q (store d) (dev d)" and "packet_send E i bs d = Done t"
  shows "Q (store t) (dev t)"
  using assms sent
  by (auto simp: packet_send_def Let_def dest: decode_meta_result(1) split: if_splits)

lemma inv_command:
  assumes "Q (store d) (dev d)" and "run_command E i c d = Done t"
  shows "Q (store t) (dev t)"
  using assms(2)
proof (cases rule: run_command_cases)
  case (restart u)
  with inv_stop [OF assms(1)] show ?thesis by (blast intro: inv_start)
qed (use assms(1) in \<open>auto intro: inv_start [OF assms(1)] inv_stop [OF assms(1)]\<close>)

lemma inv_frame:
  assumes "Q (store d) (dev d)" and "frame_received E i f d = Done t"
  shows "Q (store t) (dev t)"
proof (cases "ftype f = PacketSend")
  case True
  with assms(2) have "packet_send E i (payload f) d = Done t" by (simp add: frame_received_def)
  with assms(1) show ?thesis by (rule inv_send)
next
  case False
  with assms(2) obtain r where "(case r of
      None \<Rightarrow> Done (reply i (make_error_frame ''Invalid IPC command payload'') d)
    | Some c \<Rightarrow> run_command E i (uppercase c) d) = Done t"
    by (auto simp: frame_received_def)
  then show ?thesis
    by (cases r) (auto intro: assms(1) inv_command [OF assms(1)])
qed

lemma inv_session:
  assumes "Q (store d) (dev d)" and "session_handler E i e d = Some (Done t)"
  shows "Q (store t) (dev t)"
proof -
  from assms(2) obtain s r where "get_session i (ipc d) = Some s" "session_step e s = Some r"
    "bind_cpp r (\<lambda>(t, fs). fold_cpp (frame_received E i) fs
       (d\<lparr>ipc := update_session i (\<lambda>_. t) (ipc d)\<rparr>)) = Done t"
    by (auto simp: session_handler_def split: option.splits)
  then obtain u fs where r: "fold_cpp (frame_received E i) fs
      (d\<lparr>ipc := update_session i (\<lambda>_. u) (ipc d)\<rparr>) = Done t"
    by auto
  show ?thesis
    by (rule fold_cpp_invariant [OF r]) (use assms(1) inv_frame in auto)
qed

lemma inv_step:
  assumes "Q (store d) (dev d)" and "daemon_step E e d = Some (Done t)"
  shows "Q (store t) (dev t)"
proof (cases e)
  case Accepted
  with assms show ?thesis by auto
next
  case LinkPosted
  with assms(2) obtain r where "link_step RunPosted (dev d) = Some (Done r)" "apply_link E r d = Done t"
    by (auto simp: link_handler_def simp del: link_step.simps)
  with inv_apply_link [OF assms(1)] show ?thesis by blast
next
  case (LinkCompleted p x)
  with assms(2) obtain r where "link_step (Complete p x) (dev d) = Some (Done r)" "apply_link E r d = Done t"
    by (auto simp: link_handler_def simp del: link_step.simps)
  with inv_apply_link [OF assms(1)] show ?thesis by blast
qed (use assms inv_session in auto)

lemma holds_reachable: "daemon_reach E d \<Longrightarrow> Q (store d) (dev d)"
proof (induction rule: daemon_reach.induct)
  case (daemon_starts port b k d)
  then obtain l where l: "new_link port b = Inr l" by (auto simp: daemon_init_def split: sum.splits)
  with initially [OF l] daemon_starts show ?case
    by (auto simp: daemon_init_def Let_def split: if_splits elim!: inv_start [rotated])
next
  case (daemon_steps d e t)
  then show ?case by (blast intro: inv_step)
qed

end

section \<open>Instances of the invariant\<close>

text \<open>The reported link state is the state of the link.\<close>

interpretation truth: daemon_invariant E "\<lambda>s l. link (snap s) = Connected \<longleftrightarrow> opened l" for E
proof
  fix e and l m :: serial_link and s :: state_store
  show "link_step e l = Some (Done (m, [])) \<Longrightarrow> link (snap s) = Connected \<longleftrightarrow> opened l \<Longrightarrow>
      link (snap s) = Connected \<longleftrightarrow> opened m"
    by (auto dest: link_step_notifies)
  show "link_step e l = Some (Done (m, [OnBytes bs])) \<Longrightarrow> link (snap s) = Connected \<longleftrightarrow> opened l \<Longrightarrow>
      link (snap s) = Connected \<longleftrightarrow> opened m" for bs
    by (auto dest: link_step_notifies)
  show "link_step e l = Some (Done (m, [OnState op x])) \<Longrightarrow>
      link (snap (set_link (if op then Connected else Disconnected) x s)) = Connected \<longleftrightarrow> opened m" for op x
    by (auto dest: link_step_notifies simp: set_link_def)
  show "link_step e l = Some (Done (m, [OnError x])) \<Longrightarrow>
      link (snap (set_link LinkError x s)) = Connected \<longleftrightarrow> opened m" for x
    by (auto dest: link_step_notifies simp: set_link_def)
qed (auto simp: new_link_def set_link_def on_packet_def on_decode_error_def on_tx_def Let_def
    write_bytes_def split: sum.splits)

text \<open>Nothing in the daemon counts framing errors into the store.\<close>

interpretation uncounted: daemon_invariant E "\<lambda>s l. framing_error_count (snap s) = 0" for E
  by unfold_locales (auto simp: set_link_def on_packet_def on_decode_error_def on_tx_def Let_def
    new_store_def empty_snapshot_def)

text \<open>
  What the ring may hold, given that the library's primary header has the field widths of
  the CCSDS Space Packet: 11 bits of APID, 14 bits of sequence count.
\<close>

definition header_fits :: "'p ccsdspack \<Rightarrow> bool" where
  "header_fits L \<longleftrightarrow> (\<forall>b h. read_primary L b = Inr h \<longrightarrow>
     unat (hdr_apid h) < 2048 \<and> unat (hdr_seq_count h) < 16384)"

definition record_ok :: "'p ccsdspack \<Rightarrow> packet_record \<Rightarrow> bool" where
  "record_ok L r \<longleftrightarrow> unat (rec_apid r) < 2048 \<and> unat (rec_seq r) < 16384
     \<and> (if routable L (rec_raw r) then rec_summary r = ''RX''
        else rec_summary r \<noteq> ''RX'' \<and> rec_dir r = TM \<and> rec_apid r = 0 \<and> rec_seq r = 0
          \<and> rec_service r = 0 \<and> rec_subservice r = 0)"

lemma service_fields_primary [simp]:
  "apid (service_fields r m) = apid m" "seqc (service_fields r m) = seqc m"
  by (auto simp: service_fields_def split: option.splits)

lemma decode_meta_fits:
  "header_fits L \<Longrightarrow> decode_meta L now p = Done (True, m, e) \<Longrightarrow>
     unat (apid m) < 2048 \<and> unat (seqc m) < 16384"
  by (auto simp: decode_meta_def Let_def header_fits_def fill_primary_meta_def
      split: sum.splits if_splits)

lemma record_ok_received:
  assumes "header_fits L" and "decode_meta L now bs = Done (ok, m, err)"
  shows "record_ok L (rx_record ok m err now' bs)"
  using decode_meta_fits [OF assms(1)] decode_meta_result(1) [OF assms(2)] assms(2)
  by (cases ok) (auto simp: record_ok_def rx_record_def)

interpretation typed: daemon_invariant E
    "\<lambda>s l. header_fits (lib E) \<longrightarrow> (\<forall>r \<in> set (ring s). record_ok (lib E) r)" for E
proof (unfold_locales, goal_cases)
  case (2 now bs ok mt err s l now')
  have "set (pop_over k rs) \<subseteq> set rs" for k and rs :: "packet_record list"
    by (induction k rs rule: pop_over.induct) (auto simp: pop_over.simps)
  with 2 record_ok_received [of "lib E" now bs ok mt err now'] show ?case
    by (fastforce simp: on_packet_def Let_def)
qed (auto simp: set_link_def on_decode_error_def on_tx_def new_store_def)

text \<open>Everything on its way to the device: posted, queued and being written.\<close>

definition device_traffic :: "serial_link \<Rightarrow> bytes list" where
  "device_traffic l = posted l @ tx_queue l @ concat (map op_buffer (pending l))"

lemma op_buffer_take: "set (concat (map op_buffer (remove1 p ps))) \<subseteq> set (concat (map op_buffer ps))"
  using set_remove1_subset [of p ps] by auto

lemma traffic_complete: "set (device_traffic (fst (completed p r l))) \<subseteq> set (device_traffic l)"
proof (cases p)
  case (WriteOp g b)
  show ?thesis
    by (cases r; cases "tx_queue l")
      (auto simp: WriteOp written_def handle_io_error_def next_write_def start_op_def Let_def
        device_traffic_def split: if_splits)
qed (auto simp: on_resolve_def on_connect_def on_read_def handle_io_error_def Let_def do_read_def
    start_op_def device_traffic_def split: sum.splits)

lemma traffic_step:
  assumes "link_step e l = Some (Done (m, outs))" and "\<forall>b. e \<noteq> Write b"
  shows "set (device_traffic m) \<subseteq> set (device_traffic l)"
proof (cases e)
  case (Complete p r)
  with assms(1) have m: "m = fst (completed p r (take_op p l))"
    by (auto simp: take_op_def split: if_splits)
  have "set (device_traffic (take_op p l)) \<subseteq> set (device_traffic l)"
    using op_buffer_take [of p "pending l"] by (auto simp: device_traffic_def take_op_def)
  with traffic_complete [of p r "take_op p l"] m show ?thesis by blast
next
  case (Start r)
  with assms(1) show ?thesis
    by (cases r) (auto simp: link_start_def Let_def do_read_def device_traffic_def start_op_def
        split: if_splits)
next
  case RunPosted
  with assms(1) obtain b ps where "posted l = b # ps" "m = after_post b (l\<lparr>posted := ps\<rparr>)"
    by (auto split: list.splits)
  then show ?thesis
    by (auto simp: after_post_def Let_def next_write_def start_op_def device_traffic_def)
qed (use assms in \<open>auto simp: link_stop_def device_traffic_def\<close>)

interpretation guarded: daemon_invariant E "\<lambda>s l. \<forall>p \<in> set (device_traffic l). routable (lib E) p" for E
proof
  fix e and l m :: serial_link and s s' :: state_store and outs
  have keep: "link_step e l = Some (Done (m, outs)) \<Longrightarrow> \<forall>b. e \<noteq> Write b \<Longrightarrow>
      \<forall>p \<in> set (device_traffic l). routable (lib E) p \<Longrightarrow>
      \<forall>p \<in> set (device_traffic m). routable (lib E) p" for outs
    using traffic_step [of e l m outs] by blast
  show "link_step e l = Some (Done (m, [])) \<Longrightarrow> \<forall>b. e \<noteq> Write b \<Longrightarrow>
      \<forall>p \<in> set (device_traffic l). routable (lib E) p \<Longrightarrow>
      \<forall>p \<in> set (device_traffic m). routable (lib E) p"
    by (rule keep)
  have loud: "\<forall>b. e \<noteq> Write b" if "link_step e l = Some (Done (m, out # os))" for out os
    using that by auto
  show "link_step e l = Some (Done (m, [OnBytes bs])) \<Longrightarrow>
      \<forall>p \<in> set (device_traffic l). routable (lib E) p \<Longrightarrow>
      \<forall>p \<in> set (device_traffic m). routable (lib E) p" for bs
    using keep loud by blast
  show "link_step e l = Some (Done (m, [OnState op x])) \<Longrightarrow>
      \<forall>p \<in> set (device_traffic l). routable (lib E) p \<Longrightarrow>
      \<forall>p \<in> set (device_traffic m). routable (lib E) p" for op x
    using keep loud by blast
  show "link_step e l = Some (Done (m, [OnError x])) \<Longrightarrow>
      \<forall>p \<in> set (device_traffic l). routable (lib E) p \<Longrightarrow>
      \<forall>p \<in> set (device_traffic m). routable (lib E) p" for x
    using keep loud by blast
qed (auto simp: device_traffic_def new_link_def write_bytes_def split: sum.splits)

section \<open>The IPC server and the framer inside the daemon\<close>

definition parts_ok :: "daemon \<Rightarrow> bool" where
  "parts_ok d \<longleftrightarrow> server_inv (ipc d) \<and> has_callback (deframer d) \<and> length (acc (deframer d)) < 65542"

lemma server_inv_send: "server_inv srv \<Longrightarrow> server_inv (send_to i f srv)"
  by (simp add: send_to_def server_inv_update)

lemma parts_ok_ops:
  "parts_ok d \<Longrightarrow> parts_ok (announce f d)" "parts_ok d \<Longrightarrow> parts_ok (reply i f d)"
  "parts_ok d \<Longrightarrow> parts_ok (report_link st x d)" "parts_ok (tick d) = parts_ok d"
  "parts_ok (d\<lparr>store := s\<rparr>) = parts_ok d" "parts_ok (d\<lparr>logger := k\<rparr>) = parts_ok d"
  "parts_ok (d\<lparr>dev := l\<rparr>) = parts_ok d"
  "parts_ok d \<Longrightarrow> parts_ok (d\<lparr>ipc := update_session i h (ipc d)\<rparr>)"
  "parts_ok d \<Longrightarrow> parts_ok (client_accepted d)"
  by (simp_all add: parts_ok_def daemon_ops server_inv_broadcast server_inv_send
      server_inv_update server_inv_accept)

lemma parts_ok_packet: "packet_received E bs d = Done t \<Longrightarrow> parts_ok d \<Longrightarrow> parts_ok t"
  by (auto simp: packet_received_def Let_def parts_ok_ops split: if_splits)

lemma parts_ok_bytes:
  assumes "link_bytes E bs d = Done t" and "parts_ok d"
  shows "parts_ok t"
proof -
  obtain f ps where f: "push_bytes (declared_packet_size (lib E)) bs (deframer d) = Done (f, ps)"
    using push_bytes_total by blast
  with assms(1) have r: "fold_cpp (packet_received E) ps (d\<lparr>deframer := f\<rparr>) = Done t"
    by (simp add: link_bytes_def)
  have "parts_ok (d\<lparr>deframer := f\<rparr>)"
    using assms(2) push_bytes_keeps [OF f] by (simp add: parts_ok_def)
  with r show ?thesis
    by (rule fold_cpp_invariant) (rule parts_ok_packet)
qed

lemma parts_ok_callback: "link_callback E out d = Done t \<Longrightarrow> parts_ok d \<Longrightarrow> parts_ok t"
  by (cases out) (auto simp: parts_ok_ops intro: parts_ok_bytes)

lemma parts_ok_apply: "apply_link E r d = Done t \<Longrightarrow> parts_ok d \<Longrightarrow> parts_ok t"
  unfolding apply_link_def
  by (erule fold_cpp_invariant) (auto simp: parts_ok_ops intro: parts_ok_callback)

lemma parts_ok_frame:
  assumes "frame_received E i f d = Done t" and "parts_ok d"
  shows "parts_ok t"
proof (cases "ftype f = PacketSend")
  case True
  with assms show ?thesis
    by (auto simp: frame_received_def packet_send_def Let_def parts_ok_ops split: if_splits)
next
  case False
  then obtain r where r: "(case r of
      None \<Rightarrow> Done (reply i (make_error_frame ''Invalid IPC command payload'') d)
    | Some c \<Rightarrow> run_command E i (uppercase c) d) = Done t"
    using assms(1) by (auto simp: frame_received_def)
  show ?thesis
  proof (cases r)
    case None
    with r assms(2) show ?thesis by (auto simp: parts_ok_ops)
  next
    case (Some c)
    with r have "run_command E i (uppercase c) d = Done t" by simp
    then show ?thesis
      using assms(2)
      by (cases rule: run_command_cases)
        (auto simp: start_link_def stop_link_def parts_ok_ops dest: parts_ok_apply)
  qed
qed

lemma parts_ok_step:
  assumes "daemon_step E e d = Some (Done t)" and "parts_ok d"
  shows "parts_ok t"
proof -
  have session: "parts_ok t" if h: "session_handler E i x d = Some (Done t)" for i x
  proof -
    from h obtain u fs where "fold_cpp (frame_received E i) fs
        (d\<lparr>ipc := update_session i (\<lambda>_. u) (ipc d)\<rparr>) = Done t"
      by (auto simp: session_handler_def split: option.splits)
    moreover have "parts_ok (d\<lparr>ipc := update_session i (\<lambda>_. u) (ipc d)\<rparr>)"
      using assms(2) by (simp add: parts_ok_ops)
    ultimately show ?thesis
      by (rule fold_cpp_invariant) (rule parts_ok_frame)
  qed
  have link: "parts_ok t" if "link_handler E x d = Some (Done t)" for x
    using that assms(2) by (auto simp: link_handler_def dest: parts_ok_apply)
  show ?thesis
    using assms session link by (cases e) (auto simp: parts_ok_ops)
qed

lemma parts_ok_reach: "daemon_reach E d \<Longrightarrow> parts_ok d"
proof (induction rule: daemon_reach.induct)
  case (daemon_starts port b k d)
  have "parts_ok \<lparr>store = s, logger = k, ipc = new_server, dev = l,
      deframer = set_on_packet new_framer, ticks = 0\<rparr>" for s l
    by (simp add: parts_ok_def server_inv_new set_on_packet_def new_framer_def)
  with daemon_starts show ?case
    by (auto simp: daemon_init_def Let_def start_link_def parts_ok_ops split: sum.splits if_splits
        dest: parts_ok_apply)
next
  case (daemon_steps d e t)
  then show ?case by (blast intro: parts_ok_step)
qed

text \<open>The ring of the daemon's store.\<close>

interpretation ring_bound: daemon_invariant E "\<lambda>s l. cap s = 2000 \<and> length (ring s) \<le> 2000" for E
  by unfold_locales (auto simp: set_link_def on_packet_def on_decode_error_def on_tx_def Let_def
    new_store_def pop_over_last_n)

section \<open>Packets from the device, as a whole\<close>

text \<open>
  The specification of what a sequence of packets causes: the record of each and the frame
  its reception is announced with. A packet that is not decoded costs a second reading of
  the clock.
\<close>

fun reception :: "'p environment \<Rightarrow> nat \<Rightarrow> bytes list \<Rightarrow> (packet_record \<times> frame) list" where
  "reception E n [] = []"
| "reception E n (p # ps) =
     (case decode_meta (lib E) (clock E n) p of
        UB \<Rightarrow> []
      | Done (ok, m, e) \<Rightarrow>
          (let r = rx_record ok m e (clock E (Suc n)) p
           in if ok then (r, make_packet_frame PacketRx m ''RX'') # reception E (Suc n) ps
              else (r, make_error_frame (rec_summary r)) # reception E (Suc (Suc n)) ps))"

definition session_told :: "nat \<Rightarrow> bytes list \<Rightarrow> daemon \<Rightarrow> daemon \<Rightarrow> bool" where
  "session_told j bs d t \<longleftrightarrow>
     (\<forall>s. get_session j (ipc d) = Some s \<and> alive s \<longrightarrow>
        (\<exists>u. get_session j (ipc t) = Some u \<and> alive u \<and> send_posted u = send_posted s @ bs))"

lemma session_told_refl: "session_told j [] d d"
  by (simp add: session_told_def)

lemma session_told_trans:
  "session_told j bs d t \<Longrightarrow> session_told j cs t u \<Longrightarrow> session_told j (bs @ cs) d u"
  by (fastforce simp: session_told_def)

lemma session_told_announce:
  "server_inv (ipc d) \<Longrightarrow> ipc t = broadcast f (ipc d) \<Longrightarrow> session_told j [encode f] d t"
  by (simp add: session_told_def get_session_broadcast) (simp add: session_send_def)

lemma session_told_read:
  assumes "get_session i (ipc d) = Some s"
  shows "session_told j [] d (d\<lparr>ipc := update_session i (\<lambda>_. session_do_read (s\<lparr>rxbuf := b\<rparr>)) (ipc d)\<rparr>)"
  using assms by (auto simp: session_told_def get_session_update session_do_read_def alive_def)

lemma packet_received_effect:
  assumes "sizes_sane (lib E)" and "parts_ok d"
  shows "\<exists>t r f n. packet_received E p d = Done t
    \<and> (\<forall>ps. reception E (ticks d) (p # ps) = (r, f) # reception E n ps) \<and> ticks t = n
    \<and> ring (store t) = pop_over (cap (store d)) (ring (store d) @ [r]) \<and> cap (store t) = cap (store d)
    \<and> rx_packets (snap (store t)) = rx_packets (snap (store d)) + 1
    \<and> logger t = store_record r (logger d) \<and> dev t = dev d \<and> rec_raw r = p
    \<and> session_told j [encode f] d t"
proof -
  obtain ok m e where m: "decode_meta (lib E) (clock E (ticks d)) p = Done (ok, m, e)"
    using decode_meta_defined [OF assms(1)] by blast
  have sv: "server_inv (ipc d)" using assms(2) by (simp add: parts_ok_def)
  note told = session_told_announce [OF sv]
  show ?thesis
    by (cases ok) (auto simp: packet_received_def m Let_def rx_record_def on_packet_def
        on_decode_error_def intro!: told)
qed

lemma packets_received_effect:
  assumes "sizes_sane (lib E)" and "parts_ok d" and "length (ring (store d)) \<le> cap (store d)"
  shows "\<exists>t. fold_cpp (packet_received E) ps d = Done t
    \<and> ring (store t) = last_n (cap (store d)) (ring (store d) @ map fst (reception E (ticks d) ps))
    \<and> rx_packets (snap (store t)) = rx_packets (snap (store d)) + of_nat (length ps)
    \<and> logger t = foldl (\<lambda>k r. store_record r k) (logger d) (map fst (reception E (ticks d) ps))
    \<and> dev t = dev d \<and> map rec_raw (map fst (reception E (ticks d) ps)) = ps
    \<and> session_told j (map (encode \<circ> snd) (reception E (ticks d) ps)) d t"
  using assms(2,3)
proof (induction ps arbitrary: d)
  case Nil
  then show ?case by (simp add: session_told_refl)
next
  case (Cons p ps)
  obtain u r f n where u: "packet_received E p d = Done u"
    "reception E (ticks d) (p # ps) = (r, f) # reception E n ps" "ticks u = n"
    "ring (store u) = pop_over (cap (store d)) (ring (store d) @ [r])"
    "cap (store u) = cap (store d)" "rx_packets (snap (store u)) = rx_packets (snap (store d)) + 1"
    "logger u = store_record r (logger d)" "dev u = dev d" "rec_raw r = p"
    "session_told j [encode f] d u"
    using packet_received_effect [OF assms(1) Cons.prems(1), of p j] by blast
  have "parts_ok u" "length (ring (store u)) \<le> cap (store u)"
    using parts_ok_packet [OF u(1)] Cons.prems u(4,5) by (simp_all add: pop_over_last_n)
  from Cons.IH [OF this, unfolded u(3)] obtain t where t: "fold_cpp (packet_received E) ps u = Done t"
    "ring (store t) = last_n (cap (store u)) (ring (store u) @ map fst (reception E n ps))"
    "rx_packets (snap (store t)) = rx_packets (snap (store u)) + of_nat (length ps)"
    "logger t = foldl (\<lambda>k r. store_record r k) (logger u) (map fst (reception E n ps))"
    "dev t = dev u" "map rec_raw (map fst (reception E n ps)) = ps"
    "session_told j (map (encode \<circ> snd) (reception E n ps)) u t"
    by blast
  have "ring (store t) = last_n (cap (store d)) (ring (store d) @ r # map fst (reception E n ps))"
    using t(2) u(4,5) last_n_append_last_n [of "cap (store d)" "ring (store d) @ [r]"]
    by (simp add: pop_over_last_n)
  with u t session_told_trans [OF u(10) t(7)] show ?case
    by (simp add: comp_def del: reception.simps)
qed

lemma device_packets_step:
  assumes "sizes_sane (lib E)" and "header_only (declared_packet_size (lib E))"
    and "daemon_reach E d" and "acc (deframer d) = []"
    and "ps \<noteq> []" and "\<forall>p \<in> set ps. whole_packet (declared_packet_size (lib E)) p"
    and "ReadOp (generation (dev d)) \<in> set (pending (dev d))"
  shows "\<exists>t. daemon_step E (LinkCompleted (ReadOp (generation (dev d))) (Inr (concat ps))) d = Some (Done t)
    \<and> ring (store t) = last_n 2000 (ring (store d) @ map fst (reception E (ticks d) ps))
    \<and> map rec_raw (map fst (reception E (ticks d) ps)) = ps
    \<and> rx_packets (snap (store t)) = rx_packets (snap (store d)) + of_nat (length ps)
    \<and> logger t = foldl (\<lambda>k r. store_record r k) (logger d) (map fst (reception E (ticks d) ps))
    \<and> session_told j (map (encode \<circ> snd) (reception E (ticks d) ps)) d t"
proof -
  let ?g = "generation (dev d)" and ?dps = "declared_packet_size (lib E)"
  let ?m = "do_read ?g (take_op (ReadOp ?g) (dev d))"
  have ne: "concat ps \<noteq> []" using assms(5,6) by (cases ps) (auto simp: whole_packet_def)
  have ok: "parts_ok d" using assms(3) by (rule parts_ok_reach)
  have "drain_packets ?dps (acc (deframer d) @ concat ps) = Done (map Packet ps, [])"
    using drain_whole_packets [OF assms(2,6), of "[]"] assms(4) by simp
  from push_bytes_drain [OF this ne] ok assms(4)
  have pb: "push_bytes ?dps (concat ps) (deframer d) = Done (deframer d, ps)"
    by (cases "deframer d") (simp add: parts_ok_def)
  have st: "link_step (Complete (ReadOp ?g) (Inr (concat ps))) (dev d) = Some (Done (?m, [OnBytes (concat ps)]))"
    using assms(7) ne by (simp add: take_op_def on_read_def)
  let ?d = "d\<lparr>dev := ?m\<rparr>"
  have c: "cap (store d) = 2000 \<and> length (ring (store d)) \<le> 2000"
    by (rule ring_bound.holds_reachable [OF assms(3)])
  have "daemon_step E (LinkCompleted (ReadOp ?g) (Inr (concat ps))) d
      = Some (link_bytes E (concat ps) ?d)"
    using st by (simp add: link_handler_def apply_link_def del: link_step.simps)
  moreover have "link_bytes E (concat ps) ?d = fold_cpp (packet_received E) ps ?d"
    using pb by (simp add: link_bytes_def)
  moreover have "parts_ok ?d" "length (ring (store ?d)) \<le> cap (store ?d)"
    using ok c by (simp_all add: parts_ok_ops)
  note packets_received_effect [OF assms(1) this, of ps j]
  moreover have "session_told j bs ?d t = session_told j bs d t" for bs t
    by (simp add: session_told_def)
  ultimately show ?thesis using c by auto
qed

section \<open>Frames of one delivery\<close>

lemma drain_encoded:
  assumes "\<forall>f \<in> set fs. short_frame f"
  shows "drain_frames (concat (map encode fs)) = Done (fs, [])"
  using drain_frames_encode [of fs "[]"] assms by (simp add: short_frame_sendable)

lemma session_reads_frames:
  assumes "get_session i (ipc d) = Some s" and "reading s" and "rxbuf s = []"
    and "\<forall>f \<in> set fs. short_frame f \<and> dispatched f"
  shows "daemon_step E (SessionRead i (Inr (concat (map encode fs)))) d =
    Some (fold_cpp (frame_received E i) fs
      (d\<lparr>ipc := update_session i (\<lambda>_. session_do_read (s\<lparr>rxbuf := []\<rparr>)) (ipc d)\<rparr>))"
  using assms drain_encoded [of fs] by (simp add: session_handler_def read_completed_def)

lemma packet_send_accepted:
  assumes "sizes_sane (lib E)" and "routable (lib E) p" and "opened (dev d)"
  shows "\<exists>m. ts_ns m = clock E (ticks d) \<and> (\<exists>e. decode_meta (lib E) (clock E (ticks d)) p = Done (True, m, e))
    \<and> packet_send E i p d = Done (announce (make_packet_frame PacketTx m ''TX'')
      ((tick d)\<lparr>dev := (dev d)\<lparr>posted := posted (dev d) @ [p]\<rparr>, store := on_tx (length p) (store d)\<rparr>))"
proof -
  have "declared_packet_size (lib E) p = Inr (length p)" using assms(2) by (simp add: routable_def)
  then have "7 \<le> length p" using assms(1) by (rule sizes_saneD [rotated])
  moreover obtain ok m e where m: "decode_meta (lib E) (clock E (ticks d)) p = Done (ok, m, e)"
    using decode_meta_defined [OF assms(1)] by blast
  moreover have ok using decode_meta_result(1) [OF m] assms(2) by simp
  ultimately have m: "decode_meta (lib E) (clock E (ticks d)) p = Done (True, m, e)" "ts_ns m = clock E (ticks d)"
    "p \<noteq> []"
    using decode_meta_result(3) [OF m] by auto
  then have "packet_send E i p d = Done (announce (make_packet_frame PacketTx m ''TX'')
      ((tick d)\<lparr>dev := (dev d)\<lparr>posted := posted (dev d) @ [p]\<rparr>, store := on_tx (length p) (store d)\<rparr>))"
    using assms(3) by (simp add: packet_send_def Let_def write_bytes_def)
  with m show ?thesis by blast
qed

lemma packet_send_rejected:
  assumes "sizes_sane (lib E)" and "\<not> (routable (lib E) p \<and> opened (dev d))"
  shows "\<exists>e. packet_send E i p d =
    Done (reply i (make_error_frame (''Rejected outbound packet: '' @ e)) (tick d))"
proof -
  obtain ok m e where m: "decode_meta (lib E) (clock E (ticks d)) p = Done (ok, m, e)"
    using decode_meta_defined [OF assms(1)] by blast
  show ?thesis
  proof (cases ok)
    case True
    with assms(2) decode_meta_result(1) [OF m] have "\<not> opened (dev d)" by simp
    with m True show ?thesis
      by (intro exI [of _ "''device link is disconnected''"]) (simp add: packet_send_def Let_def)
  next
    case False
    with m show ?thesis by (intro exI [of _ e]) (simp add: packet_send_def Let_def)
  qed
qed

lemma stop_link_Done: "stop_link E d =
  Done (report_link Disconnected (detail (dev d)) (d\<lparr>dev := fst (link_stop (dev d))\<rparr>))"
  by (simp add: stop_link_def apply_link_def link_stop_def)

lemma frame_received_command:
  assumes "ftype f \<noteq> PacketSend" and "payload f = pack_string c" and "length c < 4294967296"
  shows "frame_received E i f d = run_command E i (uppercase c) d"
  using assms unpack_pack_string [of c "[]"] by (simp add: frame_received_def)

section \<open>Commands and the device\<close>

text \<open>Operating the link neither sends anything nor touches the history.\<close>

definition history :: "daemon \<Rightarrow> packet_record list \<times> u64 \<times> u64 \<times> u64 \<times> u64 \<times> u64 \<times> log_sink" where
  "history d = (ring (store d), rx_packets (snap (store d)), rx_bytes (snap (store d)),
     tx_packets (snap (store d)), tx_bytes (snap (store d)), decode_errors (snap (store d)), logger d)"

lemma history_ops [simp]:
  "history (announce f d) = history d" "history (reply i f d) = history d"
  "history (report_link st x d) = history d" "history (d\<lparr>dev := l\<rparr>) = history d"
  "history (tick d) = history d"
  by (simp_all add: history_def set_link_def)

lemma link_start_outs: "snd (link_start r l) = [] \<or> (\<exists>x. snd (link_start r l) = [OnState True x])
    \<or> (\<exists>x. snd (link_start r l) = [OnError x])"
  by (cases r) (auto simp: link_start_def Let_def)

lemma start_link_Done:
  "\<exists>t. start_link E d = Done t \<and> history t = history d \<and> deframer t = deframer d
    \<and> set (device_traffic (dev t)) \<subseteq> set (device_traffic (dev d))"
proof -
  let ?r = "port_open E (generation (dev d))"
  have tr: "set (device_traffic (fst (link_start ?r (dev d)))) \<subseteq> set (device_traffic (dev d))"
    using traffic_step [of "Start ?r" "dev d" "fst (link_start ?r (dev d))" "snd (link_start ?r (dev d))"]
    by simp
  from link_start_outs [of ?r "dev d"] show ?thesis
    using tr by (auto simp: start_link_def apply_link_def simp del: link_callback.simps(3))
qed

lemma run_command_Done:
  "\<exists>t. run_command E i c d = Done t \<and> history t = history d \<and> deframer t = deframer d
    \<and> set (device_traffic (dev t)) \<subseteq> set (device_traffic (dev d))"
proof -
  have stop: "\<exists>t. stop_link E d = Done t \<and> history t = history d \<and> deframer t = deframer d
      \<and> set (device_traffic (dev t)) \<subseteq> set (device_traffic (dev d))"
    by (auto simp: stop_link_Done link_stop_def device_traffic_def)
  have restart: "\<exists>t. bind_cpp (stop_link E d) (start_link E) = Done t \<and> history t = history d
      \<and> deframer t = deframer d \<and> set (device_traffic (dev t)) \<subseteq> set (device_traffic (dev d))"
  proof -
    obtain u where u: "stop_link E d = Done u" "history u = history d" "deframer u = deframer d"
      "set (device_traffic (dev u)) \<subseteq> set (device_traffic (dev d))" using stop by blast
    with start_link_Done [of E u] show ?thesis by auto
  qed
  show ?thesis
    using run_command_shape [of E i c d] start_link_Done [of E d] stop restart
    by (elim disjE exE) (simp_all del: bind_cpp_Done_iff)
qed

section \<open>Where a step has no defined result\<close>

lemma packet_received_total:
  assumes "sizes_sane (lib E)"
  shows "\<exists>t. packet_received E p d = Done t"
proof -
  obtain ok m e where "decode_meta (lib E) (clock E (ticks d)) p = Done (ok, m, e)"
    using decode_meta_defined [OF assms] by blast
  then show ?thesis by (cases ok) (simp_all add: packet_received_def Let_def)
qed

lemma link_callback_total: "sizes_sane (lib E) \<Longrightarrow> \<exists>t. link_callback E out d = Done t"
proof (cases out)
  case (OnBytes bs)
  obtain f ps where "push_bytes (declared_packet_size (lib E)) bs (deframer d) = Done (f, ps)"
    using push_bytes_total by blast
  moreover assume "sizes_sane (lib E)"
  ultimately show ?thesis
    by (auto simp: OnBytes link_bytes_def intro!: fold_cpp_total packet_received_total)
qed simp_all

lemma apply_link_total: "sizes_sane (lib E) \<Longrightarrow> \<exists>t. apply_link E r d = Done t"
  unfolding apply_link_def by (rule fold_cpp_total) (rule link_callback_total)

text \<open>A handler of the link: neither the link nor the framer nor a callback is undefined.\<close>

lemma link_handler_total:
  assumes "sizes_sane (lib E)" and "link_handler E e d = Some r"
  shows "\<exists>t. r = Done t"
proof -
  from assms(2) obtain q where q: "link_step e (dev d) = Some q" "r = bind_cpp q (\<lambda>r. apply_link E r d)"
    by (auto simp: link_handler_def)
  obtain m outs where "q = Done (m, outs)" using link_step_total [OF q(1)] by blast
  with q(2) apply_link_total [OF assms(1)] show ?thesis by simp
qed

lemma packet_send_total: "sizes_sane (lib E) \<Longrightarrow> \<exists>t. packet_send E i p d = Done t"
  using packet_send_accepted [of E p d i] packet_send_rejected [of E p d i] by blast

lemma frame_received_UB:
  assumes "sizes_sane (lib E)"
  shows "frame_received E i f d = UB \<longleftrightarrow> ftype f \<noteq> PacketSend \<and> unpack_string (payload f) = UB"
proof (cases "ftype f = PacketSend")
  case True
  with packet_send_total [OF assms, of i "payload f" d] show ?thesis
    by (auto simp: frame_received_def)
next
  case False
  show ?thesis
  proof (cases "unpack_string (payload f)")
    case (Done r)
    with False show ?thesis
      using run_command_Done [of E i "uppercase (the r)" d]
      by (cases r) (auto simp: frame_received_def)
  qed (use False in \<open>simp add: frame_received_def\<close>)
qed

section \<open>Concrete runs\<close>

definition bench :: "icd_packet environment" where
  "bench = \<lparr>lib = icd_pack, clock = of_nat, port_open = (\<lambda>_. SerialOpened)\<rparr>"

text \<open>A daemon that has opened its serial port, before and after a client connected.\<close>

definition bench_open :: daemon where
  "bench_open = \<lparr>store = set_link Connected ''/dev/ttyACM0'' (set_link Disconnected [] (new_store 2000)),
     logger = open_sink True [], ipc = new_server, dev = serial_open_fixture,
     deframer = set_on_packet new_framer, ticks = 0\<rparr>"

definition bench_client :: daemon where
  "bench_client = client_accepted bench_open"

text \<open>The same daemon with the first six octets of an eleven-octet packet received.\<close>

definition bench_partial :: daemon where
  "bench_partial = bench_open\<lparr>deframer :=
     \<lparr>acc = [8, 1, 192, 7, 0, 4], has_callback = True, framing_errors = 0\<rparr>\<rparr>"

lemma bench_started: "daemon_init bench ''/dev/ttyACM0'' 115200 (open_sink True []) = Inr (Done bench_open)"
  using start_serial_fixture
  by (simp add: daemon_init_def new_serial_fixture Let_def start_link_def apply_link_def
      daemon_ops bench_def bench_open_def broadcast_def new_server_def)

lemma reach_bench_open: "daemon_reach bench bench_open"
  using bench_started by (rule daemon_starts)

lemma reach_bench_client: "daemon_reach bench bench_client"
  by (rule daemon_steps [OF reach_bench_open, of Accepted]) (simp add: bench_client_def)

lemma bench_client_fields:
  "dev bench_client = serial_open_fixture" "store bench_client = store bench_open"
  "deframer bench_client = set_on_packet new_framer" "ticks bench_client = 0"
  "get_session 0 (ipc bench_client) = Some (session_send (current_link_frame (store bench_open))
     (session_start new_session))"
  by (simp_all add: bench_client_def client_accepted_def reply_def bench_open_def get_session_send)
    (simp add: get_session_def accept_session_def new_server_def)

lemma bench_sane: "sizes_sane (lib bench)" and bench_header_only: "header_only (declared_packet_size (lib bench))"
  by (simp_all add: bench_def icd_sizes_sane) (simp add: icd_pack_def header_only_icd)

section \<open>Properties\<close>

text \<open>C2: In every reachable state the link state the daemon reports (in its store, in answers
  to STATUS and CONNECT, in what it publishes) is \<open>CONNECTED\<close> exactly when the device link
  is open.\<close>
theorem reported_link_state_is_true:
  assumes "daemon_reach E d"
  shows "link (snap (store d)) = Connected \<longleftrightarrow> opened (dev d)"
  using assms by (rule truth.holds_reachable)

theorem reported_link_state_is_true_witness:
  "link (snap (store bench_open)) = Connected \<longleftrightarrow> opened (dev bench_open)"
  using reach_bench_open by (rule reported_link_state_is_true)

text \<open>C3: Whatever clients, device and operating system do, every byte string that is waiting
  to be written to the device, queued or being written, is a structurally valid Space
  Packet: nothing else a client sends reaches the device.\<close>
theorem only_routable_to_device:
  assumes "daemon_reach E d"
  shows "\<forall>p \<in> set (posted (dev d) @ tx_queue (dev d) @ concat (map op_buffer (pending (dev d)))).
    routable (lib E) p"
  using guarded.holds_reachable [OF assms] by (simp add: device_traffic_def)

theorem only_routable_to_device_witness:
  "\<exists>d. daemon_step bench (SessionRead 0 (Inr (encode \<lparr>ftype = PacketSend, payload = hk_request_octets\<rparr>)))
      bench_client = Some (Done d) \<and> posted (dev d) = [hk_request_octets] \<and>
    list_all (routable icd_pack)
      (posted (dev d) @ tx_queue (dev d) @ concat (map op_buffer (pending (dev d))))"
proof -
  let ?f = "\<lparr>ftype = PacketSend, payload = hk_request_octets\<rparr>"
  let ?s = "session_send (current_link_frame (store bench_open)) (session_start new_session)"
  let ?c = "bench_client\<lparr>ipc := update_session 0 (\<lambda>_. session_do_read (?s\<lparr>rxbuf := []\<rparr>)) (ipc bench_client)\<rparr>"
  have st: "daemon_step bench (SessionRead 0 (Inr (concat (map encode [?f])))) bench_client
      = Some (fold_cpp (frame_received bench 0) [?f] ?c)"
    by (rule session_reads_frames)
      (simp_all add: bench_client_fields short_frame_def dispatched_def session_ops new_session_def
        hk_request_octets_def)
  have "routable (lib bench) hk_request_octets" by (simp add: bench_def routable_hk_request)
  moreover have "opened (dev ?c)" by (simp add: bench_client_fields serial_open_fixture_def)
  ultimately obtain m where "packet_send bench 0 hk_request_octets ?c =
    Done (announce (make_packet_frame PacketTx m ''TX'')
      ((tick ?c)\<lparr>dev := (dev ?c)\<lparr>posted := posted (dev ?c) @ [hk_request_octets]\<rparr>,
         store := on_tx (length hk_request_octets) (store ?c)\<rparr>))" (is "_ = Done ?d")
    using packet_send_accepted [OF bench_sane, of hk_request_octets ?c 0] by blast
  then have d: "daemon_step bench (SessionRead 0 (Inr (encode ?f))) bench_client = Some (Done ?d)"
    using st by (simp add: frame_received_def del: daemon_step.simps)
  from only_routable_to_device [OF daemon_steps [OF reach_bench_client d]] d show ?thesis
    by (auto simp: list_all_iff bench_client_fields serial_open_fixture_def serial_fixture_def
        bench_def simp del: daemon_step.simps)
qed

text \<open>C4: A packet to send has one of two outcomes. If it is structurally valid and the link
  is open it is posted to the device behind what was posted before, counted with its
  size, and announced to every live client; otherwise its sender alone gets an error and
  nothing else changes.\<close>
theorem packet_send_outcome:
  assumes "sizes_sane (lib E)" and "daemon_reach E d"
  shows "\<exists>t. frame_received E i \<lparr>ftype = PacketSend, payload = p\<rparr> d = Done t \<and>
    (if routable (lib E) p \<and> opened (dev d) then
       dev t = (dev d)\<lparr>posted := posted (dev d) @ [p]\<rparr> \<and>
       store t = on_tx (length p) (store d) \<and>
       (\<exists>m. \<forall>j s. get_session j (ipc d) = Some s \<and> alive s \<longrightarrow>
          get_session j (ipc t) = Some (session_send (make_packet_frame PacketTx m ''TX'') s))
     else dev t = dev d \<and> store t = store d \<and>
       (\<exists>e. ipc t = send_to i (make_error_frame (''Rejected outbound packet: '' @ e)) (ipc d)))
    \<and> logger t = logger d \<and> deframer t = deframer d"
proof -
  have sv: "server_inv (ipc d)" using parts_ok_reach [OF assms(2)] by (simp add: parts_ok_def)
  show ?thesis
  proof (cases "routable (lib E) p \<and> opened (dev d)")
    case True
    with packet_send_accepted [OF assms(1), of p d i] obtain m where
      "packet_send E i p d = Done (announce (make_packet_frame PacketTx m ''TX'')
        ((tick d)\<lparr>dev := (dev d)\<lparr>posted := posted (dev d) @ [p]\<rparr>, store := on_tx (length p) (store d)\<rparr>))"
      by blast
    with True show ?thesis
      by (auto simp: frame_received_def get_session_broadcast [OF sv])
  next
    case False
    with packet_send_rejected [OF assms(1) False, of i] show ?thesis
      by (auto simp: frame_received_def)
  qed
qed

theorem packet_send_outcome_witness:
  "\<exists>t. frame_received bench 0 \<lparr>ftype = PacketSend, payload = hk_request_octets\<rparr> bench_client = Done t
    \<and> posted (dev t) = [hk_request_octets] \<and> tx_packets (snap (store t)) = 1
    \<and> tx_bytes (snap (store t)) = 13"
proof -
  have "routable (lib bench) hk_request_octets \<and> opened (dev bench_client)"
    by (simp add: bench_def routable_hk_request bench_client_fields serial_open_fixture_def)
  with packet_send_outcome [OF bench_sane reach_bench_client, of 0 hk_request_octets]
  show ?thesis
    by (auto simp: bench_client_fields serial_open_fixture_def serial_fixture_def on_tx_def
        bench_open_def set_link_def new_store_def empty_snapshot_def hk_request_octets_def)
qed

text \<open>C5: From the device to everyone: when a read delivers whole packets and no partial packet
  was kept, they enter the ring in order (its last 2000), are counted and logged one
  record each, and every live client is sent one announcement per packet, in order.\<close>
theorem device_packets_reach_everyone:
  assumes "sizes_sane (lib E)" and "header_only (declared_packet_size (lib E))"
    and "daemon_reach E d" and "acc (deframer d) = []"
    and "ps \<noteq> []" and "\<forall>p \<in> set ps. whole_packet (declared_packet_size (lib E)) p"
    and "ReadOp (generation (dev d)) \<in> set (pending (dev d))"
  shows "\<exists>t. daemon_step E (LinkCompleted (ReadOp (generation (dev d))) (Inr (concat ps))) d = Some (Done t)
    \<and> ring (store t) = last_n 2000 (ring (store d) @ map fst (reception E (ticks d) ps))
    \<and> map rec_raw (map fst (reception E (ticks d) ps)) = ps
    \<and> rx_packets (snap (store t)) = rx_packets (snap (store d)) + of_nat (length ps)
    \<and> logger t = foldl (\<lambda>k r. store_record r k) (logger d) (map fst (reception E (ticks d) ps))
    \<and> session_told j (map (encode \<circ> snd) (reception E (ticks d) ps)) d t"
  using assms by (rule device_packets_step)

theorem device_packets_reach_everyone_witness:
  "\<exists>t. daemon_step bench (LinkCompleted (ReadOp (generation (dev bench_client)))
        (Inr (concat [[8, 1, 192, 7, 0, 0, 170]]))) bench_client = Some (Done t)
    \<and> ring (store t) = last_n 2000 (ring (store bench_client)
        @ map fst (reception bench (ticks bench_client) [[8, 1, 192, 7, 0, 0, 170]]))
    \<and> map rec_raw (map fst (reception bench (ticks bench_client) [[8, 1, 192, 7, 0, 0, 170]]))
        = [[8, 1, 192, 7, 0, 0, 170]]
    \<and> rx_packets (snap (store t)) = rx_packets (snap (store bench_client)) + of_nat (length [()])
    \<and> logger t = foldl (\<lambda>k r. store_record r k) (logger bench_client)
        (map fst (reception bench (ticks bench_client) [[8, 1, 192, 7, 0, 0, 170]]))
    \<and> session_told 0 (map (encode \<circ> snd) (reception bench (ticks bench_client)
        [[8, 1, 192, 7, 0, 0, 170]])) bench_client t"
proof -
  have w: "\<forall>p \<in> set [[8, 1, 192, 7, 0, 0, 170]]. whole_packet (declared_packet_size (lib bench)) p"
    by (simp add: whole_packet_def bench_def icd_pack_def icd_declared_size_def read_u16_def)
  have r: "ReadOp (generation (dev bench_client)) \<in> set (pending (dev bench_client))"
    and a: "acc (deframer bench_client) = []"
    by (simp_all add: bench_client_fields serial_open_fixture_def set_on_packet_def new_framer_def)
  from device_packets_reach_everyone [OF bench_sane bench_header_only reach_bench_client a _ w r, of 0]
  show ?thesis by simp
qed

text \<open>STATS never shows a framing error: the counter it prints is 0 in every reachable
  state, because no part of the daemon calls \<open>StateStore::on_framing_error\<close>; the framer
  keeps its own count, which nothing reads.\<close>
lemma framing_errors_never_reported:
  assumes "daemon_reach E d"
  shows "framing_error_count (snap (store d)) = 0"
  using assms by (rule uncounted.holds_reachable)

text \<open>Commands never send: a frame other than a packet to send adds nothing to what goes
  to the device and leaves the ring, the log and every counter as they were. Unless it is
  CONNECT, DISCONNECT or RECONNECT, in any case of letters, its only effect is one answer to
  the client it came from.\<close>
lemma commands_never_send:
  assumes "ftype f \<noteq> PacketSend" and "frame_received E i f d = Done t"
  shows "set (device_traffic (dev t)) \<subseteq> set (device_traffic (dev d)) \<and> history t = history d \<and>
    ((\<exists>g. t = reply i g d) \<or>
     (\<exists>c. unpack_string (payload f) = Done (Some c) \<and>
        uppercase c \<in> {''CONNECT'', ''DISCONNECT'', ''RECONNECT''}))"
proof -
  obtain r where r: "unpack_string (payload f) = Done r"
    and t: "(case r of
      None \<Rightarrow> Done (reply i (make_error_frame ''Invalid IPC command payload'') d)
    | Some c \<Rightarrow> run_command E i (uppercase c) d) = Done t"
    using assms by (auto simp: frame_received_def)
  show ?thesis
  proof (cases r)
    case None
    with t show ?thesis by auto
  next
    case (Some c)
    with t have run: "run_command E i (uppercase c) d = Done t" by simp
    with run_command_Done [of E i "uppercase c" d]
    have "set (device_traffic (dev t)) \<subseteq> set (device_traffic (dev d)) \<and> history t = history d"
      by auto
    moreover have "(\<exists>g. t = reply i g d) \<or> uppercase c \<in> {''CONNECT'', ''DISCONNECT'', ''RECONNECT''}"
    proof (rule disjCI)
      assume "uppercase c \<notin> {''CONNECT'', ''DISCONNECT'', ''RECONNECT''}"
      then have "\<exists>g. run_command E i (uppercase c) d = Done (reply i g d)"
        unfolding run_command_def by auto
      with run show "\<exists>g. t = reply i g d" by auto
    qed
    ultimately show ?thesis using r Some by blast
  qed
qed

text \<open>C13: The device cannot bring the daemon down: whatever octets or errors the link delivers, in
  whatever state, its handlers have a defined result, provided the library declares no packet shorter
  than a header and one octet. The framer never copies or erases past its accumulator, the link never
  reads or pops the front of an empty queue, and the structural check reads no octet past a packet.\<close>
theorem device_cannot_crash_daemon:
  assumes "sizes_sane (lib E)"
  shows "daemon_step E LinkPosted d \<noteq> Some UB \<and> daemon_step E (LinkCompleted p r) d \<noteq> Some UB"
  using link_handler_total [OF assms, of RunPosted d] link_handler_total [OF assms, of "Complete p r" d]
  by auto

theorem device_cannot_crash_daemon_witness:
  "daemon_step bench LinkPosted bench_open \<noteq> Some UB \<and>
   daemon_step bench (LinkCompleted (ReadOp 1) (Inr [255, 255, 255])) bench_open \<noteq> Some UB"
  by (rule device_cannot_crash_daemon [OF bench_sane])

text \<open>C14: A client can: one ten-octet command frame whose text length is \<open>2 ^ 32 - 1\<close> makes the
  session's read handler run into undefined behaviour, in every state of the daemon.\<close>
theorem client_can_crash_daemon:
  assumes "get_session i (ipc d) = Some s" and "reading s" and "rxbuf s = []"
  shows "daemon_step E (SessionRead i (Inr [0, 0, 0, 6, 0, 10, 255, 255, 255, 255])) d = Some UB"
proof -
  let ?f = "\<lparr>ftype = Command, payload = [255, 255, 255, 255]\<rparr>"
  have e: "concat (map encode [?f]) = [0, 0, 0, 6, 0, 10, 255, 255, 255, 255]"
    by (simp add: encode_def append_u32_def append_u16_def Let_def)
  have "unpack_string (payload ?f) = UB"
    by (simp add: unpack_string_def read_u32_def)
  then have "frame_received E i ?f c = UB" for c
    by (simp add: frame_received_def)
  then show ?thesis
    using session_reads_frames [OF assms, of "[?f]" E]
    by (simp add: e short_frame_def dispatched_def del: daemon_step.simps) (simp add: encode_def append_u32_def append_u16_def Let_def)
qed

theorem client_can_crash_daemon_witness:
  "daemon_step bench (SessionRead 0 (Inr [0, 0, 0, 6, 0, 10, 255, 255, 255, 255])) bench_client = Some UB"
  by (rule client_can_crash_daemon [OF bench_client_fields(5)])
    (simp_all add: session_ops new_session_def)

text \<open>C23: A packet can be announced and counted as sent and yet never reach the device: when the same
  delivery of octets holds a valid packet and a DISCONNECT, every live client is sent the \<open>PacketTx\<close>
  frame with the packet's decoded header and then the new link state, and the packet is counted in the
  statistics; but the link closes before the posted write runs, and the handler drops the packet, starts
  no write and sends no frame to anyone.\<close>
theorem sent_packet_lost_by_disconnect:
  assumes "sizes_sane (lib E)" and "daemon_reach E d" and "routable (lib E) p" and "length p < 4294967290"
    and "opened (dev d)" and "posted (dev d) = []"
    and "get_session i (ipc d) = Some s" and "reading s" and "rxbuf s = []"
    and "fs = [\<lparr>ftype = PacketSend, payload = p\<rparr>,
               \<lparr>ftype = Command, payload = pack_string ''DISCONNECT''\<rparr>]"
  shows "\<exists>t u. daemon_step E (SessionRead i (Inr (concat (map encode fs)))) d = Some (Done t)
    \<and> (\<exists>m e. decode_meta (lib E) (clock E (ticks d)) p = Done (True, m, e)
        \<and> session_told j [encode (make_packet_frame PacketTx m ''TX''), encode (current_link_frame (store t))] d t)
    \<and> link (snap (store t)) = Disconnected
    \<and> tx_packets (snap (store t)) = tx_packets (snap (store d)) + 1
    \<and> daemon_step E LinkPosted t = Some (Done u)
    \<and> posted (dev u) = [] \<and> tx_queue (dev u) = [] \<and> pending (dev u) = pending (dev d)
    \<and> tx_packets (snap (store u)) = tx_packets (snap (store d)) + 1 \<and> ipc u = ipc t"
proof -
  let ?r = "session_do_read (s\<lparr>rxbuf := []\<rparr>)"
  let ?d = "d\<lparr>ipc := update_session i (\<lambda>_. ?r) (ipc d)\<rparr>"
  have "\<forall>f \<in> set fs. short_frame f \<and> dispatched f"
    using assms(4,10) by (simp add: short_frame_def dispatched_def pack_string_def)
  note st = session_reads_frames [OF assms(7-9) this, of E]
  have "opened (dev ?d)" using assms(5) by simp
  then obtain m e v where v: "packet_send E i p ?d = Done v" "dev v = (dev d)\<lparr>posted := [p]\<rparr>"
    "store v = on_tx (length p) (store d)" "ipc v = broadcast (make_packet_frame PacketTx m ''TX'') (ipc ?d)"
    "decode_meta (lib E) (clock E (ticks d)) p = Done (True, m, e)"
    using packet_send_accepted [OF assms(1,3), of ?d i] assms(6) by auto
  let ?t = "report_link Disconnected (detail (dev v)) (v\<lparr>dev := fst (link_stop (dev v))\<rparr>)"
  let ?L = "current_link_frame (store ?t)"
  have "uppercase ''DISCONNECT'' = ''DISCONNECT''" by (simp add: uppercase_def to_upper_def)
  then have "frame_received E i \<lparr>ftype = Command, payload = pack_string ''DISCONNECT''\<rparr> v = Done ?t"
    using frame_received_command [of "\<lparr>ftype = Command, payload = pack_string ''DISCONNECT''\<rparr>" "''DISCONNECT''" E i v]
    by (simp add: run_command_def stop_link_Done)
  moreover have "frame_received E i \<lparr>ftype = PacketSend, payload = p\<rparr> ?d = Done v"
    using v(1) by (simp add: frame_received_def)
  ultimately have step: "daemon_step E (SessionRead i (Inr (concat (map encode fs)))) d = Some (Done ?t)"
    using st by (simp add: assms(10) del: daemon_step.simps)
  have sv: "server_inv (ipc d)" "server_inv (ipc ?d)"
    using parts_ok_reach [OF assms(2)] by (simp_all add: parts_ok_def server_inv_update)
  have "session_told j [] d ?d" using session_told_read [OF assms(7)] by blast
  from session_told_trans [OF this session_told_announce [OF sv(2) v(4)]]
  have "session_told j [encode (make_packet_frame PacketTx m ''TX'')] d v" by simp
  from session_told_trans [OF this session_told_announce [of v ?t ?L]] sv(2) v(4)
  have told: "session_told j [encode (make_packet_frame PacketTx m ''TX''), encode ?L] d ?t"
    by (simp add: server_inv_broadcast daemon_ops)
  have d: "posted (dev ?t) = [p]" "\<not> opened (dev ?t)" "tx_queue (dev ?t) = []"
    "pending (dev ?t) = pending (dev d)" "tx_packets (snap (store ?t)) = tx_packets (snap (store d)) + 1"
    "link (snap (store ?t)) = Disconnected"
    using v(2,3) by (simp_all add: link_stop_def on_tx_def set_link_def)
  then have "daemon_step E LinkPosted ?t = Some (Done (?t\<lparr>dev := (dev ?t)\<lparr>posted := []\<rparr>\<rparr>))"
    by (simp add: link_handler_def apply_link_def after_post_def)
  with step d told v(5) show ?thesis
    by (intro exI [of _ ?t] exI [of _ "?t\<lparr>dev := (dev ?t)\<lparr>posted := []\<rparr>\<rparr>"]) (auto simp del: daemon_step.simps)
qed

theorem sent_packet_lost_by_disconnect_witness:
  "\<exists>t u. daemon_step bench (SessionRead 0 (Inr (concat (map encode
        [\<lparr>ftype = PacketSend, payload = hk_request_octets\<rparr>,
         \<lparr>ftype = Command, payload = pack_string ''DISCONNECT''\<rparr>])))) bench_client = Some (Done t)
    \<and> (\<exists>m e. decode_meta (lib bench) (clock bench (ticks bench_client)) hk_request_octets = Done (True, m, e)
        \<and> session_told 0 [encode (make_packet_frame PacketTx m ''TX''), encode (current_link_frame (store t))]
            bench_client t)
    \<and> link (snap (store t)) = Disconnected
    \<and> tx_packets (snap (store t)) = tx_packets (snap (store bench_client)) + 1
    \<and> daemon_step bench LinkPosted t = Some (Done u)
    \<and> posted (dev u) = [] \<and> tx_queue (dev u) = [] \<and> pending (dev u) = pending (dev bench_client)
    \<and> tx_packets (snap (store u)) = tx_packets (snap (store bench_client)) + 1 \<and> ipc u = ipc t"
  by (rule sent_packet_lost_by_disconnect [OF bench_sane reach_bench_client _ _ _ _ bench_client_fields(5)])
    (simp_all add: bench_def routable_hk_request bench_client_fields serial_open_fixture_def
      serial_fixture_def session_ops new_session_def hk_request_octets_def [THEN arg_cong [where f = length]])

text \<open>C24: A partial packet survives a reconnection: RECONNECT (or DISCONNECT and CONNECT) does not
  touch the framer, so when the connection was lost inside a packet, the first packet cut
  from the new connection begins with the octets kept from the old one.\<close>
theorem stale_bytes_survive_reconnect:
  assumes "header_only (declared_packet_size (lib E))"
    and "run_command E i ''RECONNECT'' d = Done t"
    and "verdict (declared_packet_size (lib E)) (acc (deframer d)) = Some n"
    and "6 \<le> length (acc (deframer d))" and "length (acc (deframer d)) < n"
    and "n \<le> length (acc (deframer d)) + length bs" and "has_callback (deframer d)"
  shows "\<exists>f ps. push_bytes (declared_packet_size (lib E)) bs (deframer t)
    = Done (f, (acc (deframer d) @ take (n - length (acc (deframer d))) bs) # ps)"
proof -
  let ?dps = "declared_packet_size (lib E)" and ?g = "acc (deframer d)"
  have t: "deframer t = deframer d"
    using run_command_Done [of E i "''RECONNECT''" d] assms(2) by simp
  have "verdict ?dps (?g @ bs) = Some n"
    using header_only_verdict [OF assms(1,4)] assms(3) by simp
  then have s: "packet_step ?dps (?g @ bs) = Emit (Packet (take n (?g @ bs))) (drop n (?g @ bs))"
    using assms(4-6) by (simp add: packet_step_def)
  obtain es r where "drain_packets ?dps (drop n (?g @ bs)) = Done (es, r)"
    using frame_loop_drain by blast
  with s have "drain_packets ?dps (?g @ bs) = Done (Packet (take n (?g @ bs)) # es, r)"
    by (simp add: drain_packets.simps [of ?dps "?g @ bs"])
  moreover have "bs \<noteq> []" using assms(5,6) by auto
  ultimately have "\<exists>f. push_bytes ?dps bs (deframer t) = Done (f, take n (?g @ bs) # packets_of es)"
    using push_bytes_drain [of ?dps "deframer d" bs] assms(7) t by simp
  then show ?thesis using assms(5) by auto
qed

theorem stale_bytes_survive_reconnect_witness:
  "\<exists>t f ps. run_command bench 0 ''RECONNECT'' bench_partial = Done t \<and>
    push_bytes icd_declared_size [9, 1, 0, 0, 0, 0, 204] (deframer t)
      = Done (f, [8, 1, 192, 7, 0, 4, 9, 1, 0, 0, 0] # ps)"
proof -
  obtain t where t: "run_command bench 0 ''RECONNECT'' bench_partial = Done t"
    using run_command_Done by blast
  have "verdict (declared_packet_size (lib bench)) (acc (deframer bench_partial)) = Some 11"
    by (simp add: verdict_def bench_def icd_pack_def icd_declared_size_def read_u16_def
        bench_partial_def)
  from stale_bytes_survive_reconnect [OF bench_header_only t this, of "[9, 1, 0, 0, 0, 0, 204]"] t
  show ?thesis by (simp add: bench_partial_def bench_def icd_pack_def)
qed

lemma bench_packet_step:
  "daemon_step bench (LinkCompleted (ReadOp 1) (Inr [8, 1, 192, 7, 0, 0, 170])) bench_open
     = Some (packet_received bench [8, 1, 192, 7, 0, 0, 170] bench_open)"
  by (simp add: link_handler_def bench_open_def serial_open_fixture_def serial_fixture_def
      on_read_def do_read_def start_op_def apply_link_def link_bytes_def push_bytes_def
      bench_def icd_pack_def set_on_packet_def new_framer_def frame_loop.simps
      icd_declared_size_def read_u16_def)

text \<open>C15: What the daemon remembers is well formed: in every reachable state each record of the
  ring has an 11-bit APID and a 14-bit sequence count, is summarised \<open>RX\<close> exactly when its octets pass
  the structural check, and carries no header field of octets that do not (for a library whose
  primary headers have the CCSDS field widths).\<close>
theorem ring_records_well_formed:
  assumes "daemon_reach E d" and "header_fits (lib E)"
  shows "list_all (record_ok (lib E)) (ring (store d))"
  using typed.holds_reachable [OF assms(1)] assms(2) by (simp add: list_all_iff)

lemma bench_header_fits: "header_fits (lib bench)"
proof -
  have "w AND 0x7FF = take_bit 11 w" "w AND 0x3FFF = take_bit 14 w" for w :: u16
    by (simp_all add: take_bit_eq_mask mask_eq_exp_minus_1)
  moreover have "take_bit 11 n < 2048" "take_bit 14 n < 16384" for n :: nat
    using take_bit_nat_less_exp [of 11 n] take_bit_nat_less_exp [of 14 n] by simp_all
  ultimately show ?thesis
    by (auto simp: header_fits_def bench_def icd_pack_def icd_read_primary_def Let_def unsigned_take_bit_eq
        split: if_splits)
qed

theorem ring_records_well_formed_witness:
  "\<exists>d. daemon_step bench (LinkCompleted (ReadOp 1) (Inr [8, 1, 192, 7, 0, 0, 170])) bench_open
      = Some (Done d) \<and> map rec_raw (ring (store d)) = [[8, 1, 192, 7, 0, 0, 170]]
      \<and> list_all (record_ok (lib bench)) (ring (store d))"
proof -
  let ?e = "LinkCompleted (ReadOp 1) (Inr [8, 1, 192, 7, 0, 0, 170])"
  note step = bench_packet_step
  obtain t r where t: "packet_received bench [8, 1, 192, 7, 0, 0, 170] bench_open = Done t"
    "ring (store t) = pop_over (cap (store bench_open)) (ring (store bench_open) @ [r])"
    "rec_raw r = [8, 1, 192, 7, 0, 0, 170]"
    using packet_received_effect [OF bench_sane parts_ok_reach [OF reach_bench_open]] by blast
  moreover have "cap (store bench_open) = 2000" "ring (store bench_open) = []"
    by (simp_all add: bench_open_def set_link_def new_store_def)
  ultimately have r: "map rec_raw (ring (store t)) = [[8, 1, 192, 7, 0, 0, 170]]" by simp
  have d: "daemon_step bench ?e bench_open = Some (Done t)" using step t(1) by simp
  from ring_records_well_formed [OF daemon_steps [OF reach_bench_open d] bench_header_fits] d r
  show ?thesis by (intro exI [of _ t] conjI)
qed

text \<open>The daemon's packet memory is bounded: in every reachable state the ring holds at most
  2000 packets and the framer keeps less than one packet of the largest size.\<close>
lemma daemon_memory_bounded:
  assumes "daemon_reach E d"
  shows "length (ring (store d)) \<le> 2000 \<and> length (acc (deframer d)) < 65542"
  using ring_bound.holds_reachable [OF assms] parts_ok_reach [OF assms] by (simp add: parts_ok_def)

end
