(* ===== verification/Options.thy ===== *)
theory Options
  imports GS_Prelude Cpp_Numbers
begin

text \<open>
  The option parsers of the daemon and of the UI: \<open>daemon/src/main.cpp\<close> with the defaults of
  \<open>AppConfig\<close> (\<open>app.hpp\<close>), and \<open>ui/src/main.cpp\<close>. A parser ends by running the program with
  a configuration, by an exit code, or by an exception of \<open>stoi\<close> or \<open>stoul\<close> that \<open>main\<close> does
  not catch; what it prints before it ends is a function of the same shape.
\<close>

section \<open>Outcomes\<close>

datatype 'c outcome = Run 'c | Exit nat | Uncaught number_error

text \<open>\<open>std::stoul(s)\<close>: as \<open>stoi\<close> for a 64-bit \<open>unsigned long\<close>, where a minus sign negates
  modulo \<open>2 ^ 64\<close>; \<open>static_cast<uint32_t>\<close> of it.\<close>

definition stoul :: "string \<Rightarrow> number_error + u64" where
  "stoul s =
     (let t = dropWhile is_space s;
          neg = (t \<noteq> [] \<and> hd t = CHR ''-'');
          u = (if t \<noteq> [] \<and> (hd t = CHR ''-'' \<or> hd t = CHR ''+'') then tl t else t);
          ds = takeWhile is_decimal u;
          v = dec_value ds
      in if ds = [] then Inl Invalid_argument
         else if 18446744073709551615 < v then Inl Out_of_range
         else Inr (if neg then - of_nat v else of_nat v))"

definition to_u32 :: "u64 \<Rightarrow> u32" where
  "to_u32 v = ucast v"

text \<open>\<open>HOST:PORT\<close>: the first colon separates; \<open>None\<close> without a colon.\<close>

definition host_port :: "string \<Rightarrow> (number_error + string \<times> u16) option" where
  "host_port v = (case split_at (CHR '':'') v of None \<Rightarrow> None
     | Some (h, p) \<Rightarrow> Some (case stoi p of Inl e \<Rightarrow> Inl e | Inr n \<Rightarrow> Inr (h, to_u16 n)))"

section \<open>The daemon\<close>

record app_config =
  listen_host :: string
  listen_port :: u16
  serial_port :: string
  baud_rate :: u32
  log_dir :: string
  verbose :: bool

definition default_config :: app_config where
  "default_config = \<lparr>listen_host = ''127.0.0.1'', listen_port = 7777, serial_port = [],
     baud_rate = 115200, log_dir = ''logs'', verbose = False\<rparr>"

fun daemon_args :: "string list \<Rightarrow> app_config \<Rightarrow> app_config outcome" where
  "daemon_args [] cfg = Run cfg"
| "daemon_args (a # rest) cfg =
     (if a = ''--listen'' then
        (case rest of [] \<Rightarrow> Exit 2
         | v # r \<Rightarrow> (case host_port v of
             None \<Rightarrow> Exit 2
           | Some (Inl e) \<Rightarrow> Uncaught e
           | Some (Inr (h, p)) \<Rightarrow> daemon_args r (cfg\<lparr>listen_host := h, listen_port := p\<rparr>)))
      else if a = ''--port'' then
        (case rest of [] \<Rightarrow> Exit 2 | v # r \<Rightarrow> daemon_args r (cfg\<lparr>serial_port := v\<rparr>))
      else if a = ''--baud'' then
        (case rest of [] \<Rightarrow> Exit 2
         | v # r \<Rightarrow> (case stoul v of Inl e \<Rightarrow> Uncaught e
             | Inr n \<Rightarrow> daemon_args r (cfg\<lparr>baud_rate := to_u32 n\<rparr>)))
      else if a = ''--logdir'' then
        (case rest of [] \<Rightarrow> Exit 2 | v # r \<Rightarrow> daemon_args r (cfg\<lparr>log_dir := v\<rparr>))
      else if a = ''-h'' \<or> a = ''--help'' then Exit 0
      else if a = ''-v'' \<or> a = ''--verbose'' then daemon_args rest (cfg\<lparr>verbose := True\<rparr>)
      else Exit 2)"

definition daemon_main :: "string list \<Rightarrow> app_config outcome" where
  "daemon_main argv = daemon_args argv default_config"

section \<open>The UI\<close>

fun ui_args :: "string list \<Rightarrow> string \<times> u16 \<Rightarrow> (string \<times> u16) outcome" where
  "ui_args [] cfg = Run cfg"
| "ui_args (a # rest) cfg =
     (if a = ''--connect'' then
        (case rest of [] \<Rightarrow> Exit 2
         | v # r \<Rightarrow> (case host_port v of
             None \<Rightarrow> Exit 2
           | Some (Inl e) \<Rightarrow> Uncaught e
           | Some (Inr hp) \<Rightarrow> ui_args r hp))
      else if a = ''-h'' \<or> a = ''--help'' then Exit 0
      else Exit 2)"

definition ui_main :: "string list \<Rightarrow> (string \<times> u16) outcome" where
  "ui_main argv = ui_args argv (''127.0.0.1'', 7777)"

section \<open>What they say\<close>

text \<open>The lines on standard error before the program ends: the usage text, and what is wrong.\<close>

definition daemon_usage :: "string \<Rightarrow> string list" where
  "daemon_usage exe =
     [''Usage: '' @ exe @ '' [--listen HOST:PORT] [--port SERIAL|tcp://HOST:PORT] [--baud N] [--logdir DIR]'',
      ''  -v, --verbose        Print TC/TM packets to console'',
      ''Example: '' @ exe @ '' --listen 127.0.0.1:7777 --port /dev/ttyACM0 --baud 115200'',
      ''Example: '' @ exe @ '' --listen 127.0.0.1:7777 --port tcp://127.0.0.1:9000'']"

text \<open>The lambda \<open>need\<close> without a next argument.\<close>

definition need_lines :: "string \<Rightarrow> string \<Rightarrow> string list" where
  "need_lines exe opt = (''Missing value for '' @ opt) # daemon_usage exe"

fun daemon_says :: "string \<Rightarrow> string list \<Rightarrow> string list" where
  "daemon_says exe [] = []"
| "daemon_says exe (a # rest) =
     (if a = ''--listen'' then
        (case rest of [] \<Rightarrow> need_lines exe ''--listen''
         | v # r \<Rightarrow> (case host_port v of
             None \<Rightarrow> [''Invalid --listen format, expected HOST:PORT'']
           | Some (Inl e) \<Rightarrow> []
           | Some (Inr hp) \<Rightarrow> daemon_says exe r))
      else if a = ''--port'' then
        (case rest of [] \<Rightarrow> need_lines exe ''--port'' | v # r \<Rightarrow> daemon_says exe r)
      else if a = ''--baud'' then
        (case rest of [] \<Rightarrow> need_lines exe ''--baud''
         | v # r \<Rightarrow> (case stoul v of Inl e \<Rightarrow> [] | Inr n \<Rightarrow> daemon_says exe r))
      else if a = ''--logdir'' then
        (case rest of [] \<Rightarrow> need_lines exe ''--logdir'' | v # r \<Rightarrow> daemon_says exe r)
      else if a = ''-h'' \<or> a = ''--help'' then daemon_usage exe
      else if a = ''-v'' \<or> a = ''--verbose'' then daemon_says exe rest
      else (''Unknown arg: '' @ a) # daemon_usage exe)"

definition ui_usage :: "string \<Rightarrow> string list" where
  "ui_usage exe = [''Usage: '' @ exe @ '' [--connect HOST:PORT]'']"

fun ui_says :: "string \<Rightarrow> string list \<Rightarrow> string list" where
  "ui_says exe [] = []"
| "ui_says exe (a # rest) =
     (if a = ''--connect'' then
        (case rest of [] \<Rightarrow> ui_usage exe
         | v # r \<Rightarrow> (case host_port v of
             None \<Rightarrow> ui_usage exe
           | Some (Inl e) \<Rightarrow> []
           | Some (Inr hp) \<Rightarrow> ui_says exe r))
      else if a = ''-h'' \<or> a = ''--help'' then ui_usage exe
      else (''Unknown arg: '' @ a) # ui_usage exe)"

text \<open>A program that ends with a code has said why, and one that runs has said nothing.\<close>

lemma usage_not_Nil: "daemon_usage exe \<noteq> []" "need_lines exe opt \<noteq> []" "ui_usage exe \<noteq> []"
  by (simp_all add: daemon_usage_def need_lines_def ui_usage_def)

lemma daemon_exit_explained: "daemon_says exe args \<noteq> [] \<longleftrightarrow> (\<exists>n. daemon_args args cfg = Exit n)"
  by (induction exe args arbitrary: cfg rule: daemon_says.induct)
    (auto simp: usage_not_Nil split: list.splits option.splits sum.splits)

lemma ui_exit_explained: "ui_says exe args \<noteq> [] \<longleftrightarrow> (\<exists>n. ui_args args hp = Exit n)"
  by (induction exe args arbitrary: hp rule: ui_says.induct)
    (auto simp: usage_not_Nil split: list.splits option.splits sum.splits)

text \<open>A listen address without a colon is the one mistake that is not followed by the usage text.\<close>

lemma listen_format_without_usage:
  "CHR '':'' \<notin> set v \<Longrightarrow>
     daemon_says exe [''--listen'', v] = [''Invalid --listen format, expected HOST:PORT'']"
  by (simp add: host_port_def split_at_def)

section \<open>Options as they are documented\<close>

datatype daemon_option =
    Listen string nat
  | Port string
  | Baud nat
  | Logdir string
  | Verbose bool

fun option_words :: "daemon_option \<Rightarrow> string list" where
  "option_words (Listen h p) = [''--listen'', h @ '':'' @ dec p]"
| "option_words (Port s) = [''--port'', s]"
| "option_words (Baud n) = [''--baud'', dec n]"
| "option_words (Logdir s) = [''--logdir'', s]"
| "option_words (Verbose long) = [if long then ''--verbose'' else ''-v'']"

fun configure :: "daemon_option \<Rightarrow> app_config \<Rightarrow> app_config" where
  "configure (Listen h p) cfg = cfg\<lparr>listen_host := h, listen_port := of_nat p\<rparr>"
| "configure (Port s) cfg = cfg\<lparr>serial_port := s\<rparr>"
| "configure (Baud n) cfg = cfg\<lparr>baud_rate := of_nat n\<rparr>"
| "configure (Logdir s) cfg = cfg\<lparr>log_dir := s\<rparr>"
| "configure (Verbose long) cfg = cfg\<lparr>verbose := True\<rparr>"

text \<open>Values the parsers read without an exception; ranges are those of \<open>int\<close> and of
  \<open>unsigned long\<close>, not of the fields.\<close>

fun option_ok :: "daemon_option \<Rightarrow> bool" where
  "option_ok (Listen h p) \<longleftrightarrow> CHR '':'' \<notin> set h \<and> p \<le> 2147483647"
| "option_ok (Baud n) \<longleftrightarrow> n \<le> 18446744073709551615"
| "option_ok _ \<longleftrightarrow> True"

lemma stoul_dec:
  assumes "n \<le> 18446744073709551615"
  shows "stoul (dec n) = Inr (of_nat n)"
proof -
  obtain c cs where c: "dec n = c # cs" "is_decimal c" using dec_Cons by blast
  have ne: "\<not> is_space c" "c \<noteq> CHR ''-''" "c \<noteq> CHR ''+''"
    using c(2) by (auto simp: is_decimal_def is_space_def Let_def)
  have "takeWhile is_decimal (dec n) = dec n" using dec_decimal by (simp add: takeWhile_eq_all_conv)
  moreover have "dec_value (c # cs) = n" using c(1) dec_value_dec [of n] by simp
  ultimately show ?thesis using assms ne by (simp add: stoul_def c(1) Let_def)
qed

lemma to_u32_of_nat: "to_u32 (of_nat n) = of_nat n"
  unfolding to_u32_def by transfer simp

lemma host_port_dec:
  "CHR '':'' \<notin> set h \<Longrightarrow> p \<le> 2147483647 \<Longrightarrow> host_port (h @ '':'' @ dec p) = Some (Inr (h, of_nat p))"
  using split_at_eq [of "CHR '':''" "h @ '':'' @ dec p" h "dec p"] stoi_dec [of p "[]"]
  by (simp add: host_port_def to_u16_def)

lemma daemon_args_option:
  assumes "option_ok opt"
  shows "daemon_args (option_words opt @ rest) cfg = daemon_args rest (configure opt cfg)"
proof (cases opt)
  case (Listen h p)
  with assms host_port_dec [of h p] show ?thesis by simp
next
  case (Baud n)
  with assms stoul_dec [of n] show ?thesis by (simp add: to_u32_of_nat)
qed simp_all

lemma daemon_args_options:
  "list_all option_ok opts \<Longrightarrow>
     daemon_args (concat (map option_words opts) @ rest) cfg = daemon_args rest (fold configure opts cfg)"
  by (induction opts arbitrary: cfg) (simp_all add: daemon_args_option)

text \<open>A word that is none of the documented options, with or without a dash, is refused.\<close>

definition daemon_words :: "string list" where
  "daemon_words = [''--listen'', ''--port'', ''--baud'', ''--logdir'', ''-h'', ''--help'', ''-v'', ''--verbose'']"

lemma unknown_word: "w \<notin> set daemon_words \<Longrightarrow> daemon_args (w # others) cfg = Exit 2"
  by (simp add: daemon_words_def)

lemma ui_main_connect:
  "CHR '':'' \<notin> set h \<Longrightarrow> p \<le> 2147483647 \<Longrightarrow>
     ui_main [''--connect'', h @ '':'' @ dec p] = Run (h, of_nat p)"
  by (simp add: ui_main_def host_port_dec del: append_Cons)

section \<open>Properties\<close>

text \<open>C40: The daemon's command line: documented options in any order and number configure the
  daemon, the last of a kind winning, ports taken modulo \<open>2 ^ 16\<close> and baud rates modulo
  \<open>2 ^ 32\<close>; after any of them a missing value, a listen address without a colon or any other word, with or
  without a dash, ends with code 2 and a request for help with code 0; a port or baud rate that is not a number is an
  exception nobody catches.\<close>
theorem daemon_command_line:
  assumes "list_all option_ok opts" and "ws = concat (map option_words opts)"
  shows "daemon_main ws = Run (fold configure opts default_config)
    \<and> (a \<in> {''--listen'', ''--port'', ''--baud'', ''--logdir''} \<longrightarrow> daemon_main (ws @ [a]) = Exit 2)
    \<and> (CHR '':'' \<notin> set v \<longrightarrow> daemon_main (ws @ ''--listen'' # v # others) = Exit 2)
    \<and> (w \<notin> set daemon_words \<longrightarrow> daemon_main (ws @ w # others) = Exit 2)
    \<and> daemon_main (ws @ ''--help'' # others) = Exit 0 \<and> daemon_main (ws @ ''-h'' # others) = Exit 0
    \<and> (CHR '':'' \<notin> set h \<and> stoi u = Inl e \<longrightarrow>
         daemon_main (ws @ ''--listen'' # (h @ '':'' @ u) # others) = Uncaught e)
    \<and> (stoul u = Inl e \<longrightarrow> daemon_main (ws @ ''--baud'' # u # others) = Uncaught e)"
proof -
  have rest: "daemon_main (ws @ r) = daemon_args r (fold configure opts default_config)" for r
    unfolding daemon_main_def assms(2) by (rule daemon_args_options) (fact assms(1))
  have "daemon_args (w # others) cfg = Exit 2" if "w \<notin> set daemon_words" for cfg
    using that by (rule unknown_word)
  moreover have "host_port v = None" if "CHR '':'' \<notin> set v"
    using that by (simp add: host_port_def split_at_def)
  moreover have "host_port (h @ '':'' @ u) = Some (Inl e)" if "CHR '':'' \<notin> set h" "stoi u = Inl e"
    using that split_at_eq [of "CHR '':''" "h @ '':'' @ u" h u] by (simp add: host_port_def)
  ultimately show ?thesis
    using rest [of "[]"] by (auto simp: rest simp del: daemon_args.simps(2)) (simp_all)
qed

theorem daemon_command_line_witness:
  "daemon_main [''--listen'', ''0.0.0.0:'' @ dec 73313, ''-v''] = Run (default_config
     \<lparr>listen_host := ''0.0.0.0'', listen_port := 7777, verbose := True\<rparr>)
   \<and> daemon_main [''--listen'', ''0.0.0.0:'' @ dec 73313, ''-v'', ''--baud'', ''fast''] = Uncaught Invalid_argument
   \<and> daemon_main [''--listen'', ''0.0.0.0:'' @ dec 73313, ''-v'', ''--foo''] = Exit 2"
proof -
  define ws where "ws = concat (map option_words [Listen ''0.0.0.0'' 73313, Verbose False])"
  have "list_all option_ok [Listen ''0.0.0.0'' 73313, Verbose False]" by simp
  from daemon_command_line [OF this ws_def, where u = "''fast''" and e = Invalid_argument and w = "''--foo''"
      and others = "[]"]
  have "daemon_main ws = Run (fold configure [Listen ''0.0.0.0'' 73313, Verbose False] default_config)"
    and "stoul ''fast'' = Inl Invalid_argument \<Longrightarrow>
      daemon_main (ws @ [''--baud'', ''fast'']) = Uncaught Invalid_argument"
    and "''--foo'' \<notin> set daemon_words \<Longrightarrow> daemon_main (ws @ [''--foo'']) = Exit 2" by blast+
  moreover have "''--foo'' \<notin> set daemon_words" by (simp add: daemon_words_def)
  moreover have "stoul ''fast'' = Inl Invalid_argument"
    by (simp add: stoul_def is_space_def is_decimal_def Let_def)
  moreover have "ws = [''--listen'', ''0.0.0.0:'' @ dec 73313, ''-v'']" by (simp add: ws_def)
  ultimately show ?thesis by simp
qed

end
