(* ===== verification/Daemon_Console.thy ===== *)
theory Daemon_Console
  imports Daemon_App Options
begin

text \<open>
  What the daemon prints: the lines \<open>print_packet\<close> writes for packets with \<open>--verbose\<close> and the two
  lines of the start (\<open>daemon/src/app.cpp\<close>). The lines of a handler are a function beside the
  handler of \<open>Daemon_App\<close>, with the same conditions; a handler that calls others prints what they
  print, each in the state its predecessors left. The lines agree with the frames that are
  announced and with the counters of \<open>STATS\<close>.
\<close>

section \<open>Lines\<close>

definition print_packet :: "string \<Rightarrow> packet_meta \<Rightarrow> string \<Rightarrow> string" where
  "print_packet tag m desc = tag @ '' APID='' @ dec (unat (apid m)) @ '' SEQ='' @ dec (unat (seqc m))
     @ '' SVC='' @ dec (unat (svc m)) @ '' SSV='' @ dec (unat (ssvc m)) @ '' LEN='' @ dec (unat (dlen m))
     @ '' '' @ desc"

definition daemon_banner :: "app_config \<Rightarrow> string list" where
  "daemon_banner cfg =
     [''exn_gsd listening on '' @ listen_host cfg @ '':'' @ dec (unat (listen_port cfg)),
      ''Link port: '' @ (if serial_port cfg = [] then ''(none)'' else serial_port cfg)]"

section \<open>Handlers\<close>

definition received_lines :: "'p environment \<Rightarrow> bool \<Rightarrow> bytes \<Rightarrow> daemon \<Rightarrow> string list" where
  "received_lines E v bs d =
     (case decode_meta (lib E) (clock E (ticks d)) bs of
        UB \<Rightarrow> []
      | Done (decoded, m, err) \<Rightarrow>
          if \<not> decoded then [] else if v then [print_packet ''[RX<-LINK]'' m ''RX''] else [])"

definition sent_lines :: "'p environment \<Rightarrow> bool \<Rightarrow> bytes \<Rightarrow> daemon \<Rightarrow> string list" where
  "sent_lines E v bs d =
     (case decode_meta (lib E) (clock E (ticks d)) bs of
        UB \<Rightarrow> []
      | Done (decoded, m, err) \<Rightarrow>
          if \<not> decoded then [] else if \<not> opened (dev d) then []
          else if v then [print_packet ''[TX->LINK]'' m ''TX''] else [])"

text \<open>Handlers run one after the other.\<close>

fun traced ::
    "('a \<Rightarrow> daemon \<Rightarrow> daemon cpp) \<Rightarrow> ('a \<Rightarrow> daemon \<Rightarrow> string list) \<Rightarrow> 'a list \<Rightarrow> daemon \<Rightarrow> string list" where
  "traced f out [] d = []"
| "traced f out (x # xs) d = out x d @ (case f x d of UB \<Rightarrow> [] | Done t \<Rightarrow> traced f out xs t)"

definition bytes_lines :: "'p environment \<Rightarrow> bool \<Rightarrow> bytes \<Rightarrow> daemon \<Rightarrow> string list" where
  "bytes_lines E v bs d =
     (case push_bytes (declared_packet_size (lib E)) bs (deframer d) of
        UB \<Rightarrow> []
      | Done (f, ps) \<Rightarrow> traced (packet_received E) (received_lines E v) ps (d\<lparr>deframer := f\<rparr>))"

fun callback_lines :: "'p environment \<Rightarrow> bool \<Rightarrow> link_out \<Rightarrow> daemon \<Rightarrow> string list" where
  "callback_lines E v (OnState op det) d = []"
| "callback_lines E v (OnError err) d = []"
| "callback_lines E v (OnBytes bs) d = bytes_lines E v bs d"

definition link_lines :: "'p environment \<Rightarrow> bool \<Rightarrow> link_event \<Rightarrow> daemon \<Rightarrow> string list" where
  "link_lines E v e d =
     (case link_step e (dev d) of
        Some (Done (l, outs)) \<Rightarrow> traced (link_callback E) (callback_lines E v) outs (d\<lparr>dev := l\<rparr>)
      | _ \<Rightarrow> [])"

text \<open>The operations of the link that a command calls deliver no octets, so a command prints nothing.\<close>

definition frame_lines :: "'p environment \<Rightarrow> bool \<Rightarrow> frame \<Rightarrow> daemon \<Rightarrow> string list" where
  "frame_lines E v f d = (if ftype f = PacketSend then sent_lines E v (payload f) d else [])"

definition session_lines :: "'p environment \<Rightarrow> bool \<Rightarrow> nat \<Rightarrow> session_event \<Rightarrow> daemon \<Rightarrow> string list" where
  "session_lines E v i e d =
     (case get_session i (ipc d) of
        None \<Rightarrow> []
      | Some s \<Rightarrow> (case session_step e s of
          Some (Done (t, fs)) \<Rightarrow> traced (frame_received E i) (frame_lines E v) fs
            (d\<lparr>ipc := update_session i (\<lambda>_. t) (ipc d)\<rparr>)
        | _ \<Rightarrow> []))"

fun step_lines :: "'p environment \<Rightarrow> bool \<Rightarrow> daemon_event \<Rightarrow> daemon \<Rightarrow> string list" where
  "step_lines E v Accepted d = []"
| "step_lines E v (SessionPosted i) d = session_lines E v i RunSend d"
| "step_lines E v (SessionRead i r) d = session_lines E v i (ReadDone r) d"
| "step_lines E v (SessionWritten i ec) d = session_lines E v i (WriteDone ec) d"
| "step_lines E v LinkPosted d = link_lines E v RunPosted d"
| "step_lines E v (LinkCompleted p r) d = link_lines E v (Complete p r) d"

fun run_lines :: "'p environment \<Rightarrow> bool \<Rightarrow> daemon_event list \<Rightarrow> daemon \<Rightarrow> string list" where
  "run_lines E v [] d = []"
| "run_lines E v (e # es) d =
     step_lines E v e d @ (case daemon_step E e d of Some (Done t) \<Rightarrow> run_lines E v es t | _ \<Rightarrow> [])"

section \<open>A line is what the announced frame says\<close>

definition frame_line :: "frame \<Rightarrow> string list" where
  "frame_line f =
     (case unpack_packet_meta (payload f) empty_meta [] of
        (ok, m, desc) \<Rightarrow> if ftype f = PacketRx then [print_packet ''[RX<-LINK]'' m desc]
          else if ftype f = PacketTx then [print_packet ''[TX->LINK]'' m desc] else [])"

lemma frame_line_packet:
  "frame_line (make_packet_frame PacketRx m ''RX'') = [print_packet ''[RX<-LINK]'' m ''RX'']"
  "frame_line (make_packet_frame PacketTx m ''TX'') = [print_packet ''[TX->LINK]'' m ''TX'']"
  using unpack_pack_packet_meta [of "''RX''" m "[]"] unpack_pack_packet_meta [of "''TX''" m "[]"]
  by (simp_all add: frame_line_def make_packet_frame_def)

lemma frame_line_error: "frame_line (make_error_frame x) = []"
  by (simp add: frame_line_def make_error_frame_def split: prod.splits)

lemma received_line_announced:
  assumes "packet_received E bs d = Done t"
  shows "\<exists>f. ipc t = broadcast f (ipc d) \<and> received_lines E True bs d = frame_line f"
proof -
  from assms obtain r where r: "decode_meta (lib E) (clock E (ticks d)) bs = Done r"
    by (auto simp: packet_received_def)
  obtain ok m err where "r = (ok, m, err)" by (cases r)
  with r assms show ?thesis
    by (cases ok) (auto simp: packet_received_def received_lines_def Let_def frame_line_packet
        frame_line_error intro!: exI)
qed

lemma sent_line_announced:
  assumes "packet_send E i bs d = Done t"
  shows "sent_lines E True bs d = [] \<and> (\<exists>x. t = reply i (make_error_frame x) (tick d))
    \<or> (\<exists>f. ipc t = broadcast f (ipc d) \<and> sent_lines E True bs d = frame_line f)"
proof -
  from assms obtain r where r: "decode_meta (lib E) (clock E (ticks d)) bs = Done r"
    by (auto simp: packet_send_def)
  obtain ok m err where "r = (ok, m, err)" by (cases r)
  with r assms show ?thesis
    by (cases ok; cases "opened (dev d)")
      (auto simp: packet_send_def sent_lines_def Let_def frame_line_packet intro!: exI)
qed

section \<open>The lines and the counters\<close>

definition told :: "state_store \<Rightarrow> u64" where
  "told s = rx_packets (snap s) - decode_errors (snap s) + tx_packets (snap s)"

lemma told_store [simp]:
  "told (on_packet r s) = told s + 1" "told (on_decode_error s) = told s - 1"
  "told (on_tx n s) = told s + 1" "told (set_link st x s) = told s" "told (new_store c) = 0"
  by (simp_all add: told_def on_packet_def Let_def on_decode_error_def on_tx_def set_link_def new_store_def
      empty_snapshot_def)

text \<open>A handler that prints one line for every packet it counts as good.\<close>

locale accounted =
  fixes handle :: "'a \<Rightarrow> daemon \<Rightarrow> daemon cpp" and out :: "'a \<Rightarrow> daemon \<Rightarrow> string list"
  assumes account: "handle x d = Done t \<Longrightarrow> told (store t) = told (store d) + of_nat (length (out x d))"
begin

lemma account_all:
  "fold_cpp handle xs d = Done t \<Longrightarrow>
     told (store t) = told (store d) + of_nat (length (traced handle out xs d))"
proof (induction xs arbitrary: d)
  case Nil
  then show ?case by simp
next
  case (Cons x xs)
  then obtain u where u: "handle x d = Done u" "fold_cpp handle xs u = Done t" by auto
  from Cons.IH [OF u(2)] account [OF u(1)] u(1) show ?case by (simp add: add.assoc)
qed

end

interpretation packets: accounted "packet_received E" "received_lines E True" for E
proof
  fix bs and d t :: daemon
  assume t: "packet_received E bs d = Done t"
  then obtain r where r: "decode_meta (lib E) (clock E (ticks d)) bs = Done r"
    by (auto simp: packet_received_def)
  obtain ok m err where "r = (ok, m, err)" by (cases r)
  with r t show "told (store t) = told (store d) + of_nat (length (received_lines E True bs d))"
    by (cases ok) (auto simp: packet_received_def received_lines_def Let_def)
qed

interpretation callbacks: accounted "link_callback E" "callback_lines E True" for E
proof
  fix x and d t :: daemon
  assume t: "link_callback E x d = Done t"
  show "told (store t) = told (store d) + of_nat (length (callback_lines E True x d))"
  proof (cases x)
    case (OnBytes bs)
    obtain f ps where f: "push_bytes (declared_packet_size (lib E)) bs (deframer d) = Done (f, ps)"
      using push_bytes_total by blast
    with t OnBytes have "fold_cpp (packet_received E) ps (d\<lparr>deframer := f\<rparr>) = Done t"
      by (simp add: link_bytes_def)
    from packets.account_all [OF this] OnBytes f show ?thesis by (simp add: bytes_lines_def)
  qed (use t in auto)
qed

lemma link_told:
  assumes "link_step e (dev d) = Some (Done r)" and "apply_link E r d = Done t"
  shows "told (store t) = told (store d) + of_nat (length (link_lines E True e d))"
proof -
  obtain l outs where r: "r = (l, outs)" by (cases r)
  with assms(2) have "fold_cpp (link_callback E) outs (d\<lparr>dev := l\<rparr>) = Done t" by (simp add: apply_link_def)
  from callbacks.account_all [OF this] assms(1) r show ?thesis by (simp add: link_lines_def)
qed

text \<open>Starting and stopping the link deliver no octets.\<close>

lemma link_commands_quiet:
  "start_link E d = Done t \<Longrightarrow> told (store t) = told (store d)"
  "stop_link E d = Done t \<Longrightarrow> told (store t) = told (store d)"
  by (auto simp: start_link_def stop_link_def apply_link_def link_start_def link_stop_def Let_def
      split: serial_result.splits if_splits)

interpretation frames: accounted "frame_received E i" "frame_lines E True" for E i
proof
  fix f and d t :: daemon
  assume t: "frame_received E i f d = Done t"
  show "told (store t) = told (store d) + of_nat (length (frame_lines E True f d))"
  proof (cases "ftype f = PacketSend")
    case True
    with t have p: "packet_send E i (payload f) d = Done t" by (simp add: frame_received_def)
    then obtain r where r: "decode_meta (lib E) (clock E (ticks d)) (payload f) = Done r"
      by (auto simp: packet_send_def)
    obtain ok m err where "r = (ok, m, err)" by (cases r)
    with r p True show ?thesis
      by (cases ok; cases "opened (dev d)")
        (auto simp: packet_send_def frame_lines_def sent_lines_def Let_def)
  next
    case False
    with t obtain r where "(case r of
        None \<Rightarrow> Done (reply i (make_error_frame ''Invalid IPC command payload'') d)
      | Some c \<Rightarrow> run_command E i (uppercase c) d) = Done t"
      by (auto simp: frame_received_def)
    then have "told (store t) = told (store d)"
    proof (cases r)
      case (Some c)
      assume "(case r of None \<Rightarrow> Done (reply i (make_error_frame ''Invalid IPC command payload'') d)
        | Some c \<Rightarrow> run_command E i (uppercase c) d) = Done t"
      with Some have "run_command E i (uppercase c) d = Done t" by simp
      then show ?thesis
      proof (cases rule: run_command_cases)
        case (restart u)
        then show ?thesis using link_commands_quiet(2) [of E d u] link_commands_quiet(1) [of E u t] by simp
      qed (auto dest: link_commands_quiet)
    qed auto
    with False show ?thesis by (simp add: frame_lines_def)
  qed
qed

lemma session_told:
  assumes "session_handler E i e d = Some (Done t)"
  shows "told (store t) = told (store d) + of_nat (length (session_lines E True i e d))"
proof -
  from assms obtain s r where s: "get_session i (ipc d) = Some s" "session_step e s = Some r"
    and r: "bind_cpp r (\<lambda>(t, fs). fold_cpp (frame_received E i) fs
       (d\<lparr>ipc := update_session i (\<lambda>_. t) (ipc d)\<rparr>)) = Done t"
    by (auto simp: session_handler_def split: option.splits)
  from r obtain u fs where u: "r = Done (u, fs)"
    "fold_cpp (frame_received E i) fs (d\<lparr>ipc := update_session i (\<lambda>_. u) (ipc d)\<rparr>) = Done t"
    by auto
  from frames.account_all [OF u(2)] u(1) s show ?thesis by (simp add: session_lines_def)
qed

lemma step_told:
  assumes "daemon_step E e d = Some (Done t)"
  shows "told (store t) = told (store d) + of_nat (length (step_lines E True e d))"
proof (cases e)
  case LinkPosted
  with assms obtain r where "link_step RunPosted (dev d) = Some (Done r)" "apply_link E r d = Done t"
    by (auto simp: link_handler_def simp del: link_step.simps)
  from link_told [OF this] LinkPosted show ?thesis by simp
next
  case (LinkCompleted p x)
  with assms obtain r where "link_step (Complete p x) (dev d) = Some (Done r)" "apply_link E r d = Done t"
    by (auto simp: link_handler_def simp del: link_step.simps)
  from link_told [OF this] LinkCompleted show ?thesis by simp
qed (use assms session_told in auto)

lemma run_told:
  "daemon_run E es d = Some (Done t) \<Longrightarrow>
     told (store t) = told (store d) + of_nat (length (run_lines E True es d))"
proof (induction es arbitrary: d)
  case Nil
  then show ?case by simp
next
  case (Cons e es)
  then obtain u where u: "daemon_step E e d = Some (Done u)" "daemon_run E es u = Some (Done t)"
    by (auto split: option.splits cpp.splits)
  from Cons.IH [OF u(2)] step_told [OF u(1)] u(1) show ?case by (simp add: add.assoc)
qed

lemma init_told:
  assumes "daemon_init E port b k = Inr (Done d)"
  shows "told (store d) = 0"
proof -
  from assms obtain l where "told (store (\<lparr>store = new_store 2000, logger = k, ipc = new_server, dev = l,
      deframer = set_on_packet new_framer, ticks = 0\<rparr>)) = 0" "new_link port b = Inr l"
    by (auto simp: daemon_init_def split: sum.splits)
  with assms show ?thesis
    by (auto simp: daemon_init_def Let_def split: if_splits dest: link_commands_quiet)
qed

text \<open>Without \<open>--verbose\<close> nothing is printed.\<close>

lemma traced_silent: "(\<And>x d. out x d = []) \<Longrightarrow> traced f out xs d = []"
  by (induction xs arbitrary: d) (auto split: cpp.splits)

lemma callback_silent: "callback_lines E False x d = []"
  by (cases x) (auto simp: bytes_lines_def received_lines_def traced_silent split: prod.splits cpp.splits)

lemma frame_silent: "frame_lines E False f d = []"
  by (auto simp: frame_lines_def sent_lines_def split: cpp.splits)

lemma step_silent: "step_lines E False e d = []"
  by (cases e) (auto simp: session_lines_def link_lines_def traced_silent callback_silent frame_silent
      split: option.splits cpp.splits)

lemma run_silent: "run_lines E False es d = []"
  by (induction es arbitrary: d) (auto simp: step_silent split: option.splits cpp.splits)

section \<open>Properties\<close>

text \<open>C16: The console and the counters tell the same: on every run of the daemon from its start with
  \<open>--verbose\<close>, whatever the clients, the device and the clock do, the lines printed for packets, together with
  the undecodable packets, are exactly the packets \<open>STATS\<close> counts as received and sent (the counters wrap
  at 64 bits); without \<open>--verbose\<close> no packet is printed.\<close>

theorem console_agrees_with_stats:
  assumes "daemon_init E port b k = Inr (Done d)" and "daemon_run E es d = Some (Done t)"
  shows "of_nat (length (run_lines E True es d)) + decode_errors (snap (store t))
      = rx_packets (snap (store t)) + tx_packets (snap (store t))
    \<and> run_lines E False es d = []"
proof -
  have "told (store t) = of_nat (length (run_lines E True es d))"
    using run_told [OF assms(2)] init_told [OF assms(1)] by simp
  then have "of_nat (length (run_lines E True es d)) + decode_errors (snap (store t))
      = rx_packets (snap (store t)) + tx_packets (snap (store t))"
    by (simp add: told_def flip: diff_eq_eq) (simp add: algebra_simps)
  then show ?thesis by (simp add: run_silent)
qed

theorem console_agrees_with_stats_witness:
  "\<exists>t. daemon_run bench [LinkCompleted (ReadOp 1) (Inr [8, 1, 192, 7, 0, 0, 170])] bench_open = Some (Done t)
     \<and> of_nat (length (run_lines bench True [LinkCompleted (ReadOp 1) (Inr [8, 1, 192, 7, 0, 0, 170])] bench_open))
        + decode_errors (snap (store t)) = rx_packets (snap (store t)) + tx_packets (snap (store t))"
proof -
  let ?e = "LinkCompleted (ReadOp 1) (Inr [8, 1, 192, 7, 0, 0, 170])"
  obtain t where "packet_received bench [8, 1, 192, 7, 0, 0, 170] bench_open = Done t"
    using packet_received_effect [OF bench_sane parts_ok_reach [OF reach_bench_open]] by blast
  then have "daemon_run bench [?e] bench_open = Some (Done t)" by (simp add: bench_packet_step del: daemon_step.simps)
  with console_agrees_with_stats [OF bench_started this] show ?thesis by blast
qed

end
