(* ===== verification/Progress.thy ===== *)
theory Progress
  imports GS_Prelude
begin

text \<open>
  The interface of a program that is left to itself: its inner steps need no one outside. Where
  each of them uses up some work and one is possible as long as there is any, every run of inner steps is
  bounded and ends at rest; where they pass on what is waiting, a run that ends at rest has
  passed on everything, in order.
\<close>

fun run_steps :: "('e \<Rightarrow> 's \<Rightarrow> 's cpp option) \<Rightarrow> 'e list \<Rightarrow> 's \<Rightarrow> 's cpp option" where
  "run_steps step [] s = Some (Done s)"
| "run_steps step (e # es) s =
     (case step e s of
        Some (Done t) \<Rightarrow> run_steps step es t
      | r \<Rightarrow> r)"

lemma run_steps_Cons:
  "run_steps step (e # es) s = Some (Done t) \<longleftrightarrow>
     (\<exists>u. step e s = Some (Done u) \<and> run_steps step es u = Some (Done t))"
  by (auto split: option.splits cpp.splits)

text \<open>What the steps of a run put out.\<close>

fun outputs :: "('e \<Rightarrow> 's \<Rightarrow> 's cpp option) \<Rightarrow> ('e \<Rightarrow> 's \<Rightarrow> 'o list) \<Rightarrow> 'e list \<Rightarrow> 's \<Rightarrow> 'o list" where
  "outputs step out [] s = []"
| "outputs step out (e # es) s =
     (case step e s of
        Some (Done t) \<Rightarrow> out e s @ outputs step out es t
      | _ \<Rightarrow> [])"

locale progress =
  fixes step :: "'e \<Rightarrow> 's \<Rightarrow> 's cpp option" and inner :: "'e \<Rightarrow> bool" and ok :: "'s \<Rightarrow> bool"
    and work :: "'s \<Rightarrow> nat" and rest :: "'s \<Rightarrow> bool"
  assumes advances: "ok s \<Longrightarrow> inner e \<Longrightarrow> step e s = Some (Done t) \<Longrightarrow> ok t \<and> work t < work s"
    and possible: "ok s \<Longrightarrow> \<not> rest s \<Longrightarrow> \<exists>e t. inner e \<and> step e s = Some (Done t)"
    and stays: "ok s \<Longrightarrow> rest s \<Longrightarrow> inner e \<Longrightarrow> step e s = None"
begin

lemma run_bounded:
  "run_steps step es s = Some (Done t) \<Longrightarrow> list_all inner es \<Longrightarrow> ok s \<Longrightarrow> ok t \<and> length es + work t \<le> work s"
proof (induction es arbitrary: s)
  case Nil
  then show ?case by simp
next
  case (Cons e es)
  from Cons.prems(1) obtain u where u: "step e s = Some (Done u)" "run_steps step es u = Some (Done t)"
    by (auto simp only: run_steps_Cons)
  with Cons.IH [OF u(2)] Cons.prems(2,3) advances [of s e u] show ?case by simp
qed

lemma rest_iff: "ok s \<Longrightarrow> rest s \<longleftrightarrow> (\<forall>e. inner e \<longrightarrow> step e s = None)"
  using possible [of s] stays [of s] by fastforce

lemma run_to_rest: "ok s \<Longrightarrow> \<exists>es t. list_all inner es \<and> run_steps step es s = Some (Done t) \<and> rest t"
proof (induction "work s" arbitrary: s rule: less_induct)
  case less
  show ?case
  proof (cases "rest s")
    case True
    then show ?thesis by (intro exI [of _ "[]"]) simp
  next
    case False
    then obtain e t where e: "inner e" "step e s = Some (Done t)"
      using possible less.prems by blast
    with advances [OF less.prems] have "work t < work s" "ok t" by blast+
    from less.hyps [OF this] obtain es u where
      "list_all inner es" "run_steps step es t = Some (Done u)" "rest u" by blast
    with e show ?thesis by (intro exI [of _ "e # es"]) auto
  qed
qed

end

text \<open>A run that puts out what is waiting, and what its own steps add (\<open>inp\<close>).\<close>

locale delivering = progress step inner ok work rest
  for step :: "'e \<Rightarrow> 's \<Rightarrow> 's cpp option" and inner ok work rest +
  fixes out :: "'e \<Rightarrow> 's \<Rightarrow> 'o list" and waiting :: "'s \<Rightarrow> 'o list" and inp :: "'e \<Rightarrow> 's \<Rightarrow> 'o list"
  assumes passes: "ok s \<Longrightarrow> inner e \<Longrightarrow> step e s = Some (Done t) \<Longrightarrow> out e s @ waiting t = waiting s @ inp e s"
    and none_at_rest: "ok s \<Longrightarrow> rest s \<Longrightarrow> waiting s = []"
begin

lemma run_passes:
  "run_steps step es s = Some (Done t) \<Longrightarrow> list_all inner es \<Longrightarrow> ok s \<Longrightarrow>
     outputs step out es s @ waiting t = waiting s @ outputs step inp es s"
proof (induction es arbitrary: s)
  case Nil
  then show ?case by simp
next
  case (Cons e es)
  from Cons.prems(1) obtain u where u: "step e s = Some (Done u)" "run_steps step es u = Some (Done t)"
    by (auto simp only: run_steps_Cons)
  with Cons.prems(2,3) advances [of s e u] passes [of s e u]
  have "ok u" and p: "out e s @ waiting u = waiting s @ inp e s" by simp_all
  with Cons.IH [OF u(2)] Cons.prems(2)
  have "outputs step out es u @ waiting t = waiting u @ outputs step inp es u" by simp
  then have "outputs step out (e # es) s @ waiting t = (out e s @ waiting u) @ outputs step inp es u"
    using u(1) by simp
  then show ?case using p u(1) by simp
qed

lemma all_delivered:
  assumes "run_steps step es s = Some (Done t)" and "list_all inner es" and "ok s" and "rest t"
  shows "outputs step out es s = waiting s @ outputs step inp es s"
  using run_passes [OF assms(1-3)] run_bounded [OF assms(1-3)] none_at_rest [of t] assms(4) by simp

end

lemma outputs_none [simp]: "outputs step (\<lambda>_ _. []) es s = []"
  by (induction es arbitrary: s) (auto split: option.split cpp.split)

end
