(* ===== verification/Daemon_Progress.thy ===== *)
theory Daemon_Progress
  imports Progress Daemon_App
begin

text \<open>
  Progress of the daemon: what becomes of the frames and packets it has accepted when nothing
  more arrives. The handlers that are posted run and the writes in progress complete; every such
  step uses up some of the backlog, one is possible as long as there is any, and each client is
  written its frames, and the device its packets, whole and in order. Closing a connection cancels what is in
  progress on it, and each cancelled operation of the link raises one more error, which is announced too.
\<close>

section \<open>Invariants of the sessions\<close>

text \<open>What holds of the IPC server in every state of the daemon: the laws speak of the server's operations.\<close>

locale server_invariant =
  fixes R :: "ipc_server \<Rightarrow> bool"
  assumes fresh: "R new_server"
    and accepted: "R srv \<Longrightarrow> R (accept_session srv)"
    and broadcasted: "R srv \<Longrightarrow> R (broadcast f srv)"
    and sent_to: "R srv \<Longrightarrow> R (send_to i f srv)"
    and stepped: "R srv \<Longrightarrow> get_session i srv = Some s \<Longrightarrow> session_step e s = Some (Done (t, fs)) \<Longrightarrow>
      R (update_session i (\<lambda>_. t) srv)"
begin

lemma keeps_packet: "packet_received E bs d = Done t \<Longrightarrow> R (ipc d) \<Longrightarrow> R (ipc t)"
  by (auto simp: packet_received_def Let_def intro: broadcasted split: if_splits)

lemma keeps_report: "R (ipc d) \<Longrightarrow> R (ipc (report_link st x d))"
  by (simp add: report_link_def publish_link_state_def broadcasted)

lemma keeps_callback:
  assumes "link_callback E x d = Done t" and "R (ipc d)"
  shows "R (ipc t)"
proof (cases x)
  case (OnBytes bs)
  obtain f ps where f: "push_bytes (declared_packet_size (lib E)) bs (deframer d) = Done (f, ps)"
    using push_bytes_total by blast
  with assms(1) OnBytes have r: "fold_cpp (packet_received E) ps (d\<lparr>deframer := f\<rparr>) = Done t"
    by (simp add: link_bytes_def)
  show ?thesis by (rule fold_cpp_invariant [OF r]) (use assms(2) keeps_packet in auto)
qed (use assms in \<open>auto intro: keeps_report\<close>)

lemma keeps_apply:
  assumes "apply_link E r d = Done t" and "R (ipc d)"
  shows "R (ipc t)"
proof -
  from assms(1) have r: "fold_cpp (link_callback E) (snd r) (d\<lparr>dev := fst r\<rparr>) = Done t"
    by (simp add: apply_link_def)
  show ?thesis by (rule fold_cpp_invariant [OF r]) (use assms(2) keeps_callback in auto)
qed

lemma keeps_reply: "R (ipc d) \<Longrightarrow> R (ipc (reply i f d))"
  by (simp add: sent_to)

lemma keeps_links:
  "start_link E d = Done t \<Longrightarrow> R (ipc d) \<Longrightarrow> R (ipc t)"
  "stop_link E d = Done t \<Longrightarrow> R (ipc d) \<Longrightarrow> R (ipc t)"
  unfolding start_link_def stop_link_def by (rule keeps_apply; assumption)+

lemma keeps_frame:
  assumes "frame_received E i f d = Done t" and "R (ipc d)"
  shows "R (ipc t)"
proof (cases "ftype f = PacketSend")
  case True
  with assms show ?thesis
    by (auto simp: frame_received_def packet_send_def Let_def intro: sent_to broadcasted split: if_splits)
next
  case False
  with assms(1) obtain r where r: "(case r of
      None \<Rightarrow> Done (reply i (make_error_frame ''Invalid IPC command payload'') d)
    | Some c \<Rightarrow> run_command E i (uppercase c) d) = Done t"
    by (auto simp: frame_received_def)
  show ?thesis
  proof (cases r)
    case (Some c)
    with r have "run_command E i (uppercase c) d = Done t" by simp
    then show ?thesis
      by (cases rule: run_command_cases) (use assms(2) keeps_reply keeps_links in blast)+
  qed (use r assms(2) keeps_reply in auto)
qed

lemma keeps_session:
  assumes "session_handler E i e d = Some (Done t)" and "R (ipc d)"
  shows "R (ipc t)"
proof -
  from assms(1) obtain s u fs where s: "get_session i (ipc d) = Some s" "session_step e s = Some (Done (u, fs))"
    and r: "fold_cpp (frame_received E i) fs (d\<lparr>ipc := update_session i (\<lambda>_. u) (ipc d)\<rparr>) = Done t"
    by (auto simp: session_handler_def split: option.splits)
  have "R (ipc (d\<lparr>ipc := update_session i (\<lambda>_. u) (ipc d)\<rparr>))" using stepped [OF assms(2) s] by simp
  with r show ?thesis by (rule fold_cpp_invariant) (rule keeps_frame)
qed

lemma keeps_step:
  assumes "daemon_step E e d = Some (Done t)" and "R (ipc d)"
  shows "R (ipc t)"
proof (cases e)
  case Accepted
  with assms have "t = client_accepted d" by simp
  then show ?thesis using assms(2) by (simp add: client_accepted_def accepted sent_to)
qed (use assms keeps_session keeps_apply in \<open>auto simp: link_handler_def simp del: link_step.simps\<close>)

lemma everywhere: "daemon_reach E d \<Longrightarrow> R (ipc d)"
proof (induction rule: daemon_reach.induct)
  case (daemon_starts port b k d)
  then obtain l where l: "new_link port b = Inr l" by (auto simp: daemon_init_def split: sum.splits)
  define d0 where "d0 = report_link Disconnected [] \<lparr>store = new_store 2000, logger = k, ipc = new_server,
      dev = l, deframer = set_on_packet new_framer, ticks = 0\<rparr>"
  have "(if port \<noteq> [] then start_link E d0 else Done d0) = Done d"
    using daemon_starts l by (cases "port = []") (simp_all add: daemon_init_def Let_def d0_def)
  moreover have "R (ipc d0)" unfolding d0_def by (rule keeps_report) (simp add: fresh)
  ultimately show ?case using keeps_links(1) by (auto split: if_splits)
next
  case (daemon_steps d e t)
  then show ?case by (blast intro: keeps_step)
qed

end

text \<open>Every session of the daemon is in a state the session can reach.\<close>

definition sessions_reach :: "ipc_server \<Rightarrow> bool" where
  "sessions_reach srv \<longleftrightarrow> server_inv srv \<and> (\<forall>s \<in> snd ` set (sessions srv). session_reach s)"

lemma session_reach_send: "session_reach s \<Longrightarrow> session_reach (session_send f s)"
  by (rule session_next [of s "Send f"]) simp_all

interpretation each_session: server_invariant sessions_reach
proof
  show "sessions_reach new_server" by (simp add: sessions_reach_def server_inv_new) (simp add: new_server_def)
next
  fix srv
  assume "sessions_reach srv"
  then show "sessions_reach (accept_session srv)"
    by (auto simp: sessions_reach_def server_inv_accept) (auto simp: accept_session_def intro: session_new)
next
  fix srv f
  assume "sessions_reach srv"
  then show "sessions_reach (broadcast f srv)"
    by (auto simp: sessions_reach_def server_inv_broadcast)
      (force simp: broadcast_def intro: session_reach_send)
next
  fix srv f i
  assume "sessions_reach srv"
  then show "sessions_reach (send_to i f srv)"
    by (auto simp: sessions_reach_def send_to_def server_inv_update)
      (force simp: update_session_def intro: session_reach_send split: if_splits)
next
  fix srv i s e t fs
  assume srv: "sessions_reach srv" and s: "get_session i srv = Some s" "session_step e s = Some (Done (t, fs))"
  have "s \<in> snd ` set (sessions srv)" using s(1) by (force simp: get_session_def dest: map_of_SomeD)
  with srv s(2) have "session_reach t" by (auto simp: sessions_reach_def intro: session_next)
  with srv show "sessions_reach (update_session i (\<lambda>_. t) srv)"
    by (auto simp: sessions_reach_def server_inv_update) (force simp: update_session_def split: if_splits)
qed

text \<open>The device link is in a state it can reach.\<close>

interpretation link_reached: daemon_invariant E "\<lambda>s l. \<exists>n. link_reach n l" for E
proof
  fix bs l s
  assume "\<exists>n. link_reach n l"
  then show "\<exists>n. link_reach n (write_bytes bs l)"
    using reach_step [of _ l "Write bs" "write_bytes bs l" "[]"] by auto
qed (auto intro: reach_new reach_step)

section \<open>Deliveries\<close>

text \<open>
  What happens while nothing more arrives. A handler posted by \<open>send\<close> or \<open>write_bytes\<close> runs; a write to a
  client or to the device completes. A write to an open socket succeeds, one to a socket closed meanwhile is
  cancelled (had it already succeeded when the socket was closed, its handler would pop an empty queue, an
  undefined behaviour that is a matter of \<open>Ipc_Server\<close>), and so is the read of a closed socket. An operation of the link whose
  connection is gone, by an error or by \<open>stop\<close>, is cancelled with some message, unless it is a write that was
  already done.
\<close>

datatype delivery =
    PassToSession nat
  | WriteToClient nat
  | ReadCancelled nat string
  | PassToLink
  | WriteToDevice u64 bytes
  | LinkCancelled link_op string

definition client_write :: "nat \<Rightarrow> daemon \<Rightarrow> string option" where
  "client_write i d = (case get_session i (ipc d) of
       None \<Rightarrow> None
     | Some s \<Rightarrow> if sock_open s then None else Some ''Operation canceled'')"

fun delivery_event :: "delivery \<Rightarrow> daemon \<Rightarrow> daemon_event" where
  "delivery_event (PassToSession i) d = SessionPosted i"
| "delivery_event (WriteToClient i) d = SessionWritten i (client_write i d)"
| "delivery_event (ReadCancelled i e) d = SessionRead i (Inl e)"
| "delivery_event PassToLink d = LinkPosted"
| "delivery_event (WriteToDevice g b) d = LinkCompleted (WriteOp g b) (Inr [])"
| "delivery_event (LinkCancelled p e) d = LinkCompleted p (Inl e)"

text \<open>The operations that closing the connection cancels.\<close>

definition cut_off :: "serial_link \<Rightarrow> link_op \<Rightarrow> bool" where
  "cut_off l p \<longleftrightarrow> op_gen p \<noteq> generation l \<or> \<not> opened l \<and> \<not> connecting l"

fun can_deliver :: "delivery \<Rightarrow> daemon \<Rightarrow> bool" where
  "can_deliver (ReadCancelled i e) d =
     (case get_session i (ipc d) of None \<Rightarrow> False | Some s \<Rightarrow> \<not> sock_open s)"
| "can_deliver (LinkCancelled p e) d = cut_off (dev d) p"
| "can_deliver _ d = True"

definition deliver :: "'p environment \<Rightarrow> delivery \<Rightarrow> daemon \<Rightarrow> daemon cpp option" where
  "deliver E x d = (if can_deliver x d then daemon_step E (delivery_event x d) d else None)"

text \<open>The events of a run of deliveries, which is a run of the daemon.\<close>

fun delivery_events :: "'p environment \<Rightarrow> delivery list \<Rightarrow> daemon \<Rightarrow> daemon_event list" where
  "delivery_events E [] d = []"
| "delivery_events E (x # xs) d = delivery_event x d #
     (case deliver E x d of Some (Done t) \<Rightarrow> delivery_events E xs t | _ \<Rightarrow> [])"

lemma deliver_run:
  "run_steps (deliver E) xs d = Some (Done t) \<Longrightarrow> daemon_run E (delivery_events E xs d) d = Some (Done t)"
proof (induction xs arbitrary: d)
  case Nil
  then show ?case by simp
next
  case (Cons x xs)
  then obtain u where u: "deliver E x d = Some (Done u)" "run_steps (deliver E) xs u = Some (Done t)"
    by (auto simp only: run_steps_Cons)
  moreover have "daemon_step E (delivery_event x d) d = Some (Done u)"
    using u(1) by (simp add: deliver_def split: if_splits)
  ultimately show ?case using Cons.IH [OF u(2)] by (simp del: daemon_step.simps)
qed

section \<open>One session\<close>

definition session_load :: "session \<Rightarrow> nat" where
  "session_load s = 2 * length (send_posted s)
     + (if sock_open s then length (out_queue s) else length (writing s) + (if reading s then 1 else 0))"

text \<open>The frames a client will still be written, and those a completion has written.\<close>

definition session_waiting :: "session \<Rightarrow> bytes list" where
  "session_waiting s = (if sock_open s then out_queue s @ send_posted s else [])"

definition session_written_now :: "session \<Rightarrow> bytes list" where
  "session_written_now s = (if sock_open s then take 1 (writing s) else [])"

definition session_idle :: "session \<Rightarrow> bool" where
  "session_idle s \<longleftrightarrow> send_posted s = [] \<and> writing s = [] \<and> (sock_open s \<or> \<not> reading s)"

lemma session_post_step:
  assumes "session_inv s" and "session_step RunSend s = Some r"
  shows "\<exists>t. r = Done (t, []) \<and> session_load t < session_load s \<and> session_waiting t = session_waiting s
    \<and> sock_open t = sock_open s"
proof -
  from assms(2) obtain b bs where b: "send_posted s = b # bs" by (auto split: list.splits)
  let ?t = "send_handler b (s\<lparr>send_posted := bs\<rparr>)"
  have "session_load ?t < session_load s \<and> session_waiting ?t = session_waiting s \<and> sock_open ?t = sock_open s"
    using b by (simp add: session_load_def session_waiting_def send_handler_def session_do_write_def Let_def)
  with assms(2) b show ?thesis by (intro exI [of _ ?t]) simp
qed

lemma session_write_step:
  assumes "session_inv s" and "session_step (WriteDone (if sock_open s then None else Some e)) s = Some r"
  shows "\<exists>t. r = Done (t, []) \<and> session_load t < session_load s
    \<and> session_written_now s @ session_waiting t = session_waiting s \<and> sock_open t = sock_open s"
proof -
  from assms(2) obtain b ws where b: "writing s = b # ws" by (auto split: list.splits)
  show ?thesis
  proof (cases "sock_open s")
    case True
    with assms(1) b obtain q where q: "out_queue s = b # q" "ws = []"
      by (cases "out_queue s") (auto simp: session_inv_def)
    let ?t = "session_do_write (s\<lparr>writing := [], out_queue := q\<rparr>)"
    have "session_load ?t < session_load s \<and> session_written_now s @ session_waiting ?t = session_waiting s
        \<and> sock_open ?t = sock_open s"
      using True b q by (simp add: session_load_def session_waiting_def session_written_now_def session_do_write_def)
    moreover have "r = Done (?t, [])" using assms(2) True b q by (simp add: write_completed_def)
    ultimately show ?thesis by blast
  next
    case False
    let ?t = "s\<lparr>writing := ws, out_queue := [], sock_open := False\<rparr>"
    have "session_load ?t < session_load s \<and> session_written_now s @ session_waiting ?t = session_waiting s
        \<and> sock_open ?t = sock_open s"
      using False b by (simp add: session_load_def session_waiting_def session_written_now_def)
    moreover have "r = Done (?t, [])" using assms(2) False b by (simp add: write_completed_def)
    ultimately show ?thesis by blast
  qed
qed

lemma session_read_step:
  assumes "\<not> sock_open s" and "session_step (ReadDone (Inl e)) s = Some r"
  shows "\<exists>t. r = Done (t, []) \<and> session_load t < session_load s \<and> session_waiting t = session_waiting s
    \<and> sock_open t = sock_open s"
proof -
  let ?t = "s\<lparr>sock_open := False, out_queue := [], reading := False\<rparr>"
  have "r = Done (?t, [])" "reading s" using assms(2) by (simp_all add: read_completed_def split: if_splits)
  with assms(1) show ?thesis by (simp add: session_load_def session_waiting_def)
qed

lemma session_idle_iff:
  "session_idle s \<longleftrightarrow> session_step RunSend s = None \<and> session_step (WriteDone ec) s = None
     \<and> (sock_open s \<or> session_step (ReadDone (Inl e)) s = None)"
  by (cases "send_posted s"; cases "writing s") (simp_all add: session_idle_def)

lemma session_idle_waiting: "session_inv s \<Longrightarrow> session_idle s \<Longrightarrow> session_waiting s = []"
  by (cases "out_queue s") (auto simp: session_inv_def session_idle_def session_waiting_def split: if_splits)

section \<open>The link\<close>

text \<open>Writes may complete at any time, the other operations in progress only where they are cut off.\<close>

definition may_end :: "serial_link \<Rightarrow> link_op \<Rightarrow> bool" where
  "may_end l p \<longleftrightarrow> is_write p \<or> cut_off l p"

text \<open>Each operation that may end counts \<open>w\<close>, for the frames its end may cause.\<close>

definition link_load :: "nat \<Rightarrow> serial_link \<Rightarrow> nat" where
  "link_load w l = (w + 2) * length (posted l) + length (tx_queue l) + w * length (filter (may_end l) (pending l))"

definition link_waiting :: "serial_link \<Rightarrow> bytes list" where
  "link_waiting l = (if opened l then tx_queue l @ posted l else [])"

definition link_idle :: "serial_link \<Rightarrow> bool" where
  "link_idle l \<longleftrightarrow> posted l = [] \<and> filter (may_end l) (pending l) = []"

lemma link_load_mono: "v \<le> w \<Longrightarrow> link_load v l \<le> link_load w l"
  by (auto simp: link_load_def intro!: add_mono mult_le_mono)

text \<open>The invariant of the link, and that its generations have not wrapped.\<close>

definition link_sound :: "serial_link \<Rightarrow> bool" where
  "link_sound l \<longleftrightarrow> link_inv l \<and> unat (generation l) + 1 < 18446744073709551616"

lemma link_sound_step:
  "link_sound l \<Longrightarrow> link_step e l = Some (Done (m, outs)) \<Longrightarrow> generation m = generation l \<Longrightarrow> link_sound m"
  using link_inv_step [of l e m outs] by (simp add: link_sound_def)

text \<open>What a delivery leaves as it is.\<close>

definition same_connection :: "serial_link \<Rightarrow> serial_link \<Rightarrow> bool" where
  "same_connection l m \<longleftrightarrow> opened m = opened l \<and> connecting m = connecting l \<and> generation m = generation l"

lemma same_connection_may_end: "same_connection l m \<Longrightarrow> may_end m = may_end l"
  by (simp add: same_connection_def may_end_def cut_off_def fun_eq_iff)

text \<open>A closed link starts nothing.\<close>

definition no_more_ops :: "serial_link \<Rightarrow> serial_link \<Rightarrow> bool" where
  "no_more_ops l m \<longleftrightarrow> opened l \<or> length (current m) \<le> length (current l)"

lemma no_more_ops_take: "no_more_ops l (take_op p l)"
  by (auto simp: no_more_ops_def current_take_op length_remove1)

lemma link_post_step:
  assumes "link_step RunPosted l = Some r" and "0 < w"
  shows "\<exists>m. r = Done (m, []) \<and> link_load w m < link_load w l \<and> link_waiting m = link_waiting l
    \<and> same_connection l m \<and> no_more_ops l m"
proof -
  from assms(1) obtain b bs where b: "posted l = b # bs" by (auto split: list.splits)
  let ?m = "after_post b (l\<lparr>posted := bs\<rparr>)"
  have same: "same_connection l ?m"
    by (simp add: same_connection_def after_post_def next_write_def start_op_def Let_def)
  have "no_more_ops l ?m" by (auto simp: no_more_ops_def after_post_def current_def)
  moreover have "link_load w ?m < link_load w l \<and> link_waiting ?m = link_waiting l"
    using b same_connection_may_end [OF same] assms(2)
    by (simp add: link_load_def link_waiting_def after_post_def next_write_def start_op_def Let_def)
  ultimately show ?thesis using same assms(1) b by (intro exI [of _ ?m]) simp
qed

text \<open>A write of the current connection is of the buffer at the front; one of an earlier connection is
  of no one any more.\<close>

definition link_written_now :: "u64 \<Rightarrow> bytes \<Rightarrow> serial_link \<Rightarrow> bytes list" where
  "link_written_now g b l = (if g = generation l \<and> opened l then [b] else [])"

lemma length_filter_take:
  "p \<in> set ps \<Longrightarrow> P p \<Longrightarrow> Suc (length (filter P (remove1 p ps))) = length (filter P ps)"
  by (induction ps) auto

lemma load_taken:
  assumes "p \<in> set (pending l)" and "may_end l p" and "same_connection l m"
    and "pending m = remove1 p (pending l)" and "posted m = posted l" and "tx_queue m = tx_queue l"
  shows "link_load w m + w = link_load w l"
proof -
  have "length (filter (may_end l) (pending l)) = Suc (length (filter (may_end l) (pending m)))"
    using length_filter_take [of p "pending l" "may_end l"] assms(1,2,4) by simp
  with assms(5,6) same_connection_may_end [OF assms(3)] show ?thesis by (simp add: link_load_def)
qed

lemma link_write_step:
  assumes "link_sound l" and "link_step (Complete (WriteOp g b) (Inr [])) l = Some r" and "0 < w"
  shows "\<exists>m. r = Done (m, []) \<and> link_load w m < link_load w l \<and> link_written_now g b l @ link_waiting m = link_waiting l
    \<and> same_connection l m \<and> no_more_ops l m"
proof -
  let ?l = "take_op (WriteOp g b) l"
  from assms(2) have p: "WriteOp g b \<in> set (pending l)" and r: "r = Done (written g (Inr []) ?l)"
    by (auto simp: take_op_def split: if_splits)
  have same: "same_connection l ?l" by (simp add: same_connection_def)
  have load: "link_load w ?l + w = link_load w l"
    by (rule load_taken [OF p _ same]) (simp_all add: may_end_def take_op_def)
  show ?thesis
  proof (cases "g = generation l \<and> opened l")
    case True
    with p have "WriteOp g b \<in> set (filter is_write (current l))" by (simp add: current_def)
    with assms(1) True have "WriteOp g b \<in> set (outstanding l)" by (simp add: link_sound_def link_inv_def)
    then obtain q where q: "tx_queue l = b # q" by (cases "tx_queue l") (auto simp: outstanding_def)
    let ?m = "next_write g (?l\<lparr>tx_queue := q\<rparr>)"
    have c: "same_connection l ?m" by (simp add: same_connection_def next_write_def start_op_def)
    have "may_end ?m = may_end ?l"
      using same_connection_may_end [OF c] same_connection_may_end [OF same] by simp
    then have "link_load w ?m < link_load w ?l + w"
      using q assms(3) True by (simp add: link_load_def next_write_def start_op_def may_end_def)
    moreover have "link_written_now g b l @ link_waiting ?m = link_waiting l"
      using True q by (simp add: link_waiting_def link_written_now_def next_write_def start_op_def)
    moreover have "r = Done (?m, [])" using r True q by (simp add: written_def Let_def)
    moreover have "no_more_ops l ?m" using True by (simp add: no_more_ops_def)
    ultimately show ?thesis using load c by auto
  next
    case False
    then have q: "g = generation l \<Longrightarrow> tx_queue l = []"
      using assms(1) by (auto simp: link_sound_def link_inv_def)
    have "link_written_now g b l @ link_waiting ?l = link_waiting l"
      using False by (simp add: link_waiting_def link_written_now_def)
    moreover have "r = Done (?l, [])" using r False q by (auto simp: written_def next_write_def Let_def)
    ultimately show ?thesis using load assms(3) same no_more_ops_take [of l "WriteOp g b"] by auto
  qed
qed

text \<open>A cancelled operation of the connection that was closed last raises one more error.\<close>

definition error_context :: "serial_link \<Rightarrow> link_op \<Rightarrow> string" where
  "error_context l p = (case p of
       ResolveOp g \<Rightarrow> ''tcp resolve failed''
     | ConnectOp g \<Rightarrow> ''tcp connect failed''
     | ReadOp g \<Rightarrow> if is_tcp l then ''tcp read failed'' else ''serial read failed''
     | WriteOp g b \<Rightarrow> ''device write failed'')"

definition cancel_error :: "serial_link \<Rightarrow> link_op \<Rightarrow> string \<Rightarrow> string option" where
  "cancel_error l p e = (if op_gen p = generation l then Some (error_context l p @ '': '' @ e) else None)"

lemma link_cancel_step:
  assumes "link_sound l" and "cut_off l p" and "link_step (Complete p (Inl e)) l = Some r"
  shows "r = Done (take_op p l, (case cancel_error l p e of None \<Rightarrow> [] | Some x \<Rightarrow> [OnError x]))"
    and "link_load w (take_op p l) + w = link_load w l" and "link_waiting (take_op p l) = link_waiting l"
proof -
  from assms(3) have p: "p \<in> set (pending l)" and r: "r = Done (completed p (Inl e) (take_op p l))"
    by (auto simp: take_op_def split: if_splits)
  show "link_load w (take_op p l) + w = link_load w l"
    by (rule load_taken [OF p]) (simp_all add: may_end_def assms(2) same_connection_def take_op_def)
  show "link_waiting (take_op p l) = link_waiting l" by (simp add: link_waiting_def)
  show "r = Done (take_op p l, (case cancel_error l p e of None \<Rightarrow> [] | Some x \<Rightarrow> [OnError x]))"
  proof (cases "op_gen p = generation l")
    case True
    with assms(1,2) have c: "\<not> opened l" "\<not> connecting l" "tx_queue l = []"
      by (auto simp: cut_off_def link_sound_def link_inv_def)
    then have "(take_op p l)\<lparr>opened := False, connecting := False, tx_queue := []\<rparr> = take_op p l"
      by (simp add: take_op_def)
    with True show ?thesis
      by (cases p) (simp_all add: r cancel_error_def error_context_def on_resolve_def on_connect_def
          on_read_def written_def handle_io_error_def)
  next
    case False
    then show ?thesis by (simp add: r cancel_error_def completed_stale)
  qed
qed

lemma link_idle_waiting: "link_sound l \<Longrightarrow> link_idle l \<Longrightarrow> link_waiting l = []"
proof -
  assume l: "link_sound l" "link_idle l"
  show ?thesis
  proof (cases "opened l")
    case True
    have "filter is_write (current l) = []"
      using l(2) by (auto simp: current_def link_idle_def filter_empty_conv may_end_def)
    moreover have "filter is_write (current l) = outstanding l"
      using l(1) True by (simp only: link_sound_def link_inv_def if_True)
    ultimately show ?thesis
      using l(2) True by (simp add: outstanding_def link_waiting_def link_idle_def split: if_splits)
  qed (simp add: link_waiting_def)
qed

section \<open>The daemon\<close>

definition sound :: "daemon \<Rightarrow> bool" where
  "sound d \<longleftrightarrow> sessions_reach (ipc d) \<and> link_sound (dev d)"

text \<open>The deliveries still to come at most: a cancelled operation may send one more frame to each client.\<close>

definition backlog :: "daemon \<Rightarrow> nat" where
  "backlog d = link_load (2 * length (sessions (ipc d)) + 1) (dev d)
     + sum_list (map (\<lambda>(i, s). session_load s) (sessions (ipc d)))"

definition at_rest :: "daemon \<Rightarrow> bool" where
  "at_rest d \<longleftrightarrow> link_idle (dev d) \<and> list_all (\<lambda>(i, s). session_idle s) (sessions (ipc d))"

text \<open>What a delivery puts on the wire, to client \<open>i\<close> and to the device, and the frame it queues for client \<open>i\<close>.\<close>

definition to_client :: "nat \<Rightarrow> delivery \<Rightarrow> daemon \<Rightarrow> bytes list" where
  "to_client i x d = (case get_session i (ipc d) of
       None \<Rightarrow> []
     | Some s \<Rightarrow> if x = WriteToClient i then session_written_now s else [])"

fun to_device :: "delivery \<Rightarrow> daemon \<Rightarrow> bytes list" where
  "to_device (WriteToDevice g b) d = link_written_now g b (dev d)"
| "to_device _ d = []"

definition error_frame :: "string \<Rightarrow> daemon \<Rightarrow> frame" where
  "error_frame y d = current_link_frame (set_link LinkError y (store d))"

fun announced :: "nat \<Rightarrow> delivery \<Rightarrow> daemon \<Rightarrow> bytes list" where
  "announced i (LinkCancelled p e) d = (case (cancel_error (dev d) p e, get_session i (ipc d)) of
       (Some y, Some s) \<Rightarrow> if sock_open s then [encode (error_frame y d)] else []
     | _ \<Rightarrow> [])"
| "announced i _ d = []"

definition client_waiting :: "nat \<Rightarrow> daemon \<Rightarrow> bytes list" where
  "client_waiting i d = (case get_session i (ipc d) of None \<Rightarrow> [] | Some s \<Rightarrow> session_waiting s)"

lemma session_sound: "sound d \<Longrightarrow> get_session i (ipc d) = Some s \<Longrightarrow> session_inv s"
  by (force simp: sound_def sessions_reach_def get_session_def dest: map_of_SomeD intro: session_reach_inv)

lemma load_update:
  "distinct (map fst xs) \<Longrightarrow> map_of xs i = Some s \<Longrightarrow>
     sum_list (map (\<lambda>(j, s). w s) (map (\<lambda>(j, s). (j, if j = i then t else s)) xs)) + w s
     = sum_list (map (\<lambda>(j, s). w s) xs) + (w t :: nat)"
proof (induction xs)
  case Nil
  then show ?case by simp
next
  case (Cons x xs)
  obtain j u where x: "x = (j, u)" by (cases x)
  show ?case
  proof (cases "j = i")
    case True
    with Cons.prems(1) x have "i \<notin> fst ` set xs" by simp
    then have "map (\<lambda>(j, s). (j, if j = i then t else s)) xs = xs" by (force intro: map_idI)
    with Cons.prems(2) x True show ?thesis by simp
  next
    case False
    with Cons x show ?thesis by simp
  qed
qed

text \<open>A broadcast adds one frame to each session that is alive.\<close>

lemma session_load_send: "session_load (session_send f s) = session_load s + 2"
  by (simp add: session_load_def session_send_def)

lemma load_broadcast:
  "sum_list (map (\<lambda>(i, s). session_load s) (sessions (broadcast f srv)))
     \<le> sum_list (map (\<lambda>(i, s). session_load s) (sessions srv)) + 2 * length (sessions srv)"
proof -
  have "sum_list (map (\<lambda>(i, s). session_load s) (map (\<lambda>(i, s). (i, session_send f s)) (filter (\<lambda>(i, s). alive s) xs)))
      \<le> sum_list (map (\<lambda>(i, s). session_load s) xs) + 2 * length xs" for xs
    by (induction xs) (auto simp: session_load_send)
  then show ?thesis by (simp add: broadcast_def)
qed

lemma length_broadcast: "length (sessions (broadcast f srv)) \<le> length (sessions srv)"
  by (simp add: broadcast_def)

lemma broadcast_session:
  assumes "server_inv srv" and "get_session i (broadcast f srv) = Some u"
  shows "\<exists>s. get_session i srv = Some s \<and> u = session_send f s"
proof -
  from assms(2) have "(i, u) \<in> set (sessions (broadcast f srv))"
    by (auto simp: get_session_def dest: map_of_SomeD)
  then obtain s where "(i, s) \<in> set (sessions srv)" "u = session_send f s" by (auto simp: broadcast_def)
  with get_session_mem [OF assms(1)] show ?thesis by blast
qed

lemma client_waiting_broadcast:
  assumes "sound d" and "ipc t = broadcast f (ipc d)"
  shows "client_waiting i t = client_waiting i d
    @ (case get_session i (ipc d) of None \<Rightarrow> [] | Some s \<Rightarrow> if sock_open s then [encode f] else [])"
proof -
  have sv: "server_inv (ipc d)" using assms(1) by (simp add: sound_def sessions_reach_def)
  show ?thesis
  proof (cases "\<exists>s. get_session i (ipc d) = Some s \<and> sock_open s")
    case True
    then obtain s where s: "get_session i (ipc d) = Some s" "sock_open s" by blast
    then have "alive s" using session_sound [OF assms(1)] by (auto simp: session_inv_def alive_def)
    with s get_session_broadcast [OF sv s(1), of f] assms(2) show ?thesis
      by (simp add: client_waiting_def session_waiting_def session_send_def)
  next
    case False
    then show ?thesis
      using broadcast_session [OF sv, of i f] assms(2)
      by (cases "get_session i (ipc t)")
        (auto simp: client_waiting_def session_waiting_def session_send_def split: option.split)
  qed
qed

text \<open>A delivery is a step of one session, a silent step of the link, or an error reported once more.\<close>

definition session_delivery :: "delivery \<Rightarrow> daemon \<Rightarrow> daemon \<Rightarrow> nat \<Rightarrow> session \<Rightarrow> session \<Rightarrow> bool" where
  "session_delivery x d t i s u \<longleftrightarrow> get_session i (ipc d) = Some s
     \<and> t = d\<lparr>ipc := update_session i (\<lambda>_. u) (ipc d)\<rparr>
     \<and> (\<exists>e. session_step e s = Some (Done (u, []))) \<and> session_load u < session_load s
     \<and> to_client i x d @ session_waiting u = session_waiting s
     \<and> to_device x d = [] \<and> (\<forall>j. announced j x d = []) \<and> (\<forall>j. j \<noteq> i \<longrightarrow> to_client j x d = [])"

definition link_delivery :: "delivery \<Rightarrow> daemon \<Rightarrow> daemon \<Rightarrow> serial_link \<Rightarrow> bool" where
  "link_delivery x d t m \<longleftrightarrow> t = d\<lparr>dev := m\<rparr> \<and> (\<exists>e. link_step e (dev d) = Some (Done (m, [])))
     \<and> same_connection (dev d) m \<and> no_more_ops (dev d) m \<and> (\<forall>w > 0. link_load w m < link_load w (dev d))
     \<and> to_device x d @ link_waiting m = link_waiting (dev d)
     \<and> (\<forall>j. announced j x d = []) \<and> (\<forall>j. to_client j x d = [])"

definition error_delivery :: "delivery \<Rightarrow> daemon \<Rightarrow> daemon \<Rightarrow> link_op \<Rightarrow> string \<Rightarrow> string \<Rightarrow> bool" where
  "error_delivery x d t p e y \<longleftrightarrow> x = LinkCancelled p e \<and> cut_off (dev d) p \<and> p \<in> set (pending (dev d))
     \<and> cancel_error (dev d) p e = Some y
     \<and> t = report_link LinkError y (d\<lparr>dev := take_op p (dev d)\<rparr>)"

lemma session_delivery_step:
  assumes "sound d" and "session_handler E i ev d = Some r" and "get_session i (ipc d) = Some s"
    and "\<And>q. session_step ev s = Some q \<Longrightarrow> \<exists>u. q = Done (u, []) \<and> session_load u < session_load s
      \<and> to_client i x d @ session_waiting u = session_waiting s \<and> sock_open u = sock_open s"
    and "to_device x d = []" "\<forall>j. announced j x d = []" "\<forall>j. j \<noteq> i \<longrightarrow> to_client j x d = []"
  shows "\<exists>t u. r = Done t \<and> session_delivery x d t i s u"
proof -
  from assms(2,3) obtain q where q: "session_step ev s = Some q" by (auto simp: session_handler_def)
  with assms(4) obtain u where u: "q = Done (u, [])" "session_load u < session_load s"
    "to_client i x d @ session_waiting u = session_waiting s" by blast
  have "r = Done (d\<lparr>ipc := update_session i (\<lambda>_. u) (ipc d)\<rparr>)"
    using assms(2,3) q u(1) by (simp add: session_handler_def del: session_step.simps)
  moreover have "\<exists>e. session_step e s = Some (Done (u, []))" using q u(1) by blast
  ultimately show ?thesis using assms(3,5-7) u(2,3) unfolding session_delivery_def by blast
qed

lemma link_delivery_step:
  assumes "sound d" and "link_handler E ev d = Some r"
    and "\<And>q w. link_step ev (dev d) = Some q \<Longrightarrow> 0 < w \<Longrightarrow> \<exists>m. q = Done (m, []) \<and> link_load w m < link_load w (dev d)
      \<and> to_device x d @ link_waiting m = link_waiting (dev d) \<and> same_connection (dev d) m \<and> no_more_ops (dev d) m"
    and "\<forall>j. announced j x d = []" "\<forall>j. to_client j x d = []"
  shows "\<exists>t m. r = Done t \<and> link_delivery x d t m"
proof -
  from assms(2) obtain q where q: "link_step ev (dev d) = Some q" "r = bind_cpp q (\<lambda>r. apply_link E r d)"
    by (auto simp: link_handler_def)
  obtain m where m: "q = Done (m, [])" "to_device x d @ link_waiting m = link_waiting (dev d)"
    "same_connection (dev d) m" "no_more_ops (dev d) m" using assms(3) [OF q(1), of 1] by auto
  have "\<forall>w > 0. link_load w m < link_load w (dev d)" using assms(3) [OF q(1)] m(1) by auto
  moreover have "r = Done (d\<lparr>dev := m\<rparr>)" using q(2) m(1) by (simp add: apply_link_def)
  moreover have "\<exists>e. link_step e (dev d) = Some (Done (m, []))" using q(1) m(1) by blast
  ultimately show ?thesis using m(2-4) assms(4,5) unfolding link_delivery_def by blast
qed

lemma deliver_session:
  assumes "sound d" and "deliver E x d = Some r"
    and "x = PassToSession i \<or> x = WriteToClient i \<or> (\<exists>e. x = ReadCancelled i e)"
  shows "\<exists>t s u. r = Done t \<and> session_delivery x d t i s u"
proof -
  have step: "daemon_step E (delivery_event x d) d = Some r" and can: "can_deliver x d"
    using assms(2) by (simp_all add: deliver_def split: if_splits)
  obtain ev where ev: "session_handler E i ev d = Some r"
    using step assms(3) by auto
  then obtain s where s: "get_session i (ipc d) = Some s"
    by (auto simp: session_handler_def split: option.splits)
  define w where "w = WriteDone (if sock_open s then None else Some ''Operation canceled'')"
  have "session_handler E i RunSend d = Some r \<and> x = PassToSession i
      \<or> session_handler E i w d = Some r \<and> x = WriteToClient i
      \<or> (\<exists>e. session_handler E i (ReadDone (Inl e)) d = Some r \<and> x = ReadCancelled i e \<and> \<not> sock_open s)"
    using step can s assms(3) by (auto simp: client_write_def w_def)
  then show ?thesis
  proof (elim disjE exE conjE)
    assume h: "session_handler E i RunSend d = Some r" and x: "x = PassToSession i"
    have "\<exists>t u. r = Done t \<and> session_delivery x d t i s u"
      by (rule session_delivery_step [OF assms(1) h s])
        (use session_post_step [OF session_sound [OF assms(1) s]] s x in
          \<open>auto simp: to_client_def simp del: session_step.simps split: option.splits\<close>)
    then show ?thesis by blast
  next
    assume h: "session_handler E i w d = Some r" and x: "x = WriteToClient i"
    have "\<exists>t u. r = Done t \<and> session_delivery x d t i s u"
      by (rule session_delivery_step [OF assms(1) h s])
        (use session_write_step [OF session_sound [OF assms(1) s]] s x in
          \<open>auto simp: to_client_def w_def simp del: session_step.simps split: option.splits\<close>)
    then show ?thesis by blast
  next
    fix e
    assume h: "session_handler E i (ReadDone (Inl e)) d = Some r" and x: "x = ReadCancelled i e" and o: "\<not> sock_open s"
    have "\<exists>t u. r = Done t \<and> session_delivery x d t i s u"
      by (rule session_delivery_step [OF assms(1) h s])
        (use session_read_step [OF o] s x in
          \<open>auto simp: to_client_def simp del: session_step.simps split: option.splits\<close>)
    then show ?thesis by blast
  qed
qed

lemma deliver_link:
  assumes "sound d" and "deliver E x d = Some r" and "x = PassToLink \<or> (\<exists>g b. x = WriteToDevice g b)"
  shows "\<exists>t m. r = Done t \<and> link_delivery x d t m"
proof -
  have step: "daemon_step E (delivery_event x d) d = Some r"
    using assms(2) by (simp add: deliver_def split: if_splits)
  have ls: "link_sound (dev d)" using assms(1) by (simp add: sound_def)
  show ?thesis
    using assms(3)
  proof (elim disjE exE)
    assume x: "x = PassToLink"
    with step have h: "link_handler E RunPosted d = Some r" by simp
    show ?thesis
      by (rule link_delivery_step [OF assms(1) h])
        (use link_post_step [of "dev d"] x in
          \<open>auto simp: to_client_def simp del: link_step.simps split: option.splits\<close>)
  next
    fix g b
    assume x: "x = WriteToDevice g b"
    with step have h: "link_handler E (Complete (WriteOp g b) (Inr [])) d = Some r" by simp
    show ?thesis
      by (rule link_delivery_step [OF assms(1) h])
        (use link_write_step [OF ls] x in
          \<open>auto simp: to_client_def simp del: link_step.simps split: option.splits\<close>)
  qed
qed

lemma deliver_cancelled:
  assumes "sound d" and "deliver E (LinkCancelled p e) d = Some r"
  shows "(\<exists>t m. r = Done t \<and> link_delivery (LinkCancelled p e) d t m)
    \<or> (\<exists>t y. r = Done t \<and> error_delivery (LinkCancelled p e) d t p e y)"
proof -
  have h: "link_handler E (Complete p (Inl e)) d = Some r" and c: "cut_off (dev d) p"
    using assms(2) by (simp_all add: deliver_def split: if_splits)
  have ls: "link_sound (dev d)" using assms(1) by (simp add: sound_def)
  from h obtain q where q: "link_step (Complete p (Inl e)) (dev d) = Some q" "r = bind_cpp q (\<lambda>r. apply_link E r d)"
    by (auto simp: link_handler_def simp del: link_step.simps)
  note cancel = link_cancel_step [OF ls c q(1)]
  have less: "0 < w \<Longrightarrow> link_load w (take_op p (dev d)) < link_load w (dev d)" for w
    using cancel(2) [of w] by simp
  show ?thesis
  proof (cases "cancel_error (dev d) p e")
    case None
    have "\<exists>t m. r = Done t \<and> link_delivery (LinkCancelled p e) d t m"
      by (rule link_delivery_step [OF assms(1) h])
        (use cancel(1,3) less None q(1) no_more_ops_take in
          \<open>auto simp: to_client_def same_connection_def simp del: link_step.simps split: option.splits\<close>)
    then show ?thesis by blast
  next
    case (Some y)
    with cancel(1) q(2) have "r = Done (report_link LinkError y (d\<lparr>dev := take_op p (dev d)\<rparr>))"
      by (simp add: apply_link_def)
    moreover have "p \<in> set (pending (dev d))" using q(1) by (auto split: if_splits)
    ultimately show ?thesis using c Some unfolding error_delivery_def by blast
  qed
qed

lemma delivery_cases [consumes 2, case_names session link error]:
  assumes "sound d" and "deliver E x d = Some r"
  obtains t i s u where "r = Done t" "session_delivery x d t i s u"
  | t m where "r = Done t" "link_delivery x d t m"
  | t p e y where "r = Done t" "error_delivery x d t p e y"
proof -
  note outcomes = that
  have session: thesis if "x = PassToSession i \<or> x = WriteToClient i \<or> (\<exists>e. x = ReadCancelled i e)" for i
    using deliver_session [OF assms that] outcomes(1) by blast
  have link: thesis if "x = PassToLink \<or> (\<exists>g b. x = WriteToDevice g b)"
    using deliver_link [OF assms that] outcomes(2) by blast
  have cancelled: thesis if x: "x = LinkCancelled p e" for p e
    using deliver_cancelled [OF assms(1) assms(2) [unfolded x]] outcomes(2,3) unfolding x by blast
  show thesis
    by (rule delivery.exhaust [of x]) (simp_all add: session link cancelled)
qed

lemma error_delivery_step:
  assumes "sound d" and "error_delivery x d t p e y"
  shows "ipc t = broadcast (error_frame y d) (ipc d)" and "dev t = take_op p (dev d)" and "sound t"
    and "link_load w (dev t) + w = link_load w (dev d)" and "link_waiting (dev t) = link_waiting (dev d)"
proof -
  from assms(2) have e: "cut_off (dev d) p" "p \<in> set (pending (dev d))"
    "t = report_link LinkError y (d\<lparr>dev := take_op p (dev d)\<rparr>)" by (simp_all add: error_delivery_def)
  show i: "ipc t = broadcast (error_frame y d) (ipc d)" and dev: "dev t = take_op p (dev d)"
    by (simp_all add: e(3) daemon_ops error_frame_def)
  have ls: "link_sound (dev d)" using assms(1) by (simp add: sound_def)
  obtain q where q: "link_step (Complete p (Inl e)) (dev d) = Some q" using e(2) by simp
  note cancel = link_cancel_step [OF ls e(1) q]
  show "link_load w (dev t) + w = link_load w (dev d)" "link_waiting (dev t) = link_waiting (dev d)"
    unfolding dev by (rule cancel(2,3))+
  have "link_sound (dev t)" unfolding dev by (rule link_sound_step [OF ls q [unfolded cancel(1)]]) simp
  then show "sound t" using assms(1) each_session.broadcasted i by (simp add: sound_def)
qed

lemma client_waiting_step:
  assumes "sound d" and "deliver E x d = Some (Done t)"
  shows "to_client i x d @ client_waiting i t = client_waiting i d @ announced i x d"
    and "to_device x d @ link_waiting (dev t) = link_waiting (dev d)"
proof -
  have "to_client i x d @ client_waiting i t = client_waiting i d @ announced i x d
      \<and> to_device x d @ link_waiting (dev t) = link_waiting (dev d)"
    using assms
  proof (cases rule: delivery_cases)
    case (session t' j s u)
    then show ?thesis
      by (cases "i = j") (simp_all add: session_delivery_def client_waiting_def get_session_update)
  next
    case (link t' m)
    then show ?thesis by (simp add: link_delivery_def client_waiting_def)
  next
    case (error t' p e y)
    then have t: "error_delivery x d t p e y" by simp
    note step = error_delivery_step [OF assms(1) t]
    from t show ?thesis
      using client_waiting_broadcast [OF assms(1) step(1), of i] step(5)
      by (simp add: error_delivery_def to_client_def split: option.split)
  qed
  then show "to_client i x d @ client_waiting i t = client_waiting i d @ announced i x d"
    and "to_device x d @ link_waiting (dev t) = link_waiting (dev d)" by blast+
qed

lemma delivery_advances:
  assumes "sound d" and "deliver E x d = Some (Done t)"
  shows "sound t \<and> backlog t < backlog d"
  using assms
proof (cases rule: delivery_cases)
  case (session t' i s u)
  then have t: "t = d\<lparr>ipc := update_session i (\<lambda>_. u) (ipc d)\<rparr>" and s: "get_session i (ipc d) = Some s"
    "session_load u < session_load s" by (simp_all add: session_delivery_def)
  from session(2) obtain e where "session_step e s = Some (Done (u, []))" by (auto simp: session_delivery_def)
  with assms(1) s(1) t have "sessions_reach (ipc t)"
    using each_session.stepped [of "ipc d" i s e u "[]"] by (simp add: sound_def)
  moreover have "distinct (map fst (sessions (ipc d)))" "map_of (sessions (ipc d)) i = Some s"
    using assms(1) s(1) by (simp_all add: sound_def sessions_reach_def server_inv_def get_session_def)
  from load_update [OF this, of session_load u] s(2) t have "backlog t < backlog d"
    by (simp add: backlog_def update_session_def)
  ultimately show ?thesis using assms(1) t by (simp add: sound_def)
next
  case (link t' m)
  then obtain e where e: "t = d\<lparr>dev := m\<rparr>" "link_step e (dev d) = Some (Done (m, []))"
    "same_connection (dev d) m" "\<forall>w > 0. link_load w m < link_load w (dev d)" by (auto simp: link_delivery_def)
  with assms(1) link_sound_step [of "dev d" e m "[]"] show ?thesis
    by (simp add: sound_def backlog_def same_connection_def del: link_step.simps)
next
  case (error t' p e y)
  then have t: "error_delivery x d t p e y" by simp
  note step = error_delivery_step [OF assms(1) t]
  let ?v = "2 * length (sessions (ipc t)) + 1" and ?w = "2 * length (sessions (ipc d)) + 1"
  have "link_load ?v (dev t) \<le> link_load ?w (dev t)"
    using length_broadcast [of "error_frame y d" "ipc d"] step(1) by (intro link_load_mono) simp
  moreover have "link_load ?w (dev t) + ?w = link_load ?w (dev d)" by (rule step(4))
  ultimately have "backlog t < backlog d"
    using load_broadcast [of "error_frame y d" "ipc d"] step(1) by (simp add: backlog_def)
  with step(3) show ?thesis by blast
qed

text \<open>An error is announced only of a closed link, once for each of its operations at most.\<close>

lemma announced_step:
  assumes "sound d" and "deliver E x d = Some (Done t)"
  shows "opened (dev t) = opened (dev d) \<and> connecting (dev t) = connecting (dev d)"
    and "if opened (dev d) \<or> connecting (dev d) then announced i x d = []
      else length (announced i x d) + length (current (dev t)) \<le> length (current (dev d))"
proof -
  have "(opened (dev t) = opened (dev d) \<and> connecting (dev t) = connecting (dev d))
    \<and> (if opened (dev d) \<or> connecting (dev d) then announced i x d = []
      else length (announced i x d) + length (current (dev t)) \<le> length (current (dev d)))"
    using assms
  proof (cases rule: delivery_cases)
    case (session t' j s u)
    then show ?thesis by (simp add: session_delivery_def)
  next
    case (link t' m)
    then show ?thesis by (auto simp: link_delivery_def same_connection_def no_more_ops_def)
  next
    case (error t' p e y)
    then have t: "error_delivery x d t p e y" by simp
    then have p: "x = LinkCancelled p e" "op_gen p = generation (dev d)" "p \<in> set (current (dev d))"
      "\<not> opened (dev d)" "\<not> connecting (dev d)"
      by (auto simp: error_delivery_def cancel_error_def cut_off_def current_mem split: if_splits)
    have "length (current (dev d)) = Suc (length (current (take_op p (dev d))))"
      using p(2,3) by (simp add: current_take_op length_remove1) (metis Suc_pred length_pos_if_in_set)
    moreover have "length (announced i x d) \<le> 1" by (simp add: p(1) split: option.split)
    ultimately show ?thesis using p(4,5) error_delivery_step(2) [OF assms(1) t] by simp
  qed
  then show "opened (dev t) = opened (dev d) \<and> connecting (dev t) = connecting (dev d)"
    and "if opened (dev d) \<or> connecting (dev d) then announced i x d = []
      else length (announced i x d) + length (current (dev t)) \<le> length (current (dev d))" by blast+
qed

lemma announced_run:
  assumes "run_steps (deliver E) xs d = Some (Done t)" and "sound d"
  shows "if opened (dev d) \<or> connecting (dev d) then outputs (deliver E) (announced i) xs d = []
      else length (outputs (deliver E) (announced i) xs d) \<le> length (current (dev d))"
  using assms
proof (induction xs arbitrary: d)
  case Nil
  then show ?case by simp
next
  case (Cons x xs)
  then obtain u where u: "deliver E x d = Some (Done u)" "run_steps (deliver E) xs u = Some (Done t)"
    by (auto simp only: run_steps_Cons)
  then have "sound u" using delivery_advances [OF Cons.prems(2)] by blast
  from Cons.IH [OF u(2) this] announced_step(1) [OF Cons.prems(2) u(1)]
    announced_step(2) [OF Cons.prems(2) u(1), of i] u(1) show ?case
    by (auto split: if_splits)
qed

lemma delivery_possible:
  assumes "sound d" and "\<not> at_rest d"
  shows "\<exists>x t. deliver E x d = Some (Done t)"
proof -
  have "\<exists>x. deliver E x d \<noteq> None"
  proof (cases "link_idle (dev d)")
    case False
    then consider "posted (dev d) \<noteq> []" | p where "p \<in> set (pending (dev d))" "may_end (dev d) p"
      by (auto simp: link_idle_def filter_empty_conv)
    then show ?thesis
    proof cases
      case 1
      then show ?thesis
        by (intro exI [of _ PassToLink]) (auto simp: deliver_def link_handler_def split: list.splits)
    next
      case (2 p)
      from 2(2) have "(\<exists>g b. p = WriteOp g b) \<or> cut_off (dev d) p" by (cases p) (simp_all add: may_end_def)
      then show ?thesis
      proof (elim disjE exE)
        fix g b
        assume "p = WriteOp g b"
        with 2(1) show ?thesis
          by (intro exI [of _ "WriteToDevice g b"]) (simp add: deliver_def link_handler_def)
      next
        assume "cut_off (dev d) p"
        with 2(1) show ?thesis
          by (intro exI [of _ "LinkCancelled p []"]) (simp add: deliver_def link_handler_def)
      qed
    qed
  next
    case True
    with assms(2) obtain i s where m: "(i, s) \<in> set (sessions (ipc d))" "\<not> session_idle s"
      by (auto simp: at_rest_def list_all_iff)
    with assms(1) have s: "get_session i (ipc d) = Some s"
      by (intro get_session_mem) (simp_all add: sound_def sessions_reach_def)
    have "session_step RunSend s \<noteq> None \<or> session_step (WriteDone (client_write i d)) s \<noteq> None
        \<or> \<not> sock_open s \<and> session_step (ReadDone (Inl [])) s \<noteq> None"
      using m(2) unfolding session_idle_iff [of s "client_write i d" "[]"] by simp
    then have "deliver E (PassToSession i) d \<noteq> None \<or> deliver E (WriteToClient i) d \<noteq> None
        \<or> deliver E (ReadCancelled i []) d \<noteq> None"
      using s by (auto simp: deliver_def session_handler_def simp del: session_step.simps)
    then show ?thesis by blast
  qed
  then obtain x r where x: "deliver E x d = Some r" by blast
  have "\<exists>t. r = Done t" using assms(1) x by (cases rule: delivery_cases) auto
  with x show ?thesis by blast
qed

lemma no_delivery_at_rest: "at_rest d \<Longrightarrow> deliver E x d = None"
proof -
  assume r: "at_rest d"
  have idle: "session_idle s" if "get_session i (ipc d) = Some s" for i s
    using that r by (auto simp: get_session_def at_rest_def list_all_iff dest: map_of_SomeD)
  have "session_step RunSend s = None" "session_step (WriteDone ec) s = None"
    "\<not> sock_open s \<Longrightarrow> session_step (ReadDone (Inl e)) s = None"
    if "get_session i (ipc d) = Some s" for i s ec e
    using idle [OF that] unfolding session_idle_iff [of s ec e] by simp_all
  then have "session_handler E i RunSend d = None" "session_handler E i (WriteDone ec) d = None"
    "can_deliver (ReadCancelled i e) d \<Longrightarrow> session_handler E i (ReadDone (Inl e)) d = None" for i ec e
    by (auto simp: session_handler_def simp del: session_step.simps split: option.splits)
  moreover have "link_step RunPosted (dev d) = None" "link_step (Complete (WriteOp g b) q) (dev d) = None"
    "cut_off (dev d) p \<Longrightarrow> link_step (Complete p q) (dev d) = None" for g b p q
    using r by (auto simp: at_rest_def link_idle_def filter_empty_conv may_end_def)
  ultimately show ?thesis by (cases x) (simp_all add: deliver_def link_handler_def del: can_deliver.simps(1))
qed

interpretation device: delivering "deliver E" "\<lambda>_. True" sound backlog at_rest to_device "\<lambda>d. link_waiting (dev d)"
    "\<lambda>_ _. []" for E
proof unfold_locales
  fix d t x
  assume d: "sound d" and t: "deliver E x d = Some (Done t)"
  show "sound t \<and> backlog t < backlog d" by (rule delivery_advances [OF d t])
  show "to_device x d @ link_waiting (dev t) = link_waiting (dev d) @ []"
    using client_waiting_step [OF d t] by simp
next
  fix d
  assume d: "sound d" and r: "at_rest d"
  then show "link_waiting (dev d) = []" by (intro link_idle_waiting) (simp_all add: sound_def at_rest_def)
  show "deliver E x d = None" for x using r by (rule no_delivery_at_rest)
qed (use delivery_possible in blast)

interpretation client: delivering "deliver E" "\<lambda>_. True" sound backlog at_rest "to_client i" "client_waiting i"
    "announced i" for E i
proof unfold_locales
  fix d t x
  assume d: "sound d" and t: "deliver E x d = Some (Done t)"
  show "to_client i x d @ client_waiting i t = client_waiting i d @ announced i x d"
    by (rule client_waiting_step [OF d t])
next
  fix d
  assume d: "sound d" and r: "at_rest d"
  have "session_waiting s = []" if s: "get_session i (ipc d) = Some s" for s
  proof (rule session_idle_waiting [OF session_sound [OF d s]])
    show "session_idle s"
      using s r by (auto simp: get_session_def at_rest_def list_all_iff dest: map_of_SomeD)
  qed
  then show "client_waiting i d = []" by (simp add: client_waiting_def split: option.split)
qed

lemma sound_reach: "daemon_reach E d \<Longrightarrow> link_reach n (dev d) \<Longrightarrow> n < 18446744073709551615 \<Longrightarrow> sound d"
  using each_session.everywhere [of E d] link_reach_inv [of n "dev d"] by (simp add: sound_def link_sound_def)

section \<open>Properties\<close>

text \<open>C6: The daemon delivers what it has accepted. From every reachable state (whose link has not been
  through \<open>2 ^ 64\<close> connections), when nothing more arrives, writes on open sockets succeed and operations on
  closed ones are cancelled, its handlers come to rest, in whatever order they run, after at most
  \<open>backlog d\<close> steps and not before nothing is posted, being written or to be cancelled. By then an open
  device has been written exactly the packets that were queued or posted for it, and every client with an open
  socket exactly the frames that were queued or posted for it, whole and in order, followed by the link
  states that cancelled operations of a lost connection announced: none while the link is open or connecting,
  otherwise at most one for each operation of that connection.\<close>

theorem daemon_delivers_all:
  assumes "daemon_reach E d" and "link_reach n (dev d)" and "n < 18446744073709551615"
  shows "(\<exists>xs t. run_steps (deliver E) xs d = Some (Done t) \<and> at_rest t)
    \<and> (\<forall>xs t. run_steps (deliver E) xs d = Some (Done t) \<longrightarrow>
         daemon_reach E t \<and> length xs \<le> backlog d \<and> (at_rest t \<longleftrightarrow> (\<forall>x. deliver E x t = None))
         \<and> (at_rest t \<longrightarrow>
              outputs (deliver E) to_device xs d = (if opened (dev d) then tx_queue (dev d) @ posted (dev d) else [])
              \<and> (\<forall>i s. get_session i (ipc d) = Some s \<and> sock_open s \<longrightarrow>
                   outputs (deliver E) (to_client i) xs d
                     = out_queue s @ send_posted s @ outputs (deliver E) (announced i) xs d
                   \<and> (if opened (dev d) \<or> connecting (dev d) then outputs (deliver E) (announced i) xs d = []
                      else length (outputs (deliver E) (announced i) xs d) \<le> length (current (dev d))))))"
proof (intro conjI allI impI; (elim conjE)?)
  have s: "sound d" using assms by (rule sound_reach)
  show "\<exists>xs t. run_steps (deliver E) xs d = Some (Done t) \<and> at_rest t"
    using device.run_to_rest [OF s] by blast
  fix xs t
  assume r: "run_steps (deliver E) xs d = Some (Done t)"
  have all: "list_all (\<lambda>_. True) xs" by (simp add: list_all_iff)
  show "daemon_reach E t" by (rule daemon_run_reach [OF assms(1) deliver_run [OF r]])
  have t: "sound t" "length xs + backlog t \<le> backlog d" using device.run_bounded [OF r all s] by blast+
  then show "length xs \<le> backlog d" by simp
  show "at_rest t \<longleftrightarrow> (\<forall>x. deliver E x t = None)" using device.rest_iff [OF t(1)] by blast
  assume q: "at_rest t"
  show "outputs (deliver E) to_device xs d = (if opened (dev d) then tx_queue (dev d) @ posted (dev d) else [])"
    using device.all_delivered [OF r all s q] by (simp add: link_waiting_def)
  fix i c
  assume "get_session i (ipc d) = Some c" "sock_open c"
  with client.all_delivered [OF r all s q, of i]
  show "outputs (deliver E) (to_client i) xs d = out_queue c @ send_posted c @ outputs (deliver E) (announced i) xs d"
    by (simp add: client_waiting_def session_waiting_def)
  show "if opened (dev d) \<or> connecting (dev d) then outputs (deliver E) (announced i) xs d = []
      else length (outputs (deliver E) (announced i) xs d) \<le> length (current (dev d))"
    by (rule announced_run [OF r s])
qed

theorem daemon_delivers_all_witness:
  "\<exists>xs t. run_steps (deliver bench) xs bench_client = Some (Done t) \<and> at_rest t
    \<and> outputs (deliver bench) (to_client 0) xs bench_client = [greeting, encode (current_link_frame (store bench_open))]"
proof -
  have "link_reach 1 (dev bench_client)" unfolding bench_client_fields by (rule reach_serial_open)
  note delivers = daemon_delivers_all [OF reach_bench_client this]
  then obtain xs t where r: "run_steps (deliver bench) xs bench_client = Some (Done t)" "at_rest t" by auto
  let ?s = "session_send (current_link_frame (store bench_open)) (session_start new_session)"
  have "sock_open ?s" "out_queue ?s @ send_posted ?s = [greeting, encode (current_link_frame (store bench_open))]"
    by (simp_all add: session_ops new_session_def greeting_def)
  moreover have "opened (dev bench_client)" by (simp add: bench_client_fields serial_open_fixture_def)
  ultimately show ?thesis using delivers r bench_client_fields(5) by (intro exI [of _ xs] exI [of _ t]) simp
qed

end
