(* ===== verification/Ring_Queue.thy ===== *)
theory Ring_Queue
  imports GS_Prelude
begin

text \<open>
  The single-producer single-consumer queue between the simulator's threads:
  \<open>RingQueue<T, N>\<close> of \<open>sim/src/main.cpp\<close>. First the two operations as functions and the
  bounded FIFO they implement; then the same operations cut into their memory accesses,
  interleaved by two threads. The buffer cells are written before the index that
  publishes them is stored with release order and read after it is loaded with acquire
  order, so the interleaving of whole accesses is an adequate memory model. \<open>size_t\<close>
  does not wrap: an index stays below \<open>N\<close>.
\<close>

section \<open>Operations\<close>

record 'a ring_queue =
  buf :: "'a list"
  head :: nat
  tail :: nat

text \<open>\<open>RingQueue<T, N>\<close> with value-initialised cells.\<close>

definition new_ring :: "nat \<Rightarrow> 'a \<Rightarrow> 'a ring_queue" where
  "new_ring n v = \<lparr>buf = replicate n v, head = 0, tail = 0\<rparr>"

abbreviation slots :: "'a ring_queue \<Rightarrow> nat" where
  "slots q \<equiv> length (buf q)"

text \<open>\<open>None\<close> is \<open>return false\<close>.\<close>

definition try_push :: "'a \<Rightarrow> 'a ring_queue \<Rightarrow> 'a ring_queue option" where
  "try_push v q =
     (let h = head q; t = tail q in
      if (h + 1) mod slots q = t then None
      else let q = q\<lparr>buf := (buf q)[h := v]\<rparr> in Some (q\<lparr>head := (h + 1) mod slots q\<rparr>))"

definition try_pop :: "'a ring_queue \<Rightarrow> ('a \<times> 'a ring_queue) option" where
  "try_pop q =
     (let t = tail q; h = head q in
      if t = h then None
      else Some (buf q ! t, q\<lparr>tail := (t + 1) mod slots q\<rparr>))"

section \<open>The FIFO it implements\<close>

definition count :: "'a ring_queue \<Rightarrow> nat" where
  "count q = (head q + slots q - tail q) mod slots q"

definition items :: "'a ring_queue \<Rightarrow> 'a list" where
  "items q = map (\<lambda>i. buf q ! ((tail q + i) mod slots q)) [0..<count q]"

definition ring_ok :: "'a ring_queue \<Rightarrow> bool" where
  "ring_ok q \<longleftrightarrow> head q < slots q \<and> tail q < slots q"

lemma length_items [simp]: "length (items q) = count q"
  by (simp add: items_def)

lemma count_bound: "ring_ok q \<Longrightarrow> count q < slots q"
  unfolding count_def ring_ok_def by (rule mod_less_divisor) linarith

lemma nth_items: "i < count q \<Longrightarrow> items q ! i = buf q ! ((tail q + i) mod slots q)"
  by (simp add: items_def)

text \<open>The head is \<open>count\<close> cells after the tail.\<close>

lemma head_count: "ring_ok q \<Longrightarrow> head q = (tail q + count q) mod slots q"
  by (auto simp: ring_ok_def count_def mod_add_right_eq)

lemma count_eqI:
  assumes "h = (t + n) mod N" and "n < N" and "t < N"
  shows "(h + N - t) mod N = (n :: nat)"
proof (cases "t + n < N")
  case True
  with assms show ?thesis by simp
next
  case False
  then have "(t + n) mod N = t + n - N"
    using assms by (subst mod_if) (simp add: mod_less)
  with False assms show ?thesis by simp
qed

lemma mod_cell_eq_iff:
  assumes "i < N" and "j < N" and "t < N"
  shows "(t + i) mod N = (t + j) mod N \<longleftrightarrow> i = (j :: nat)"
  using count_eqI [of "(t + i) mod N" t i N] count_eqI [of "(t + j) mod N" t j N] assms by metis

lemma full_iff: "ring_ok q \<Longrightarrow> (head q + 1) mod slots q = tail q \<longleftrightarrow> count q = slots q - 1"
proof -
  assume ok: "ring_ok q"
  let ?N = "slots q"
  have N: "0 < ?N" and t: "tail q < ?N" using ok by (auto simp: ring_ok_def)
  have "(head q + 1) mod ?N = (tail q + (count q + 1)) mod ?N"
    using head_count [OF ok] by (simp add: mod_add_left_eq mod_Suc_eq)
  moreover have "count q + 1 \<le> ?N" using count_bound [OF ok] by simp
  moreover have "(tail q + (count q + 1)) mod ?N = (tail q + 0) mod ?N \<longleftrightarrow> count q + 1 = ?N"
  proof (cases "count q + 1 = ?N")
    case True
    then show ?thesis by simp
  next
    case False
    with \<open>count q + 1 \<le> ?N\<close> have "count q + 1 < ?N" by simp
    then show ?thesis using mod_cell_eq_iff [of "count q + 1" ?N 0 "tail q"] N t False by simp
  qed
  ultimately show ?thesis using t N by auto
qed

lemma empty_iff: "ring_ok q \<Longrightarrow> tail q = head q \<longleftrightarrow> count q = 0"
  using count_eqI [of "head q" "tail q" "count q" "slots q"] head_count [of q] count_bound [of q]
  by (auto simp: ring_ok_def)

lemma push_room:
  assumes "ring_ok q" and "count q < slots q - 1"
  shows "\<exists>r. try_push v q = Some r \<and> ring_ok r \<and> slots r = slots q \<and> items r = items q @ [v]"
proof -
  let ?N = "slots q"
  let ?r = "q\<lparr>buf := (buf q)[head q := v], head := (head q + 1) mod ?N\<rparr>"
  have N: "1 < ?N" and t: "tail q < ?N" and h: "head q < ?N"
    using assms by (auto simp: ring_ok_def)
  have p: "try_push v q = Some ?r"
    using full_iff [OF assms(1)] assms(2) by (simp add: try_push_def Let_def)
  have "(head q + 1) mod ?N = (tail q + (count q + 1)) mod ?N"
    using head_count [OF assms(1)] by (simp add: mod_add_left_eq mod_Suc_eq)
  then have c: "count ?r = count q + 1"
    using count_eqI [of "(head q + 1) mod ?N" "tail q" "count q + 1" ?N] assms(2) t
    by (simp add: count_def)
  have "items ?r = items q @ [v]"
  proof (rule nth_equalityI)
    show "length (items ?r) = length (items q @ [v])" using c by simp
    fix i
    assume "i < length (items ?r)"
    then have i: "i \<le> count q" using c by simp
    have cell: "items ?r ! i = (buf q)[head q := v] ! ((tail q + i) mod ?N)"
      using i c nth_items [of i ?r] by simp
    show "items ?r ! i = (items q @ [v]) ! i"
    proof (cases "i = count q")
      case True
      then have "(tail q + i) mod ?N = head q" using head_count [OF assms(1)] by simp
      then show ?thesis using cell True h by (simp add: nth_append)
    next
      case False
      with i have "i < count q" by simp
      then have "(tail q + i) mod ?N \<noteq> head q"
        using head_count [OF assms(1)] mod_cell_eq_iff [of i ?N "count q" "tail q"] assms(2) t by simp
      then show ?thesis using cell \<open>i < count q\<close> by (simp add: nth_append items_def)
    qed
  qed
  moreover have "(head q + 1) mod ?N < ?N" by (rule mod_less_divisor) (use N in linarith)
  ultimately show ?thesis using p t by (simp add: ring_ok_def)
qed

lemma pop_some:
  assumes "ring_ok q" and "items q = x # xs"
  shows "\<exists>r. try_pop q = Some (x, r) \<and> ring_ok r \<and> slots r = slots q \<and> items r = xs"
proof -
  let ?N = "slots q"
  let ?r = "q\<lparr>tail := (tail q + 1) mod ?N\<rparr>"
  have c: "count q = Suc (length xs)" using assms(2) length_items [of q] by simp
  have t: "tail q < ?N" and h: "head q < ?N" using assms(1) by (auto simp: ring_ok_def)
  have x: "buf q ! tail q = x" using nth_items [of 0 q] c t assms(2) by simp
  have p: "try_pop q = Some (x, ?r)"
    using empty_iff [OF assms(1)] c x by (simp add: try_pop_def Let_def)
  have "head q = ((tail q + 1) mod ?N + length xs) mod ?N"
    using head_count [OF assms(1)] c by (simp add: mod_add_left_eq)
  moreover have lt: "(tail q + 1) mod ?N < ?N" by (rule mod_less_divisor) (use t in linarith)
  ultimately have "(head q + ?N - (tail q + 1) mod ?N) mod ?N = length xs"
    using count_bound [OF assms(1)] c by (intro count_eqI) auto
  then have cr: "count ?r = length xs" by (simp add: count_def)
  have "items ?r = xs"
  proof (rule nth_equalityI)
    show "length (items ?r) = length xs" using cr by simp
    fix i
    assume "i < length (items ?r)"
    then have i: "i < length xs" using cr by simp
    then have "items ?r ! i = buf q ! (((tail q + 1) mod ?N + i) mod ?N)"
      using cr nth_items [of i ?r] by simp
    also have "\<dots> = items q ! Suc i"
      using nth_items [of "Suc i" q] i c by (simp add: mod_add_left_eq)
    finally show "items ?r ! i = xs ! i" using assms(2) by simp
  qed
  with p lt h show ?thesis by (simp add: ring_ok_def)
qed

section \<open>The interface\<close>

text \<open>What the tasks and the session rely on: a bounded queue, first in first out.\<close>

locale bounded_fifo =
  fixes ok :: "'q \<Rightarrow> bool" and room :: "'q \<Rightarrow> nat" and view :: "'q \<Rightarrow> 'a list"
    and push :: "'a \<Rightarrow> 'q \<Rightarrow> 'q option" and pop :: "'q \<Rightarrow> ('a \<times> 'q) option"
  assumes within: "ok q \<Longrightarrow> length (view q) \<le> room q"
    and push_fits: "ok q \<Longrightarrow> length (view q) < room q \<Longrightarrow>
      \<exists>r. push v q = Some r \<and> ok r \<and> room r = room q \<and> view r = view q @ [v]"
    and push_full: "ok q \<Longrightarrow> length (view q) = room q \<Longrightarrow> push v q = None"
    and pop_front: "ok q \<Longrightarrow> view q = x # xs \<Longrightarrow>
      \<exists>r. pop q = Some (x, r) \<and> ok r \<and> room r = room q \<and> view r = xs"
    and pop_empty: "ok q \<Longrightarrow> view q = [] \<Longrightarrow> pop q = None"
begin

lemma push_Some:
  assumes "ok q" and "push v q = Some r"
  shows "ok r \<and> room r = room q \<and> view r = view q @ [v]"
  using assms push_fits [of q v] push_full [of q v] within [of q] by fastforce

lemma pop_Some:
  assumes "ok q" and "pop q = Some (x, r)"
  shows "ok r \<and> room r = room q \<and> view q = x # view r"
  using assms pop_front [of q] pop_empty [of q] by (cases "view q") fastforce+

lemma push_None_iff: "ok q \<Longrightarrow> push v q = None \<longleftrightarrow> length (view q) = room q"
  using push_fits [of q v] push_full [of q v] within [of q] by fastforce

lemma pop_None_iff: "ok q \<Longrightarrow> pop q = None \<longleftrightarrow> view q = []"
  using pop_front [of q] pop_empty [of q] by (cases "view q") fastforce+

end

interpretation ring: bounded_fifo ring_ok "\<lambda>q. slots q - 1" items try_push try_pop
proof
  fix q :: "'a ring_queue" and v x :: 'a and xs
  assume ok: "ring_ok q"
  show "length (items q) \<le> slots q - 1" using count_bound [OF ok] by simp
  show "length (items q) < slots q - 1 \<Longrightarrow>
      \<exists>r. try_push v q = Some r \<and> ring_ok r \<and> slots r - 1 = slots q - 1 \<and> items r = items q @ [v]"
    using push_room [OF ok, of v] by auto
  show "length (items q) = slots q - 1 \<Longrightarrow> try_push v q = None"
    using full_iff [OF ok] by (simp add: try_push_def)
  show "items q = x # xs \<Longrightarrow>
      \<exists>r. try_pop q = Some (x, r) \<and> ring_ok r \<and> slots r - 1 = slots q - 1 \<and> items r = xs"
    using pop_some [OF ok, of x xs] by auto
  show "items q = [] \<Longrightarrow> try_pop q = None"
    using empty_iff [OF ok] length_items [of q] by (simp add: try_pop_def del: length_items)
qed

lemma new_ring_ok: "0 < n \<Longrightarrow> ring_ok (new_ring n v)"
  by (simp add: ring_ok_def new_ring_def)

lemma items_new_ring: "items (new_ring n v) = []"
  by (simp add: items_def count_def new_ring_def)

section \<open>Two threads\<close>

text \<open>
  Where each thread is in its operation. \<open>Claimed\<close>: the indices are read and a cell is free;
  \<open>Stored\<close>: the cell is written, the head not yet. \<open>Seen\<close>: the indices are read and the queue
  is not empty; \<open>Fetched\<close>: the cell is read, the tail not yet stored. \<open>pushed\<close> and \<open>popped\<close>
  record the calls that returned \<open>true\<close>.
\<close>

datatype 'a producer = ProdIdle | Claimed nat 'a | Stored nat 'a

datatype 'a consumer = ConsIdle | Seen nat | Fetched nat 'a

record 'a shared =
  que :: "'a ring_queue"
  prod_at :: "'a producer"
  cons_at :: "'a consumer"
  pushed :: "'a list"
  popped :: "'a list"

definition shared_start :: "nat \<Rightarrow> 'a \<Rightarrow> 'a shared" where
  "shared_start n v = \<lparr>que = new_ring n v, prod_at = ProdIdle, cons_at = ConsIdle,
     pushed = [], popped = []\<rparr>"

text \<open>One access of one thread; a call that returns \<open>false\<close> changes nothing and has no rule.\<close>

inductive ring_access :: "'a shared \<Rightarrow> 'a shared \<Rightarrow> bool" where
  claim: "prod_at s = ProdIdle \<Longrightarrow> h = head (que s) \<Longrightarrow> (h + 1) mod slots (que s) \<noteq> tail (que s) \<Longrightarrow>
    ring_access s (s\<lparr>prod_at := Claimed h v\<rparr>)"
| fill: "prod_at s = Claimed h v \<Longrightarrow>
    ring_access s (s\<lparr>que := (que s)\<lparr>buf := (buf (que s))[h := v]\<rparr>, prod_at := Stored h v\<rparr>)"
| publish: "prod_at s = Stored h v \<Longrightarrow>
    ring_access s (s\<lparr>que := (que s)\<lparr>head := (h + 1) mod slots (que s)\<rparr>, prod_at := ProdIdle,
      pushed := pushed s @ [v]\<rparr>)"
| look: "cons_at s = ConsIdle \<Longrightarrow> t = tail (que s) \<Longrightarrow> t \<noteq> head (que s) \<Longrightarrow>
    ring_access s (s\<lparr>cons_at := Seen t\<rparr>)"
| fetch: "cons_at s = Seen t \<Longrightarrow>
    ring_access s (s\<lparr>cons_at := Fetched t (buf (que s) ! t)\<rparr>)"
| release: "cons_at s = Fetched t x \<Longrightarrow>
    ring_access s (s\<lparr>que := (que s)\<lparr>tail := (t + 1) mod slots (que s)\<rparr>, cons_at := ConsIdle,
      popped := popped s @ [x]\<rparr>)"

inductive ring_reach :: "nat \<Rightarrow> 'a \<Rightarrow> 'a shared \<Rightarrow> bool" for n v where
  ring_starts: "ring_reach n v (shared_start n v)"
| ring_steps: "ring_reach n v s \<Longrightarrow> ring_access s t \<Longrightarrow> ring_reach n v t"

fun producer_ok :: "'a ring_queue \<Rightarrow> 'a producer \<Rightarrow> bool" where
  "producer_ok q ProdIdle = True"
| "producer_ok q (Claimed h v) = (h = head q \<and> count q < slots q - 1)"
| "producer_ok q (Stored h v) = (h = head q \<and> count q < slots q - 1 \<and> buf q ! h = v)"

fun consumer_ok :: "'a ring_queue \<Rightarrow> 'a consumer \<Rightarrow> bool" where
  "consumer_ok q ConsIdle = True"
| "consumer_ok q (Seen t) = (t = tail q \<and> items q \<noteq> [])"
| "consumer_ok q (Fetched t x) = (t = tail q \<and> items q \<noteq> [] \<and> hd (items q) = x)"

definition shared_inv :: "nat \<Rightarrow> 'a shared \<Rightarrow> bool" where
  "shared_inv n s \<longleftrightarrow> ring_ok (que s) \<and> slots (que s) = n
     \<and> pushed s = popped s @ items (que s)
     \<and> producer_ok (que s) (prod_at s) \<and> consumer_ok (que s) (cons_at s)"

text \<open>Writing the free cell is invisible, publishing it appends, releasing one removes it.\<close>

lemma items_fill:
  assumes "ring_ok q"
  shows "items (q\<lparr>buf := (buf q)[head q := v]\<rparr>) = items q"
    and "count (q\<lparr>buf := (buf q)[head q := v]\<rparr>) = count q"
proof -
  show c: "count (q\<lparr>buf := (buf q)[head q := v]\<rparr>) = count q" by (simp add: count_def)
  have "(buf q)[head q := v] ! ((tail q + i) mod slots q) = buf q ! ((tail q + i) mod slots q)"
    if "i < count q" for i
  proof -
    have "(tail q + i) mod slots q \<noteq> head q"
      using head_count [OF assms] mod_cell_eq_iff [of i "slots q" "count q" "tail q"]
        count_bound [OF assms] that assms by (simp add: ring_ok_def)
    then show ?thesis by simp
  qed
  with c show "items (q\<lparr>buf := (buf q)[head q := v]\<rparr>) = items q"
    by (simp add: items_def)
qed

lemma items_publish:
  assumes "ring_ok q" and "count q < slots q - 1" and "buf q ! head q = v"
  shows "ring_ok (q\<lparr>head := (head q + 1) mod slots q\<rparr>)"
    and "items (q\<lparr>head := (head q + 1) mod slots q\<rparr>) = items q @ [v]"
proof -
  have "try_push v q = Some (q\<lparr>head := (head q + 1) mod slots q\<rparr>)"
    using assms full_iff [OF assms(1)] list_update_id [of "buf q" "head q"]
    by (simp add: try_push_def)
  with push_room [OF assms(1,2), of v]
  show "ring_ok (q\<lparr>head := (head q + 1) mod slots q\<rparr>)"
    and "items (q\<lparr>head := (head q + 1) mod slots q\<rparr>) = items q @ [v]"
    by auto
qed

lemma items_release:
  assumes "ring_ok q" and "items q \<noteq> []"
  shows "ring_ok (q\<lparr>tail := (tail q + 1) mod slots q\<rparr>)"
    and "items q = hd (items q) # items (q\<lparr>tail := (tail q + 1) mod slots q\<rparr>)"
    and "hd (items q) = buf q ! tail q"
proof -
  obtain x xs where x: "items q = x # xs" using assms(2) by (cases "items q") auto
  then have "count q \<noteq> 0" using length_items [of q] by auto
  then have "try_pop q = Some (buf q ! tail q, q\<lparr>tail := (tail q + 1) mod slots q\<rparr>)"
    using empty_iff [OF assms(1)] by (simp add: try_pop_def Let_def)
  with pop_some [OF assms(1) x] x
  show "ring_ok (q\<lparr>tail := (tail q + 1) mod slots q\<rparr>)"
    and "items q = hd (items q) # items (q\<lparr>tail := (tail q + 1) mod slots q\<rparr>)"
    and "hd (items q) = buf q ! tail q"
    by auto
qed

lemma shared_inv_step: "ring_access s t \<Longrightarrow> shared_inv n s \<Longrightarrow> shared_inv n t"
proof (induction rule: ring_access.induct)
  case (claim s h v)
  then show ?case
    using full_iff [of "que s"] count_bound [of "que s"] by (auto simp: shared_inv_def)
next
  case (fill s h v)
  then have h: "h = head (que s)" "count (que s) < slots (que s) - 1" and ok: "ring_ok (que s)"
    by (auto simp: shared_inv_def)
  have "producer_ok ((que s)\<lparr>buf := (buf (que s))[h := v]\<rparr>) (Stored h v)"
    using h ok items_fill(2) [OF ok, of v] by (simp add: ring_ok_def)
  moreover have "consumer_ok ((que s)\<lparr>buf := (buf (que s))[h := v]\<rparr>) (cons_at s)"
    using fill h items_fill(1) [OF ok, of v] by (cases "cons_at s") (auto simp: shared_inv_def)
  ultimately show ?case
    using fill h ok items_fill(1) [OF ok, of v] by (simp add: shared_inv_def ring_ok_def)
next
  case (publish s h v)
  then have h: "h = head (que s)" "count (que s) < slots (que s) - 1" "buf (que s) ! head (que s) = v"
    and ok: "ring_ok (que s)" by (auto simp: shared_inv_def)
  note p = items_publish [OF ok h(2,3)]
  have "consumer_ok ((que s)\<lparr>head := (h + 1) mod slots (que s)\<rparr>) (cons_at s)"
    using publish p h(1) by (cases "cons_at s") (auto simp: shared_inv_def)
  with publish p h(1) show ?case by (simp add: shared_inv_def)
next
  case (look s t)
  then show ?case
    using empty_iff [of "que s"] length_items [of "que s"]
    by (auto simp: shared_inv_def simp del: length_items)
next
  case (fetch s t)
  then show ?case
    using items_release(3) [of "que s"] by (auto simp: shared_inv_def)
next
  case (release s t x)
  then have t: "t = tail (que s)" "items (que s) \<noteq> []" "hd (items (que s)) = x"
    and ok: "ring_ok (que s)" by (simp_all add: shared_inv_def)
  note r = items_release [OF ok t(2)]
  let ?q = "(que s)\<lparr>tail := (t + 1) mod slots (que s)\<rparr>"
  have i: "items (que s) = x # items ?q" using r(2) t by simp
  then have "count ?q < count (que s)" using length_items [of "que s"] length_items [of ?q] by simp
  moreover have "producer_ok (que s) (prod_at s)" using release by (simp add: shared_inv_def)
  ultimately have "producer_ok ?q (prod_at s)"
    by (cases "prod_at s") auto
  with release r(1) i t(1) show ?case by (simp add: shared_inv_def)
qed

lemma shared_inv_reach:
  assumes "ring_reach n v s" and "0 < n"
  shows "shared_inv n s"
  using assms
proof (induction rule: ring_reach.induct)
  case ring_starts
  then show ?case
    using new_ring_ok [of n v] items_new_ring [of n v]
    by (simp add: shared_inv_def shared_start_def) (simp add: new_ring_def)
next
  case (ring_steps s t)
  then show ?case by (blast intro: shared_inv_step)
qed

section \<open>Properties\<close>

text \<open>C29: The queue between two threads loses, duplicates and reorders nothing: after any
  interleaving of the memory accesses of one producer and one consumer, what was popped is
  the beginning of what was pushed, the rest is in the queue in order, and at most
  \<open>N - 1\<close> elements wait; the queue refuses a push exactly when so many wait.\<close>
theorem ring_queue_concurrent_fifo:
  assumes "ring_reach n v s" and "0 < n"
  shows "pushed s = popped s @ items (que s) \<and> length (items (que s)) \<le> n - 1
    \<and> (try_push x (que s) = None \<longleftrightarrow> length (items (que s)) = n - 1)
    \<and> (try_pop (que s) = None \<longleftrightarrow> items (que s) = [])"
proof -
  have i: "shared_inv n s" using assms by (rule shared_inv_reach)
  then have ok: "ring_ok (que s)" and n: "slots (que s) = n" by (simp_all add: shared_inv_def)
  show ?thesis
    using i ring.within [OF ok] ring.push_None_iff [OF ok, of x] ring.pop_None_iff [OF ok]
    unfolding n by (simp add: shared_inv_def)
qed

theorem ring_queue_concurrent_fifo_witness:
  "\<exists>s. ring_reach 2 (0 :: nat) s \<and> pushed s = [7] \<and> popped s = [] \<and> items (que s) = [7]
    \<and> try_push 8 (que s) = None"
proof -
  let ?s = "shared_start 2 (0 :: nat)"
  have 1: "ring_reach 2 0 (?s\<lparr>prod_at := Claimed 0 7\<rparr>)"
    by (rule ring_steps [OF ring_starts claim]) (simp_all add: shared_start_def new_ring_def)
  have 2: "ring_reach 2 0 (?s\<lparr>que := \<lparr>buf = [7, 0], head = 0, tail = 0\<rparr>, prod_at := Stored 0 7\<rparr>)"
    using ring_steps [OF 1 fill, of 0 7]
    by (simp add: shared_start_def new_ring_def numeral_2_eq_2)
  have 3: "ring_reach 2 0 (?s\<lparr>que := \<lparr>buf = [7, 0], head = 1, tail = 0\<rparr>, prod_at := ProdIdle,
      pushed := [7]\<rparr>)"
    using ring_steps [OF 2 publish, of 0 7] by (simp add: shared_start_def)
  have i: "items \<lparr>buf = [7, 0 :: nat], head = 1, tail = 0\<rparr> = [7]" by code_simp
  then have "count \<lparr>buf = [7, 0 :: nat], head = 1, tail = 0\<rparr> = 1"
    using length_items [of "\<lparr>buf = [7, 0 :: nat], head = 1, tail = 0\<rparr>"] by (simp only: list.size)
  with ring_queue_concurrent_fifo [OF 3, of 8] i show ?thesis
    by (intro exI [of _ "?s\<lparr>que := \<lparr>buf = [7, 0], head = 1, tail = 0\<rparr>, prod_at := ProdIdle,
        pushed := [7]\<rparr>"]) (use 3 in \<open>simp add: shared_start_def\<close>)
qed

end
