(* ===== verification/Mission.thy ===== *)
theory Mission
  imports GS_Prelude Protocol
begin

text \<open>
  The mission interface header \<open>shared/include/exn/shared/exn_interfaces.h\<close>: the identifiers
  the programs use, the big-endian accessors and the structures the simulator sends. A pointer into a buffer is an offset; an
  access outside the buffer has no defined result.
\<close>

section \<open>Identifiers\<close>

definition APID_OBC :: u16 where "APID_OBC = 0x100"
definition PUSID_GS :: u16 where "PUSID_GS = 0x10"

definition SVC_VERIFY :: byte where "SVC_VERIFY = 1"
definition SVC_HK :: byte where "SVC_HK = 3"

definition SUB_VERIFY_ACCEPT_OK :: byte where "SUB_VERIFY_ACCEPT_OK = 1"
definition SUB_VERIFY_ACCEPT_FAIL :: byte where "SUB_VERIFY_ACCEPT_FAIL = 2"
definition SUB_VERIFY_START_OK :: byte where "SUB_VERIFY_START_OK = 3"
definition SUB_VERIFY_COMPLETE_OK :: byte where "SUB_VERIFY_COMPLETE_OK = 7"
definition SUB_HK_REPORT :: byte where "SUB_HK_REPORT = 25"
definition SUB_HK_REQUEST :: byte where "SUB_HK_REQUEST = 27"
definition SUB_SYS_HK_REQUEST :: byte where "SUB_SYS_HK_REQUEST = 128"
definition SUB_SYS_HK_REPORT :: byte where "SUB_SYS_HK_REPORT = 129"

definition EXN_PUS_TC_ACK_ACCEPTANCE :: byte where "EXN_PUS_TC_ACK_ACCEPTANCE = 8"
definition EXN_PUS_TC_ACK_START :: byte where "EXN_PUS_TC_ACK_START = 4"
definition EXN_PUS_TC_ACK_COMPLETION :: byte where "EXN_PUS_TC_ACK_COMPLETION = 1"
definition EXN_PUS_TC_ACK_READ_DEFAULT :: byte where "EXN_PUS_TC_ACK_READ_DEFAULT = 8"

definition EXN_HK_HEARTBEAT :: u16 where "EXN_HK_HEARTBEAT = 1"
definition EXN_STATE_READY :: byte where "EXN_STATE_READY = 2"
definition EXN_TIME_UNSYNCED :: byte where "EXN_TIME_UNSYNCED = 0"
definition EXN_SYSTEM_HK_OK :: byte where "EXN_SYSTEM_HK_OK = 0"
definition EXN_SUPERVISION_OK :: byte where "EXN_SUPERVISION_OK = 1"
definition EXN_RECOVERY_NONE :: byte where "EXN_RECOVERY_NONE = 0"
definition EXN_RECOVERY_REASON_NONE :: byte where "EXN_RECOVERY_REASON_NONE = 0"
definition EXN_RECOVERY_ACTION_NONE :: byte where "EXN_RECOVERY_ACTION_NONE = 0"
definition EXN_RECOVERY_RESULT_NONE :: byte where "EXN_RECOVERY_RESULT_NONE = 0"

text \<open>\<open>sizeof\<close> of the packed prefixes of a System HK report.\<close>

definition endpoint_prefix_size :: nat where "endpoint_prefix_size = 30"
definition structure_prefix_size :: nat where "structure_prefix_size = 8"

lemmas mission_ids = APID_OBC_def PUSID_GS_def SVC_VERIFY_def SVC_HK_def
  SUB_VERIFY_ACCEPT_OK_def SUB_VERIFY_ACCEPT_FAIL_def SUB_VERIFY_START_OK_def
  SUB_VERIFY_COMPLETE_OK_def SUB_HK_REPORT_def SUB_HK_REQUEST_def SUB_SYS_HK_REQUEST_def
  SUB_SYS_HK_REPORT_def EXN_PUS_TC_ACK_ACCEPTANCE_def EXN_PUS_TC_ACK_START_def
  EXN_PUS_TC_ACK_COMPLETION_def EXN_PUS_TC_ACK_READ_DEFAULT_def EXN_HK_HEARTBEAT_def
  EXN_STATE_READY_def EXN_TIME_UNSYNCED_def EXN_SYSTEM_HK_OK_def EXN_SUPERVISION_OK_def
  EXN_RECOVERY_NONE_def EXN_RECOVERY_REASON_NONE_def EXN_RECOVERY_ACTION_NONE_def
  EXN_RECOVERY_RESULT_NONE_def

section \<open>Packed structures\<close>

text \<open>
  The packed prefixes of the reports the simulator builds, as declared: a \<open>uint8_t x_be[n]\<close> stands for the
  big-endian value of \<open>n\<close> octets. No function under \<open>src\<close> packs them; the simulator stores the octets at
  numeric offsets. \<open>pack_request_id\<close> and the like are the specification it is held to: the octets that the
  declaration lays out, field after field without padding.
\<close>

record exn_request_id =
  packet_id_be :: u16
  packet_sequence_control_be :: u16

definition pack_request_id :: "exn_request_id \<Rightarrow> bytes" where
  "pack_request_id r = append_u16 [] (packet_id_be r) @ append_u16 [] (packet_sequence_control_be r)"

record exn_verification_failure_prefix =
  failed_request :: exn_request_id
  failure_code_be :: u16
  failure_data_length_be :: u16

definition pack_verification_failure :: "exn_verification_failure_prefix \<Rightarrow> bytes" where
  "pack_verification_failure r = pack_request_id (failed_request r)
     @ append_u16 [] (failure_code_be r) @ append_u16 [] (failure_data_length_be r)"

record exn_system_hk_report_prefix =
  answered_request :: exn_request_id
  snapshot_unix_ms_be :: u64
  system_status :: byte
  endpoint_count :: byte

definition pack_system_hk_report :: "exn_system_hk_report_prefix \<Rightarrow> bytes" where
  "pack_system_hk_report r = pack_request_id (answered_request r)
     @ append_u64 [] (snapshot_unix_ms_be r) @ [system_status r, endpoint_count r]"

record exn_system_hk_endpoint_prefix =
  producer_apid_be :: u16
  supervision_state :: byte
  endpoint_state :: byte
  recovery_state :: byte
  recovery_reason :: byte
  recovery_action :: byte
  recovery_flags :: byte
  recovery_attempts_be :: u16
  recovery_successes_be :: u16
  last_recovery_result :: byte
  heartbeat_age_ms_be :: u32
  health_age_ms_be :: u32
  last_recovery_unix_ms_be :: u64
  structure_count :: byte

definition pack_endpoint :: "exn_system_hk_endpoint_prefix \<Rightarrow> bytes" where
  "pack_endpoint r = append_u16 [] (producer_apid_be r)
     @ [supervision_state r, endpoint_state r, recovery_state r, recovery_reason r,
        recovery_action r, recovery_flags r]
     @ append_u16 [] (recovery_attempts_be r) @ append_u16 [] (recovery_successes_be r)
     @ [last_recovery_result r]
     @ append_u32 [] (heartbeat_age_ms_be r) @ append_u32 [] (health_age_ms_be r)
     @ append_u64 [] (last_recovery_unix_ms_be r) @ [structure_count r]"

record exn_system_hk_structure_prefix =
  structure_id_be :: u16
  age_ms_be :: u32
  block_length_be :: u16

definition pack_structure :: "exn_system_hk_structure_prefix \<Rightarrow> bytes" where
  "pack_structure r = append_u16 [] (structure_id_be r) @ append_u32 [] (age_ms_be r)
     @ append_u16 [] (block_length_be r)"

record exn_hk_report_prefix =
  hk_structure_id_be :: u16
  sample_unix_ms_be :: u64

definition pack_hk_report :: "exn_hk_report_prefix \<Rightarrow> bytes" where
  "pack_hk_report r = append_u16 [] (hk_structure_id_be r) @ append_u64 [] (sample_unix_ms_be r)"

lemma packed_sizes:
  "length (pack_request_id i) = 4" "length (pack_verification_failure f) = 8"
  "length (pack_system_hk_report h) = 14" "length (pack_endpoint e) = endpoint_prefix_size"
  "length (pack_structure s) = structure_prefix_size" "length (pack_hk_report k) = 10"
  by (simp_all add: pack_request_id_def pack_verification_failure_def pack_system_hk_report_def
      pack_endpoint_def pack_structure_def pack_hk_report_def endpoint_prefix_size_def
      structure_prefix_size_def)

lemma request_id_packed:
  assumes "length rid = 4"
  shows "pack_request_id \<lparr>packet_id_be = read_u16 rid, packet_sequence_control_be = read_u16 (drop 2 rid)\<rparr> = rid"
proof -
  have "take 2 (drop 2 rid) = drop 2 rid" using assms by simp
  with assms show ?thesis by (simp add: pack_request_id_def append_read_u16)
qed

lemmas packs = pack_request_id_def pack_verification_failure_def pack_system_hk_report_def
  pack_endpoint_def pack_structure_def pack_hk_report_def

section \<open>Accessors\<close>

text \<open>\<open>p[i] = v\<close> and \<open>p[i]\<close>.\<close>

definition poke :: "nat \<Rightarrow> byte \<Rightarrow> bytes \<Rightarrow> bytes cpp" where
  "poke i v b = (if i < length b then Done (b[i := v]) else UB)"

definition peek :: "nat \<Rightarrow> bytes \<Rightarrow> byte cpp" where
  "peek i b = (if i < length b then Done (b ! i) else UB)"

text \<open>Statements run one after the other on a buffer.\<close>

definition in_order :: "(bytes \<Rightarrow> bytes cpp) list \<Rightarrow> bytes \<Rightarrow> bytes cpp" where
  "in_order ops = fold_cpp (\<lambda>f. f) ops"

definition exn_be_put_u16 :: "nat \<Rightarrow> u16 \<Rightarrow> bytes \<Rightarrow> bytes cpp" where
  "exn_be_put_u16 p v = in_order [poke p (ucast (drop_bit 8 v)), poke (p + 1) (ucast v)]"

definition exn_be_put_u32 :: "nat \<Rightarrow> u32 \<Rightarrow> bytes \<Rightarrow> bytes cpp" where
  "exn_be_put_u32 p v = in_order
     [poke p (ucast (drop_bit 24 v)), poke (p + 1) (ucast (drop_bit 16 v)),
      poke (p + 2) (ucast (drop_bit 8 v)), poke (p + 3) (ucast v)]"

definition exn_be_put_u64 :: "nat \<Rightarrow> u64 \<Rightarrow> bytes \<Rightarrow> bytes cpp" where
  "exn_be_put_u64 p v = in_order
     [exn_be_put_u32 p (ucast (drop_bit 32 v)), exn_be_put_u32 (p + 4) (ucast v)]"

definition exn_be_get_u16 :: "nat \<Rightarrow> bytes \<Rightarrow> u16 cpp" where
  "exn_be_get_u16 p b =
     bind_cpp (peek p b) (\<lambda>b0. bind_cpp (peek (p + 1) b) (\<lambda>b1.
       Done (push_bit 8 (ucast b0) OR ucast b1)))"

definition exn_be_get_u32 :: "nat \<Rightarrow> bytes \<Rightarrow> u32 cpp" where
  "exn_be_get_u32 p b =
     bind_cpp (peek p b) (\<lambda>b0. bind_cpp (peek (p + 1) b) (\<lambda>b1.
     bind_cpp (peek (p + 2) b) (\<lambda>b2. bind_cpp (peek (p + 3) b) (\<lambda>b3.
       Done (push_bit 24 (ucast b0) OR push_bit 16 (ucast b1)
         OR push_bit 8 (ucast b2) OR ucast b3)))))"

definition exn_be_get_u64 :: "nat \<Rightarrow> bytes \<Rightarrow> u64 cpp" where
  "exn_be_get_u64 p b =
     bind_cpp (exn_be_get_u32 p b) (\<lambda>hi. bind_cpp (exn_be_get_u32 (p + 4) b) (\<lambda>lo.
       Done (push_bit 32 (ucast hi) OR ucast lo)))"

text \<open>A run of stores is one overwrite with the octets in order.\<close>

definition overwrite :: "nat \<Rightarrow> bytes \<Rightarrow> bytes \<Rightarrow> bytes" where
  "overwrite p vs b = take p b @ vs @ drop (p + length vs) b"

lemma length_overwrite [simp]: "p + length vs \<le> length b \<Longrightarrow> length (overwrite p vs b) = length b"
  by (simp add: overwrite_def)

lemma overwrite_Nil [simp]: "overwrite p [] b = b"
  by (simp add: overwrite_def)

lemma overwrite_Cons:
  "p < length b \<Longrightarrow> overwrite p (v # vs) b = overwrite (p + 1) vs (b[p := v])"
  by (simp add: overwrite_def take_Suc_conv_app_nth upd_conv_take_nth_drop ac_simps)

lemma overwrite_append:
  assumes "p + length us + length vs \<le> length b"
  shows "overwrite (p + length us) vs (overwrite p us b) = overwrite p (us @ vs) b"
  using assms by (simp add: overwrite_def ac_simps)

lemma in_order_Cons: "in_order (f # fs) b = bind_cpp (f b) (in_order fs)"
  by (simp add: in_order_def)

lemma in_order_Nil: "in_order [] b = Done b"
  by (simp add: in_order_def)

lemma put_u16_eq:
  assumes "p + 2 \<le> length b"
  shows "exn_be_put_u16 p v b = Done (overwrite p (append_u16 [] v) b)"
  using assms
  by (simp add: exn_be_put_u16_def in_order_Cons in_order_Nil poke_def append_u16_def
      ucast_and_255 overwrite_Cons)

lemma put_u32_eq:
  assumes "p + 4 \<le> length b"
  shows "exn_be_put_u32 p v b = Done (overwrite p (append_u32 [] v) b)"
  using assms
  by (simp add: exn_be_put_u32_def in_order_Cons in_order_Nil poke_def append_u32_def
      ucast_and_255 overwrite_Cons numeral_3_eq_3)

lemma append_u64_halves:
  "append_u64 [] v = append_u32 [] (ucast (drop_bit 32 v)) @ append_u32 [] (ucast v)"
  by (simp add: append_u64_def append_u32_def ucast_and_255)
    (auto simp: bit_eq_iff bit_simps intro: bit_imp_le_length)

lemma put_u64_eq:
  assumes "p + 8 \<le> length b"
  shows "exn_be_put_u64 p v b = Done (overwrite p (append_u64 [] v) b)"
proof -
  let ?hi = "append_u32 [] (ucast (drop_bit 32 v))" and ?lo = "append_u32 [] (ucast v)"
  have "overwrite (p + length ?hi) ?lo (overwrite p ?hi b) = overwrite p (?hi @ ?lo) b"
    using assms by (intro overwrite_append) simp
  then show ?thesis
    using assms by (simp add: exn_be_put_u64_def in_order_Cons in_order_Nil put_u32_eq append_u64_halves)
qed

lemma get_u16_eq: "p + 2 \<le> length b \<Longrightarrow> exn_be_get_u16 p b = Done (read_u16 (drop p b))"
  by (simp add: exn_be_get_u16_def peek_def read_u16_def)

lemma get_u32_eq: "p + 4 \<le> length b \<Longrightarrow> exn_be_get_u32 p b = Done (read_u32 (drop p b))"
  by (simp add: exn_be_get_u32_def peek_def read_u32_def)

lemma ucast_push_byte:
  "k \<le> 24 \<Longrightarrow> (ucast (push_bit k (ucast (x :: byte)) :: u32) :: u64) = push_bit k (ucast x)"
  by (rule bit_word_eqI) (auto simp: bit_simps dest: bit_imp_le_length)

lemma ucast_byte_u32: "(ucast (ucast (x :: byte) :: u32) :: u64) = ucast x"
  by (rule bit_word_eqI) (auto simp: bit_simps dest: bit_imp_le_length)

lemma read_u64_halves:
  "8 \<le> length p \<Longrightarrow>
     read_u64 p = push_bit 32 (ucast (read_u32 p)) OR ucast (read_u32 (drop 4 p))"
  by (simp add: read_u64_def read_u32_def unsigned_or_eq push_bit_or ucast_push_byte
      ucast_byte_u32 or.assoc)

lemma get_u64_eq: "p + 8 \<le> length b \<Longrightarrow> exn_be_get_u64 p b = Done (read_u64 (drop p b))"
  by (simp add: exn_be_get_u64_def get_u32_eq read_u64_halves add.commute)

section \<open>Properties\<close>

text \<open>The mission's accessors agree with the IPC protocol's integers: storing writes the
  octets that \<open>append_*\<close> appends, at the offset and nowhere else, and reading the offset
  back gives the value, for all three widths and every buffer that is long enough.\<close>
lemma be_accessors_roundtrip:
  assumes "p + 2 \<le> length a" and "p + 4 \<le> length b" and "p + 8 \<le> length c"
  shows "\<exists>a' b' c'.
    exn_be_put_u16 p x a = Done a' \<and> a' = take p a @ append_u16 [] x @ drop (p + 2) a \<and>
    exn_be_get_u16 p a' = Done x \<and>
    exn_be_put_u32 p y b = Done b' \<and> b' = take p b @ append_u32 [] y @ drop (p + 4) b \<and>
    exn_be_get_u32 p b' = Done y \<and>
    exn_be_put_u64 p z c = Done c' \<and> c' = take p c @ append_u64 [] z @ drop (p + 8) c \<and>
    exn_be_get_u64 p c' = Done z"
  using assms
  by (simp add: put_u16_eq put_u32_eq put_u64_eq get_u16_eq get_u32_eq get_u64_eq overwrite_def)

end
