(* ===== verification/Mission_Ids.thy ===== *)
theory Mission_Ids
  imports GS_Prelude Cpp_Numbers Protocol Mission
begin

text \<open>
  The identifiers of \<open>shared/include/exn/shared/exn_interfaces.h\<close>: every enumeration and every
  group of macros as the list of its names with their values. The programs of the repository
  use a few of them, which \<open>Mission\<close> declares; the whole interface is checked here: no two names
  of an enumeration share a value, every value fits the field that carries it, flags are
  single bits. The packed structures of the services that no program uses yet are declared at the
  end; those the simulator sends are in \<open>Mission\<close>.
\<close>

type_synonym identifiers = "(string \<times> nat) list"

section \<open>Enumerations\<close>

definition exn_apid_t :: identifiers where
  "exn_apid_t =
     [(''APID_GS'', 0x0F0), (''APID_OBC'', 0x100), (''APID_PI_CAM'', 0x101),
      (''APID_FPGA'', 0x102), (''APID_ANTENNA'', 0x103), (''APID_PI_MGMT'', 0x104)]"

definition exn_pus_id_t :: identifiers where
  "exn_pus_id_t =
     [(''PUSID_OBC'', 0x0001), (''PUSID_PI_CAM'', 0x0002), (''PUSID_FPGA'', 0x0003),
      (''PUSID_ANTENNA'', 0x0004), (''PUSID_PI_MGMT'', 0x0005), (''PUSID_GS'', 0x0010)]"

definition exn_service_t :: identifiers where
  "exn_service_t =
     [(''SVC_VERIFY'', 1), (''SVC_HK'', 3), (''SVC_EVENTS'', 5), (''SVC_FUNCTION'', 8),
      (''SVC_TIME'', 9), (''SVC_MONITOR'', 12), (''SVC_PARAM'', 20), (''SVC_CAMERA'', 200),
      (''SVC_PROCESS'', 210), (''SVC_OBJECT'', 220), (''SVC_SOFTWARE'', 230)]"

definition exn_subservice_t :: identifiers where
  "exn_subservice_t =
     [(''SUB_VERIFY_ACCEPT_OK'', 1), (''SUB_VERIFY_ACCEPT_FAIL'', 2),
      (''SUB_VERIFY_START_OK'', 3), (''SUB_VERIFY_START_FAIL'', 4),
      (''SUB_VERIFY_PROGRESS_OK'', 5), (''SUB_VERIFY_PROGRESS_FAIL'', 6),
      (''SUB_VERIFY_COMPLETE_OK'', 7), (''SUB_VERIFY_COMPLETE_FAIL'', 8),
      (''SUB_HK_ENABLE_PERIODIC'', 5), (''SUB_HK_DISABLE_PERIODIC'', 6), (''SUB_HK_REPORT'', 25),
      (''SUB_HK_REQUEST'', 27), (''SUB_SYS_HK_REQUEST'', 128), (''SUB_SYS_HK_REPORT'', 129),
      (''SUB_EVENT_INFO'', 1), (''SUB_EVENT_LOW'', 2), (''SUB_EVENT_MEDIUM'', 3),
      (''SUB_EVENT_HIGH'', 4), (''SUB_FUNCTION_PERFORM'', 1), (''SUB_TIME_SET_MISSION'', 128),
      (''SUB_MONITOR_ENABLE_DEF'', 1), (''SUB_MONITOR_DISABLE_DEF'', 2),
      (''SUB_MONITOR_GET_OOL'', 10), (''SUB_MONITOR_OOL_REPORT'', 11),
      (''SUB_MONITOR_GET_STATUS'', 13), (''SUB_MONITOR_STATUS_REPORT'', 14),
      (''SUB_MONITOR_ENABLE'', 15), (''SUB_MONITOR_DISABLE'', 16),
      (''SUB_PARAM_REPORT_REQUEST'', 1), (''SUB_PARAM_REPORT'', 2), (''SUB_PARAM_SET'', 3),
      (''SUB_CAM_START'', 1), (''SUB_CAM_STOP'', 2), (''SUB_CAM_SET_CONFIGURATION'', 3),
      (''SUB_CAM_GET_CONFIGURATION'', 4), (''SUB_CAM_CONFIGURATION_REPORT'', 5),
      (''SUB_CAM_GET_CAPABILITIES'', 6), (''SUB_CAM_CAPABILITIES'', 7),
      (''SUB_CAM_LIST_PRODUCTS'', 8), (''SUB_CAM_PRODUCT_CATALOG'', 9),
      (''SUB_CAM_DELETE_PRODUCT'', 10), (''SUB_CAM_GET_ACQ_STATUS'', 11),
      (''SUB_CAM_ACQ_STATUS'', 12), (''SUB_PROCESS_SUBMIT'', 1), (''SUB_PROCESS_CANCEL'', 2),
      (''SUB_PROCESS_GET_STATUS'', 3), (''SUB_PROCESS_STATUS'', 4), (''SUB_PROCESS_GET_CAPS'', 5),
      (''SUB_PROCESS_CAPS'', 6), (''SUB_PROCESS_SMALL_RESULT'', 7), (''SUB_OBJECT_START'', 1),
      (''SUB_OBJECT_STOP'', 2), (''SUB_OBJECT_GET_STATUS'', 3), (''SUB_OBJECT_METADATA'', 10),
      (''SUB_OBJECT_CHUNK'', 11), (''SUB_OBJECT_COMPLETE'', 12), (''SUB_OBJECT_STATUS'', 13),
      (''SUB_SW_GET_INVENTORY'', 1), (''SUB_SW_INVENTORY'', 2), (''SUB_SW_STAGE'', 3),
      (''SUB_SW_ACTIVATE'', 4), (''SUB_SW_ROLLBACK'', 5), (''SUB_SW_GET_STATUS'', 6),
      (''SUB_SW_STATUS'', 7)]"

definition exn_function_id_t :: identifiers where
  "exn_function_id_t =
     [(''EXN_FUNCTION_CLEAR_FAULTS'', 0x0001), (''EXN_FUNCTION_REINITIALIZE'', 0x0002),
      (''EXN_FUNCTION_REBOOT_NODE'', 0x0003), (''EXN_FUNCTION_ENTER_IDLE'', 0x0004),
      (''EXN_FUNCTION_LEAVE_IDLE'', 0x0005), (''EXN_FUNCTION_CREATE_DIAGNOSTIC_LOG'', 0x0006),
      (''EXN_FUNCTION_PI_RESTART_CAMERA'', 0x0101), (''EXN_FUNCTION_PI_RESTART_ANTENNA'', 0x0102),
      (''EXN_FUNCTION_PI_RESTART_MISSION'', 0x0103), (''EXN_FUNCTION_PI_REBOOT'', 0x0104),
      (''EXN_FUNCTION_PI_SHUTDOWN'', 0x0105)]"

definition exn_value_type_t :: identifiers where
  "exn_value_type_t =
     [(''EXN_VALUE_BOOL'', 1), (''EXN_VALUE_U8'', 2), (''EXN_VALUE_U16'', 3),
      (''EXN_VALUE_U32'', 4), (''EXN_VALUE_U64'', 5), (''EXN_VALUE_I16'', 6),
      (''EXN_VALUE_I32'', 7), (''EXN_VALUE_F32'', 8), (''EXN_VALUE_STRING'', 9),
      (''EXN_VALUE_BYTES'', 10)]"

definition exn_camera_config_status_t :: identifiers where
  "exn_camera_config_status_t =
     [(''EXN_CAM_CONFIG_OK'', 0), (''EXN_CAM_CONFIG_UNSUPPORTED'', 1),
      (''EXN_CAM_CONFIG_UNAVAILABLE_IN_CURRENT_MODE'', 2), (''EXN_CAM_CONFIG_READ_ONLY'', 3),
      (''EXN_CAM_CONFIG_INVALID'', 4)]"

definition exn_camera_control_id_t :: identifiers where
  "exn_camera_control_id_t =
     [(''EXN_CAM_SENSOR_MODE'', 0x0001), (''EXN_CAM_OUTPUT_WIDTH'', 0x0002),
      (''EXN_CAM_OUTPUT_HEIGHT'', 0x0003), (''EXN_CAM_OUTPUT_PIXEL_FORMAT'', 0x0004),
      (''EXN_CAM_FRAME_RATE'', 0x0005), (''EXN_CAM_CROP_X'', 0x0006),
      (''EXN_CAM_CROP_Y'', 0x0007), (''EXN_CAM_CROP_W'', 0x0008), (''EXN_CAM_CROP_H'', 0x0009),
      (''EXN_CAM_HFLIP'', 0x000A), (''EXN_CAM_VFLIP'', 0x000B), (''EXN_CAM_AE_ENABLE'', 0x0100),
      (''EXN_CAM_EXPOSURE_US'', 0x0101), (''EXN_CAM_ANALOGUE_GAIN'', 0x0102),
      (''EXN_CAM_EXPOSURE_COMPENSATION_EV'', 0x0103), (''EXN_CAM_METERING_MODE'', 0x0104),
      (''EXN_CAM_EXPOSURE_MODE'', 0x0105), (''EXN_CAM_AWB_ENABLE'', 0x0200),
      (''EXN_CAM_AWB_MODE'', 0x0201), (''EXN_CAM_AWB_RED_GAIN'', 0x0202),
      (''EXN_CAM_AWB_BLUE_GAIN'', 0x0203), (''EXN_CAM_AF_MODE'', 0x0300),
      (''EXN_CAM_AF_RANGE'', 0x0302), (''EXN_CAM_AF_SPEED'', 0x0303),
      (''EXN_CAM_LENS_POSITION_DIOPTRES'', 0x0304), (''EXN_CAM_AF_WINDOW_X'', 0x0305),
      (''EXN_CAM_AF_WINDOW_Y'', 0x0306), (''EXN_CAM_AF_WINDOW_W'', 0x0307),
      (''EXN_CAM_AF_WINDOW_H'', 0x0308), (''EXN_CAM_HDR_ENABLE'', 0x0400),
      (''EXN_CAM_BRIGHTNESS'', 0x0401), (''EXN_CAM_CONTRAST'', 0x0402),
      (''EXN_CAM_SATURATION'', 0x0403), (''EXN_CAM_SHARPNESS'', 0x0404),
      (''EXN_CAM_DENOISE_MODE'', 0x0405), (''EXN_CAM_JPEG_QUALITY'', 0x0500),
      (''EXN_CAM_THUMBNAIL_ENABLE'', 0x0501), (''EXN_CAM_THUMBNAIL_MAX_WIDTH'', 0x0502)]"

definition exn_route_target_t :: identifiers where
  "exn_route_target_t =
     [(''EXN_TARGET_PI_CAM'', 1), (''EXN_TARGET_FPGA'', 2), (''EXN_TARGET_ANTENNA'', 3),
      (''EXN_TARGET_PI_MGMT'', 4)]"

definition exn_hk_structure_t :: identifiers where
  "exn_hk_structure_t =
     [(''EXN_HK_HEARTBEAT'', 1), (''EXN_HK_HEALTH'', 2), (''EXN_HK_SENSORS'', 3),
      (''EXN_HK_LINKS'', 4)]"

definition exn_hardware_profile_t :: identifiers where
  "exn_hardware_profile_t =
     [(''EXN_HW_STM32H755_NUCLEO'', 0x0001), (''EXN_HW_RPI5'', 0x0101),
      (''EXN_HW_KRIA_K26'', 0x0201), (''EXN_HW_KRIA_KV260'', 0x0202)]"

definition exn_sensor_id_t :: identifiers where
  "exn_sensor_id_t =
     [(''EXN_SENSOR_OBC_MCU_JUNCTION_TEMP'', 0x0101), (''EXN_SENSOR_OBC_VDDA_ESTIMATE'', 0x0102),
      (''EXN_SENSOR_OBC_VBAT'', 0x0103), (''EXN_SENSOR_PI5_SOC_TEMP'', 0x1101),
      (''EXN_SENSOR_PI5_EXT5V'', 0x1102), (''EXN_SENSOR_PI5_CORE_VOLTAGE'', 0x1103),
      (''EXN_SENSOR_K26_JUNCTION_TEMP'', 0x2101), (''EXN_SENSOR_K26_PS_0V85'', 0x2110),
      (''EXN_SENSOR_K26_PS_1V80'', 0x2111), (''EXN_SENSOR_K26_PL_0V72'', 0x2120),
      (''EXN_SENSOR_K26_PL_1V80'', 0x2121), (''EXN_SENSOR_K26_PL_0V85'', 0x2122),
      (''EXN_SENSOR_KV260_SOM_5V_VOLTAGE'', 0x2180),
      (''EXN_SENSOR_KV260_SOM_5V_CURRENT'', 0x2181), (''EXN_SENSOR_KV260_SOM_5V_POWER'', 0x2182)]"

definition exn_sensor_status_t :: identifiers where
  "exn_sensor_status_t =
     [(''EXN_SENSOR_VALID'', 0), (''EXN_SENSOR_UNAVAILABLE'', 1), (''EXN_SENSOR_STALE'', 2),
      (''EXN_SENSOR_FAULT'', 3)]"

definition exn_sensor_alarm_t :: identifiers where
  "exn_sensor_alarm_t =
     [(''EXN_ALARM_NORMAL'', 0), (''EXN_ALARM_WARN_LOW'', 1), (''EXN_ALARM_WARN_HIGH'', 2),
      (''EXN_ALARM_CRIT_LOW'', 3), (''EXN_ALARM_CRIT_HIGH'', 4)]"

definition exn_endpoint_state_t :: identifiers where
  "exn_endpoint_state_t =
     [(''EXN_STATE_UNKNOWN'', 0), (''EXN_STATE_STARTING'', 1), (''EXN_STATE_READY'', 2),
      (''EXN_STATE_BUSY'', 3), (''EXN_STATE_DEGRADED'', 4), (''EXN_STATE_ERROR'', 5),
      (''EXN_STATE_UPDATING'', 6), (''EXN_STATE_OFFLINE'', 7)]"

definition exn_supervision_state_t :: identifiers where
  "exn_supervision_state_t =
     [(''EXN_SUPERVISION_UNKNOWN'', 0), (''EXN_SUPERVISION_OK'', 1),
      (''EXN_SUPERVISION_STALE'', 2), (''EXN_SUPERVISION_OFFLINE'', 3),
      (''EXN_SUPERVISION_ERROR'', 4)]"

definition exn_recovery_state_t :: identifiers where
  "exn_recovery_state_t =
     [(''EXN_RECOVERY_NONE'', 0), (''EXN_RECOVERY_PENDING'', 1),
      (''EXN_RECOVERY_ACTION_SENT'', 2), (''EXN_RECOVERY_WAITING_FOR_HEALTH'', 3),
      (''EXN_RECOVERY_RECOVERED'', 4), (''EXN_RECOVERY_FAILED'', 5),
      (''EXN_RECOVERY_SUPPRESSED'', 6)]"

definition exn_recovery_reason_t :: identifiers where
  "exn_recovery_reason_t =
     [(''EXN_RECOVERY_REASON_NONE'', 0), (''EXN_RECOVERY_REASON_HEARTBEAT_TIMEOUT'', 1),
      (''EXN_RECOVERY_REASON_HEALTH_TIMEOUT'', 2), (''EXN_RECOVERY_REASON_PROTOCOL_ERROR'', 3),
      (''EXN_RECOVERY_REASON_CRASH_LOOP'', 4), (''EXN_RECOVERY_REASON_THERMAL'', 5),
      (''EXN_RECOVERY_REASON_POWER_FAULT'', 6), (''EXN_RECOVERY_REASON_MANUAL'', 7)]"

definition exn_recovery_action_t :: identifiers where
  "exn_recovery_action_t =
     [(''EXN_RECOVERY_ACTION_NONE'', 0), (''EXN_RECOVERY_ACTION_REINITIALIZE'', 1),
      (''EXN_RECOVERY_ACTION_RESTART_SERVICE'', 2), (''EXN_RECOVERY_ACTION_SOFT_REBOOT'', 3),
      (''EXN_RECOVERY_ACTION_HARD_RESET'', 4), (''EXN_RECOVERY_ACTION_POWER_CYCLE'', 5)]"

definition exn_recovery_result_t :: identifiers where
  "exn_recovery_result_t =
     [(''EXN_RECOVERY_RESULT_NONE'', 0), (''EXN_RECOVERY_RESULT_SUCCESS'', 1),
      (''EXN_RECOVERY_RESULT_FAILED'', 2), (''EXN_RECOVERY_RESULT_SUPPRESSED'', 3)]"

definition exn_system_hk_status_t :: identifiers where
  "exn_system_hk_status_t =
     [(''EXN_SYSTEM_HK_OK'', 0), (''EXN_SYSTEM_HK_DEGRADED'', 1), (''EXN_SYSTEM_HK_ERROR'', 2)]"

definition exn_time_state_t :: identifiers where
  "exn_time_state_t =
     [(''EXN_TIME_UNSYNCED'', 0), (''EXN_TIME_SYNCED'', 1), (''EXN_TIME_HOLDOVER'', 2),
      (''EXN_TIME_INVALID'', 3)]"

definition exn_object_type_t :: identifiers where
  "exn_object_type_t =
     [(''EXN_OBJECT_CAPTURED_IMAGE'', 0x0001), (''EXN_OBJECT_DERIVED_IMAGE'', 0x0002),
      (''EXN_OBJECT_PROCESSING_MASK'', 0x0003), (''EXN_OBJECT_RESULT_BLOB'', 0x0004),
      (''EXN_OBJECT_THUMBNAIL'', 0x0005), (''EXN_OBJECT_UPDATE_PACKAGE'', 0x0010),
      (''EXN_OBJECT_DIAGNOSTIC_LOG'', 0x0020), (''EXN_OBJECT_OPAQUE'', 0x7FFF)]"

definition exn_object_format_t :: identifiers where
  "exn_object_format_t =
     [(''EXN_FORMAT_SENSOR_RAW'', 0x0001), (''EXN_FORMAT_DNG'', 0x0002),
      (''EXN_FORMAT_TIFF'', 0x0003), (''EXN_FORMAT_JPEG'', 0x0004), (''EXN_FORMAT_PNG'', 0x0005),
      (''EXN_FORMAT_BINARY'', 0x0006), (''EXN_FORMAT_CBOR'', 0x0007),
      (''EXN_FORMAT_JSON'', 0x0008)]"

section \<open>Macros\<close>

definition pus_ack_flags :: identifiers where
  "pus_ack_flags =
     [(''EXN_PUS_TC_ACK_ACCEPTANCE'', 0x8), (''EXN_PUS_TC_ACK_COMPLETION'', 0x1),
      (''EXN_PUS_TC_ACK_START'', 0x4), (''EXN_PUS_TC_ACK_PROGRESS'', 0x2),
      (''EXN_PUS_TC_ACK_READ_DEFAULT'', 0x8), (''EXN_PUS_TC_ACK_CHANGE_DEFAULT'', 0x9),
      (''EXN_PUS_TC_ACK_LONG_DEFAULT'', 0xD)]"

definition cam_scope_flags :: identifiers where
  "cam_scope_flags =
     [(''EXN_CAM_SCOPE_SENSOR_OUTPUT'', push_bit 0 1),
      (''EXN_CAM_SCOPE_EXPOSURE_GAIN'', push_bit 1 1), (''EXN_CAM_SCOPE_COLOR_WB'', push_bit 2 1),
      (''EXN_CAM_SCOPE_FOCUS'', push_bit 3 1), (''EXN_CAM_SCOPE_ISP_HDR'', push_bit 4 1),
      (''EXN_CAM_SCOPE_ENCODING'', push_bit 5 1), (''EXN_CAM_SCOPE_ALL'', 0xFFFF)]"

definition cam_config_limits :: identifiers where
  "cam_config_limits =
     [(''EXN_CAM_CONFIG_MAX_ENTRIES'', 64), (''EXN_CAM_CONFIG_MAX_VALUE_SIZE'', 32)]"

definition cam_config_flags :: identifiers where
  "cam_config_flags =
     [(''EXN_CAM_CONFIG_VALIDATE_ONLY'', push_bit 0 1),
      (''EXN_CAM_CONFIG_DEFER_UNTIL_IDLE'', push_bit 1 1),
      (''EXN_CAM_CONFIG_REQUIRE_EXACT'', push_bit 2 1)]"

definition cam_acq_flags :: identifiers where
  "cam_acq_flags =
     [(''EXN_CAM_ACQ_USE_CURRENT_FOCUS'', push_bit 0 1),
      (''EXN_CAM_ACQ_FAIL_IF_PRODUCT_UNAVAILABLE'', push_bit 1 1),
      (''EXN_CAM_ACQ_KEEP_PARTIAL_PRODUCTS'', push_bit 2 1)]"

definition cam_parameters :: identifiers where
  "cam_parameters =
     [(''EXN_CAM_PARAM_STORAGE_RETENTION_COUNT'', 0x1001),
      (''EXN_CAM_PARAM_STORAGE_MINIMUM_FREE_BYTES'', 0x1002),
      (''EXN_CAM_PARAM_CATALOG_MAX_ENTRIES_PER_REPORT'', 0x1003)]"

definition pi_health_flags :: identifiers where
  "pi_health_flags =
     [(''EXN_PI_HEALTH_UNDERVOLTAGE_NOW'', push_bit 0 1),
      (''EXN_PI_HEALTH_FREQ_CAPPED_NOW'', push_bit 1 1),
      (''EXN_PI_HEALTH_THROTTLED_NOW'', push_bit 2 1),
      (''EXN_PI_HEALTH_SOFT_TEMP_LIMIT_NOW'', push_bit 3 1),
      (''EXN_PI_HEALTH_UNDERVOLTAGE_OCCURRED'', push_bit 16 1),
      (''EXN_PI_HEALTH_FREQ_CAPPED_OCCURRED'', push_bit 17 1),
      (''EXN_PI_HEALTH_THROTTLED_OCCURRED'', push_bit 18 1),
      (''EXN_PI_HEALTH_SOFT_TEMP_OCCURRED'', push_bit 19 1)]"

definition recovery_flag_bits :: identifiers where
  "recovery_flag_bits =
     [(''EXN_RECOVERY_FLAG_AUTO_ENABLED'', push_bit 0 1),
      (''EXN_RECOVERY_FLAG_COOLDOWN_ACTIVE'', push_bit 1 1),
      (''EXN_RECOVERY_FLAG_RETRY_LIMIT_REACHED'', push_bit 2 1),
      (''EXN_RECOVERY_FLAG_HARD_RESET_AVAILABLE'', push_bit 3 1),
      (''EXN_RECOVERY_FLAG_POWER_CYCLE_AVAILABLE'', push_bit 4 1)]"

lemmas identifier_tables =
  exn_apid_t_def
  exn_pus_id_t_def
  exn_service_t_def
  exn_subservice_t_def
  exn_function_id_t_def
  exn_value_type_t_def
  exn_camera_config_status_t_def
  exn_camera_control_id_t_def
  exn_route_target_t_def
  exn_hk_structure_t_def
  exn_hardware_profile_t_def
  exn_sensor_id_t_def
  exn_sensor_status_t_def
  exn_sensor_alarm_t_def
  exn_endpoint_state_t_def
  exn_supervision_state_t_def
  exn_recovery_state_t_def
  exn_recovery_reason_t_def
  exn_recovery_action_t_def
  exn_recovery_result_t_def
  exn_system_hk_status_t_def
  exn_time_state_t_def
  exn_object_type_t_def
  exn_object_format_t_def
  pus_ack_flags_def
  cam_scope_flags_def
  cam_config_limits_def
  cam_config_flags_def
  cam_acq_flags_def
  cam_parameters_def
  pi_health_flags_def
  recovery_flag_bits_def

section \<open>What makes them usable\<close>

definition unambiguous :: "identifiers \<Rightarrow> bool" where
  "unambiguous t \<longleftrightarrow> distinct (map snd t)"

definition fits :: "nat \<Rightarrow> identifiers \<Rightarrow> bool" where
  "fits bits t \<longleftrightarrow> list_all (\<lambda>(n, v). v < 2 ^ bits) t"

definition single_bit :: "nat \<Rightarrow> bool" where
  "single_bit v \<longleftrightarrow> v \<noteq> 0 \<and> v AND (v - 1) = 0"

definition value_of :: "identifiers \<Rightarrow> string \<Rightarrow> nat option" where
  "value_of t n = map_of t n"

text \<open>The subservices of a service, by the prefixes of their names.\<close>

definition service_prefixes :: "(string \<times> string list) list" where
  "service_prefixes =
     [(''SVC_VERIFY'', [''SUB_VERIFY_'']), (''SVC_HK'', [''SUB_HK_'', ''SUB_SYS_HK_'']),
      (''SVC_EVENTS'', [''SUB_EVENT_'']), (''SVC_FUNCTION'', [''SUB_FUNCTION_'']),
      (''SVC_TIME'', [''SUB_TIME_'']), (''SVC_MONITOR'', [''SUB_MONITOR_'']),
      (''SVC_PARAM'', [''SUB_PARAM_'']), (''SVC_CAMERA'', [''SUB_CAM_'']),
      (''SVC_PROCESS'', [''SUB_PROCESS_'']), (''SVC_OBJECT'', [''SUB_OBJECT_'']),
      (''SVC_SOFTWARE'', [''SUB_SW_''])]"

definition subservices :: "string list \<Rightarrow> identifiers" where
  "subservices ps = filter (\<lambda>(n, v). list_ex (starts_with n) ps) exn_subservice_t"

lemmas identifier_facts =
  identifier_tables unambiguous_def fits_def single_bit_def value_of_def service_prefixes_def subservices_def
  starts_with_def mission_ids

lemma enumerations_unambiguous:
  "list_all unambiguous [exn_apid_t, exn_pus_id_t, exn_service_t, exn_function_id_t, exn_value_type_t]"
  "list_all unambiguous [exn_camera_config_status_t, exn_camera_control_id_t, exn_route_target_t,
     exn_hk_structure_t, exn_hardware_profile_t]"
  "list_all unambiguous [exn_sensor_id_t, exn_sensor_status_t, exn_sensor_alarm_t, exn_endpoint_state_t,
     exn_supervision_state_t]"
  "list_all unambiguous [exn_recovery_state_t, exn_recovery_reason_t, exn_recovery_action_t,
     exn_recovery_result_t, exn_system_hk_status_t]"
  "list_all unambiguous [exn_time_state_t, exn_object_type_t, exn_object_format_t]"
  by (simp_all add: identifier_facts)

text \<open>Within its service a subservice means one thing, and every subservice belongs to one service.\<close>

lemma subservices_partitioned:
  "map fst service_prefixes = map fst exn_service_t"
  "list_all (\<lambda>(s, ps). unambiguous (subservices ps)) service_prefixes"
  "concat (map (\<lambda>(s, ps). subservices ps) service_prefixes) = exn_subservice_t"
  by (simp_all add: identifier_facts)

text \<open>The fields that carry them: 11 bits for an APID, 4 for the acknowledgement flags, an octet for
  services, subservices, states and statuses, two octets for the rest.\<close>

lemma identifiers_fit:
  "fits 11 exn_apid_t" "fits 4 pus_ack_flags"
  "list_all (fits 8) [exn_service_t, exn_subservice_t, exn_value_type_t, exn_camera_config_status_t,
     exn_route_target_t, exn_sensor_status_t, exn_sensor_alarm_t, exn_endpoint_state_t,
     exn_supervision_state_t, exn_recovery_state_t, exn_recovery_reason_t, exn_recovery_action_t,
     exn_recovery_result_t, exn_system_hk_status_t, exn_time_state_t, recovery_flag_bits]"
  "list_all (fits 16) [exn_pus_id_t, exn_function_id_t, exn_camera_control_id_t, exn_hk_structure_t,
     exn_hardware_profile_t, exn_sensor_id_t, exn_object_type_t, exn_object_format_t, cam_scope_flags,
     cam_config_flags, cam_acq_flags, cam_parameters, cam_config_limits]"
  "fits 32 pi_health_flags"
  by (simp_all add: identifier_facts)

lemma flags_are_bits:
  "list_all (\<lambda>t. unambiguous t \<and> list_all (\<lambda>(n, v). single_bit v) t)
     [butlast cam_scope_flags, cam_config_flags, cam_acq_flags, pi_health_flags, recovery_flag_bits,
      take 4 pus_ack_flags]"
  by (simp add: identifier_facts)

text \<open>The default acknowledgements are made of the flags.\<close>

lemma ack_defaults:
  "value_of pus_ack_flags ''EXN_PUS_TC_ACK_READ_DEFAULT'' = value_of pus_ack_flags ''EXN_PUS_TC_ACK_ACCEPTANCE''"
  "value_of pus_ack_flags ''EXN_PUS_TC_ACK_CHANGE_DEFAULT'' = Some (8 OR 1)"
  "value_of pus_ack_flags ''EXN_PUS_TC_ACK_LONG_DEFAULT'' = Some (8 OR 4 OR 1)"
  by (simp_all add: identifier_facts)

text \<open>The identifiers the programs use are the header's.\<close>

lemma used_identifiers:
  "value_of exn_apid_t ''APID_OBC'' = Some (unat APID_OBC)"
  "value_of exn_pus_id_t ''PUSID_GS'' = Some (unat PUSID_GS)"
  "map (value_of exn_service_t) [''SVC_VERIFY'', ''SVC_HK''] = map (Some \<circ> unat) [SVC_VERIFY, SVC_HK]"
  "map (value_of exn_subservice_t) [''SUB_VERIFY_ACCEPT_OK'', ''SUB_VERIFY_ACCEPT_FAIL'', ''SUB_VERIFY_START_OK'',
       ''SUB_VERIFY_COMPLETE_OK'', ''SUB_HK_REPORT'', ''SUB_HK_REQUEST'', ''SUB_SYS_HK_REQUEST'', ''SUB_SYS_HK_REPORT'']
     = map (Some \<circ> unat) [SUB_VERIFY_ACCEPT_OK, SUB_VERIFY_ACCEPT_FAIL, SUB_VERIFY_START_OK,
         SUB_VERIFY_COMPLETE_OK, SUB_HK_REPORT, SUB_HK_REQUEST, SUB_SYS_HK_REQUEST, SUB_SYS_HK_REPORT]"
  by (simp_all add: identifier_facts)

section \<open>The structures of the other services\<close>

text \<open>Declarations only: nothing under \<open>src\<close> writes or reads these structures.\<close>

record exn_route_envelope =
  transaction_id_be :: u16
  route_target :: byte
  route_options :: byte

record exn_sensors_report_prefix =
  hardware_profile_id_be :: u16
  sensor_count_be :: u16

record exn_set_mission_time =
  unix_ms_be :: u64
  time_source :: byte
  uncertainty_ms_be :: u16
  time_sequence_be :: u16

record exn_camera_start =
  acquisition_id_be :: u32
  acquisition_mode :: byte
  frame_count_be :: u16
  interval_ms_be :: u32
  duration_ms_be :: u32
  product_mask_be :: u16
  start_flags_be :: u16

record exn_camera_set_configuration_prefix =
  set_flags_be :: u16
  set_count_be :: u16

record exn_camera_configuration_entry_prefix =
  control_id_be :: u16
  value_type :: byte
  value_length_be :: u16

record exn_camera_get_configuration =
  wanted_scope_mask_be :: u16

record exn_camera_configuration_report_prefix =
  configuration_revision_be :: u32
  reported_scope_mask_be :: u16
  reported_count_be :: u16

record exn_camera_configuration_report_entry_prefix =
  reported_control_id_be :: u16
  control_status :: byte
  reported_value_type :: byte
  reported_value_length_be :: u16

record exn_object_transfer_start =
  transfer_id_be :: u32
  object_id_be :: u64
  destination_apid_be :: u16
  chunk_size_be :: u16
  transfer_flags_be :: u16

record exn_object_chunk_prefix =
  chunk_transfer_id_be :: u32
  chunk_object_id_be :: u64
  offset_be :: u64
  data_length_be :: u16

record exn_processing_job_prefix =
  job_id_be :: u32
  operation_id_be :: u16
  input_object_id_be :: u64
  parameter_set_id_be :: u16
  destination_count :: byte

end
