(* ===== verification/Simulator.thy ===== *)
theory Simulator
  imports GS_Prelude Protocol Framer Space_Packet Ring_Queue Mission
begin

text \<open>
  The on-board computer simulator: \<open>sim/src/main.cpp\<close>. Report builders, the telecommand
  dispatcher, and the program as a state machine of its three threads: the I/O thread
  (accept, read, write handlers), the dispatch task and the transmit task, joined by two
  bounded queues. The clock is a function of the number of packets parsed or built, the
  CCSDSPack library a parameter. Console output and \<open>main\<close> are in
  \<open>Sim_Main\<close>.
\<close>

section \<open>Reports\<close>

record tc_message =
  tc_meta :: packet_meta
  tc_pus :: tc_info
  tc_application :: bytes

text \<open>\<open>PusCTcInfo{}\<close>; \<open>request_id\<close> is an array of four octets.\<close>

definition empty_tc_info :: tc_info where
  "empty_tc_info = \<lparr>source_id = 0, acknowledgement_flags = 0, request_id = [0, 0, 0, 0]\<rparr>"

definition copy_at :: "nat \<Rightarrow> bytes \<Rightarrow> bytes \<Rightarrow> bytes cpp" where
  "copy_at p vs b = (if p + length vs \<le> length b then Done (overwrite p vs b) else UB)"

definition build_tm ::
    "'p ccsdspack \<Rightarrow> u64 \<Rightarrow> u16 \<Rightarrow> u16 \<Rightarrow> byte \<Rightarrow> byte \<Rightarrow> u16 \<Rightarrow> bytes \<Rightarrow> bytes" where
  "build_tm L now ap sq sv sb dest data =
     (case build_pus_c_tm L now ap sq sv sb sq dest EXN_TIME_UNSYNCED data of
        (ok, packet, e) \<Rightarrow> if \<not> ok then [] else packet)"

definition make_hk_report :: "bytes cpp" where
  "make_hk_report = in_order
     [exn_be_put_u16 0 EXN_HK_HEARTBEAT,
      poke 10 EXN_STATE_READY,
      poke 11 EXN_TIME_UNSYNCED] (replicate 32 0)"

definition make_verification_success :: "tc_message \<Rightarrow> bytes" where
  "make_verification_success tc = request_id (tc_pus tc)"

definition make_verification_failure :: "tc_message \<Rightarrow> u16 \<Rightarrow> bytes cpp" where
  "make_verification_failure tc failure_code = in_order
     [copy_at 0 (request_id (tc_pus tc)),
      exn_be_put_u16 4 failure_code,
      exn_be_put_u16 6 0] (replicate 8 0)"

definition supported_request :: "tc_message \<Rightarrow> bool" where
  "supported_request tc \<longleftrightarrow> svc (tc_meta tc) = SVC_HK
     \<and> (ssvc (tc_meta tc) = SUB_HK_REQUEST \<or> ssvc (tc_meta tc) = SUB_SYS_HK_REQUEST)"

definition make_system_hk_report :: "tc_message \<Rightarrow> bytes cpp" where
  "make_system_hk_report tc =
     bind_cpp make_hk_report (\<lambda>obc_hk.
     bind_cpp (in_order
       [copy_at 0 (request_id (tc_pus tc)),
        poke 12 EXN_SYSTEM_HK_OK,
        poke 13 1] (replicate 14 0)) (\<lambda>app.
     let e = length app; app = app @ replicate endpoint_prefix_size 0 in
     bind_cpp (in_order
       [exn_be_put_u16 e APID_OBC,
        poke (e + 2) EXN_SUPERVISION_OK,
        poke (e + 3) EXN_STATE_READY,
        poke (e + 4) EXN_RECOVERY_NONE,
        poke (e + 5) EXN_RECOVERY_REASON_NONE,
        poke (e + 6) EXN_RECOVERY_ACTION_NONE,
        poke (e + 7) 0,
        exn_be_put_u16 (e + 8) 0,
        exn_be_put_u16 (e + 10) 0,
        poke (e + 12) EXN_RECOVERY_RESULT_NONE,
        exn_be_put_u32 (e + 13) 0,
        exn_be_put_u32 (e + 17) 0xFFFFFFFF,
        exn_be_put_u64 (e + 21) 0,
        poke (e + 29) 1] app) (\<lambda>app.
     let s = length app; app = app @ replicate (structure_prefix_size + length obc_hk) 0 in
     in_order
       [exn_be_put_u16 s EXN_HK_HEARTBEAT,
        exn_be_put_u32 (s + 2) 0,
        exn_be_put_u16 (s + 6) (of_nat (length obc_hk)),
        copy_at (s + structure_prefix_size) obc_hk] app)))"

section \<open>The dispatch task\<close>

text \<open>The sequence counter, the packets built and the telemetry pushed to \<open>g_tm_q\<close>.\<close>

record dispatcher =
  tm_seq :: u16
  builds :: nat
  tm_out :: "bytes list"

definition new_dispatcher :: dispatcher where
  "new_dispatcher = \<lparr>tm_seq = 100, builds = 0, tm_out = []\<rparr>"

text \<open>\<open>build_tm(APID_OBC, tm_seq++, ...)\<close>, pushed unless the build failed.\<close>

definition send_tm ::
    "'p ccsdspack \<Rightarrow> (nat \<Rightarrow> u64) \<Rightarrow> byte \<Rightarrow> byte \<Rightarrow> u16 \<Rightarrow> bytes \<Rightarrow> dispatcher \<Rightarrow> dispatcher" where
  "send_tm L clk sv sb dest data s =
     (let p = build_tm L (clk (builds s)) APID_OBC (tm_seq s) sv sb dest data;
          s = s\<lparr>tm_seq := tm_seq s + 1, builds := Suc (builds s)\<rparr>
      in if p \<noteq> [] then s\<lparr>tm_out := tm_out s @ [p]\<rparr> else s)"

definition wrap_seq :: "dispatcher \<Rightarrow> dispatcher" where
  "wrap_seq s = s\<lparr>tm_seq := tm_seq s AND 0x3FFF\<rparr>"

text \<open>One iteration of the endless loop, on the message popped.\<close>

definition dispatch ::
    "'p ccsdspack \<Rightarrow> (nat \<Rightarrow> u64) \<Rightarrow> tc_message \<Rightarrow> dispatcher \<Rightarrow> dispatcher cpp" where
  "dispatch L clk tc s =
     (let supported = supported_request tc;
          ack = acknowledgement_flags (tc_pus tc);
          src = source_id (tc_pus tc);
          success = make_verification_success tc
      in
      bind_cpp (if ack AND EXN_PUS_TC_ACK_ACCEPTANCE \<noteq> 0
        then map_cpp (\<lambda>payload. send_tm L clk SVC_VERIFY
               (if supported then SUB_VERIFY_ACCEPT_OK else SUB_VERIFY_ACCEPT_FAIL) src payload s)
             (if supported then Done success else make_verification_failure tc 1)
        else Done s) (\<lambda>s.
      if \<not> supported then Done (wrap_seq s)
      else let s = (if ack AND EXN_PUS_TC_ACK_START \<noteq> 0
                    then send_tm L clk SVC_VERIFY SUB_VERIFY_START_OK src success s else s) in
      bind_cpp (if svc (tc_meta tc) = SVC_HK \<and> ssvc (tc_meta tc) = SUB_HK_REQUEST
        then map_cpp (\<lambda>d. send_tm L clk SVC_HK SUB_HK_REPORT src d s) make_hk_report
        else if svc (tc_meta tc) = SVC_HK \<and> ssvc (tc_meta tc) = SUB_SYS_HK_REQUEST
        then map_cpp (\<lambda>d. send_tm L clk SVC_HK SUB_SYS_HK_REPORT src d s) (make_system_hk_report tc)
        else Done s) (\<lambda>s.
      let s = (if ack AND EXN_PUS_TC_ACK_COMPLETION \<noteq> 0
               then send_tm L clk SVC_VERIFY SUB_VERIFY_COMPLETE_OK src success s else s)
      in Done (wrap_seq s))))"

section \<open>What the reports are\<close>

definition hk_octets :: bytes where
  "hk_octets = [0, 1] @ replicate 8 0 @ [2] @ replicate 21 0"

definition system_hk_octets :: "bytes \<Rightarrow> bytes" where
  "system_hk_octets rid = rid @ replicate 8 0 @ [0, 1]
     @ [1, 0, 1, 2, 0, 0, 0, 0, 0, 0, 0, 0, 0] @ [0, 0, 0, 0] @ [255, 255, 255, 255]
     @ replicate 8 0 @ [1]
     @ [0, 1, 0, 0, 0, 0, 0, 32] @ hk_octets"

lemma make_hk_report_eq: "make_hk_report = Done hk_octets"
  by (simp add: make_hk_report_def in_order_Cons in_order_Nil put_u16_eq overwrite_def
      append_u16_def poke_def mission_ids hk_octets_def numeral_eq_Suc)

lemma make_failure_eq:
  assumes "length (request_id (tc_pus tc)) = 4"
  shows "make_verification_failure tc c
    = Done (request_id (tc_pus tc) @ append_u16 [] c @ [0, 0])"
proof -
  obtain a b c' d where "request_id (tc_pus tc) = [a, b, c', d]"
    using assms by (auto simp: numeral_eq_Suc length_Suc_conv)
  then show ?thesis
    by (simp add: make_verification_failure_def in_order_Cons in_order_Nil put_u16_eq overwrite_def
        append_u16_def copy_at_def numeral_eq_Suc)
qed

text \<open>Evaluation of stores into a list of known length.\<close>

lemma eval_lists:
  "(x # xs)[numeral k := v] = x # xs[pred_numeral k := v]"
  "replicate (numeral k) x = x # replicate (pred_numeral k) x"
  by (simp_all add: numeral_eq_Suc)

lemma store_runs:
  "append_u16 [] 0x100 = [1, 0]" "append_u16 [] 1 = [0, 1]" "append_u16 [] 0 = [0, 0]"
  "append_u16 [] 32 = [0, 32]"
  "append_u32 [] 0 = [0, 0, 0, 0]" "append_u32 [] 0xFFFFFFFF = [255, 255, 255, 255]"
  "append_u64 [] 0 = [0, 0, 0, 0, 0, 0, 0, 0]"
  by (simp_all add: append_u16_def append_u32_def append_u64_def)

lemma endpoint_octets:
  "in_order
     [exn_be_put_u16 14 APID_OBC, poke (14 + 2) EXN_SUPERVISION_OK, poke (14 + 3) EXN_STATE_READY,
      poke (14 + 4) EXN_RECOVERY_NONE, poke (14 + 5) EXN_RECOVERY_REASON_NONE,
      poke (14 + 6) EXN_RECOVERY_ACTION_NONE, poke (14 + 7) 0,
      exn_be_put_u16 (14 + 8) 0, exn_be_put_u16 (14 + 10) 0,
      poke (14 + 12) EXN_RECOVERY_RESULT_NONE,
      exn_be_put_u32 (14 + 13) 0, exn_be_put_u32 (14 + 17) 0xFFFFFFFF, exn_be_put_u64 (14 + 21) 0,
      poke (14 + 29) 1]
     ([a, b, c, d, 0, 0, 0, 0, 0, 0, 0, 0, 0, 1] @ replicate 30 0)
   = Done ([a, b, c, d, 0, 0, 0, 0, 0, 0, 0, 0, 0, 1]
     @ [1, 0, 1, 2, 0, 0, 0, 0, 0, 0, 0, 0, 0] @ [0, 0, 0, 0] @ [255, 255, 255, 255]
     @ replicate 8 0 @ [1])"
  by (simp add: in_order_Cons in_order_Nil put_u16_eq put_u32_eq put_u64_eq
      poke_def mission_ids store_runs overwrite_Cons eval_lists)

lemma structure_octets:
  assumes "length b = 44"
  shows "in_order
     [exn_be_put_u16 44 EXN_HK_HEARTBEAT, exn_be_put_u32 (44 + 2) 0,
      exn_be_put_u16 (44 + 6) (of_nat (length hk_octets)),
      copy_at (44 + structure_prefix_size) hk_octets]
     (b @ replicate (structure_prefix_size + length hk_octets) 0)
   = Done (b @ [0, 1, 0, 0, 0, 0, 0, 32] @ hk_octets)"
  using assms
  by (simp add: in_order_Cons in_order_Nil put_u16_eq put_u32_eq mission_ids store_runs
      hk_octets_def structure_prefix_size_def copy_at_def overwrite_def eval_lists)

lemma make_system_hk_report_eq:
  assumes "length (request_id (tc_pus tc)) = 4"
  shows "make_system_hk_report tc = Done (system_hk_octets (request_id (tc_pus tc)))"
proof -
  obtain a b c d where r: "request_id (tc_pus tc) = [a, b, c, d]"
    using assms by (auto simp: numeral_eq_Suc length_Suc_conv)
  have 1: "in_order [copy_at 0 [a, b, c, d], poke 12 EXN_SYSTEM_HK_OK, poke 13 1] (replicate 14 0)
      = Done [a, b, c, d, 0, 0, 0, 0, 0, 0, 0, 0, 0, 1]"
    by (simp add: in_order_Cons in_order_Nil copy_at_def overwrite_Cons poke_def mission_ids eval_lists)
  have len: "length ([a, b, c, d, 0, 0, 0, 0, 0, 0, 0, 0, 0, 1] @ [1, 0, 1, 2, 0, 0, 0, 0, 0, 0, 0, 0, 0]
     @ [0, 0, 0, 0] @ [255, 255, 255, 255] @ replicate 8 0 @ [1 :: byte]) = 44"
    by simp
  have 14: "length [a, b, c, d, 0, 0, 0, 0, 0, 0, 0, 0, 0, 1] = 14" by simp
  show ?thesis
    unfolding make_system_hk_report_def make_hk_report_eq r bind_cpp.simps 1 Let_def 14
      endpoint_prefix_size_def endpoint_octets len structure_octets [OF len] system_hk_octets_def
    by (simp add: eval_lists)
qed

section \<open>What the dispatcher answers\<close>

text \<open>
  The specification: the reports a telecommand is answered with, as service, subservice and
  application data. The verification reports asked for by its acknowledgement flags frame
  the housekeeping report; an unsupported telecommand is answered by at most one failure.
\<close>

definition hk_answer :: "tc_message \<Rightarrow> byte \<times> byte \<times> bytes" where
  "hk_answer tc = (if ssvc (tc_meta tc) = SUB_HK_REQUEST then (SVC_HK, SUB_HK_REPORT, hk_octets)
     else (SVC_HK, SUB_SYS_HK_REPORT, system_hk_octets (request_id (tc_pus tc))))"

definition replies :: "tc_message \<Rightarrow> (byte \<times> byte \<times> bytes) list" where
  "replies tc =
     (let ack = acknowledgement_flags (tc_pus tc); rid = request_id (tc_pus tc) in
      if supported_request tc then
        (if bit ack 3 then [(SVC_VERIFY, SUB_VERIFY_ACCEPT_OK, rid)] else [])
        @ (if bit ack 2 then [(SVC_VERIFY, SUB_VERIFY_START_OK, rid)] else [])
        @ [hk_answer tc]
        @ (if bit ack 0 then [(SVC_VERIFY, SUB_VERIFY_COMPLETE_OK, rid)] else [])
      else
        (if bit ack 3 then [(SVC_VERIFY, SUB_VERIFY_ACCEPT_FAIL, rid @ [0, 1, 0, 0])] else []))"

text \<open>The packets of a list of reports, numbered from the dispatcher's counter.\<close>

fun numbered :: "'p ccsdspack \<Rightarrow> (nat \<Rightarrow> u64) \<Rightarrow> u16 \<Rightarrow> nat \<Rightarrow> u16 \<Rightarrow> (byte \<times> byte \<times> bytes) list \<Rightarrow> bytes list" where
  "numbered L clk sq n dest [] = []"
| "numbered L clk sq n dest ((sv, sb, d) # rs) =
     build_tm L (clk n) APID_OBC sq sv sb dest d # numbered L clk (sq + 1) (Suc n) dest rs"

fun send_all :: "'p ccsdspack \<Rightarrow> (nat \<Rightarrow> u64) \<Rightarrow> u16 \<Rightarrow> (byte \<times> byte \<times> bytes) list \<Rightarrow> dispatcher \<Rightarrow> dispatcher" where
  "send_all L clk dest [] s = s"
| "send_all L clk dest ((sv, sb, d) # rs) s = send_all L clk dest rs (send_tm L clk sv sb dest d s)"

lemma send_all_numbered:
  "tm_out (send_all L clk dest rs s)
     = tm_out s @ filter (\<lambda>p. p \<noteq> []) (numbered L clk (tm_seq s) (builds s) dest rs)
   \<and> tm_seq (send_all L clk dest rs s) = tm_seq s + of_nat (length rs)
   \<and> builds (send_all L clk dest rs s) = builds s + length rs"
proof (induction rs arbitrary: s)
  case Nil
  then show ?case by simp
next
  case (Cons r rs)
  then show ?case by (cases r) (simp add: send_tm_def Let_def add.assoc)
qed

lemma ack_bits:
  "(a AND EXN_PUS_TC_ACK_ACCEPTANCE \<noteq> 0) = bit a 3"
  "(a AND EXN_PUS_TC_ACK_START \<noteq> 0) = bit a 2"
  "(a AND EXN_PUS_TC_ACK_COMPLETION \<noteq> 0) = bit a 0"
proof -
  have p: "(8 :: byte) = push_bit 3 1" "(4 :: byte) = push_bit 2 1" "(1 :: byte) = push_bit 0 1"
    by simp_all
  show "(a AND EXN_PUS_TC_ACK_ACCEPTANCE \<noteq> 0) = bit a 3"
    "(a AND EXN_PUS_TC_ACK_START \<noteq> 0) = bit a 2"
    unfolding mission_ids p(1,2) by (simp_all only: bit_iff_and_push_bit_not_eq_0)
  show "(a AND EXN_PUS_TC_ACK_COMPLETION \<noteq> 0) = bit a 0"
    unfolding mission_ids by (simp add: bit_iff_and_push_bit_not_eq_0)
qed

lemma dispatch_send_all:
  assumes "length (request_id (tc_pus tc)) = 4"
  shows "dispatch L clk tc s
    = Done (wrap_seq (send_all L clk (source_id (tc_pus tc)) (replies tc) s))"
proof (cases "supported_request tc")
  case True
  then show ?thesis
    using make_hk_report_eq make_system_hk_report_eq [OF assms]
    by (auto simp: dispatch_def Let_def replies_def ack_bits make_verification_success_def
        supported_request_def hk_answer_def)
next
  case False
  then show ?thesis
    using make_failure_eq [OF assms, of 1]
    by (simp add: dispatch_def Let_def replies_def ack_bits store_runs)
qed

section \<open>Telecommands from the socket\<close>

text \<open>The framer's callback in \<open>start_session\<close>, up to \<open>push_blocking\<close>.\<close>

definition parse_command :: "'p ccsdspack \<Rightarrow> u64 \<Rightarrow> bytes \<Rightarrow> tc_message option" where
  "parse_command L now bs =
     (case parse_pus_c_tc L now bs empty_tc_info of (ok, m, d, e, info) \<Rightarrow>
        if \<not> ok then None
        else if apid m \<noteq> APID_OBC then None
        else Some \<lparr>tc_meta = m, tc_pus = info, tc_application = d\<rparr>)"

lemma parse_command_Some:
  assumes "parse_command L now bs = Some tc"
  shows "apid (tc_meta tc) = APID_OBC" and "length (request_id (tc_pus tc)) = 4"
  using assms
  by (auto simp: parse_command_def parse_pus_c_tc_def Let_def split: prod.splits if_splits
      sum.splits option.splits)

text \<open>The packets of one delivery, the clock read at each.\<close>

fun parse_commands :: "'p ccsdspack \<Rightarrow> (nat \<Rightarrow> u64) \<Rightarrow> nat \<Rightarrow> bytes list \<Rightarrow> tc_message list" where
  "parse_commands L clk n [] = []"
| "parse_commands L clk n (p # ps) =
     (case parse_command L (clk n) p of
        None \<Rightarrow> parse_commands L clk (Suc n) ps
      | Some tc \<Rightarrow> tc # parse_commands L clk (Suc n) ps)"

definition proper_tc :: "tc_message \<Rightarrow> bool" where
  "proper_tc tc \<longleftrightarrow> apid (tc_meta tc) = APID_OBC \<and> length (request_id (tc_pus tc)) = 4"

lemma parse_commands_proper: "\<forall>tc \<in> set (parse_commands L clk n ps). proper_tc tc"
  by (induction ps arbitrary: n)
    (auto simp: proper_tc_def dest: parse_command_Some split: option.splits)

section \<open>The three threads\<close>

record 'p sim_env =
  sim_lib :: "'p ccsdspack"
  rx_clock :: "nat \<Rightarrow> u64"
  tx_clock :: "nat \<Rightarrow> u64"

text \<open>
  \<open>handling\<close>: the telecommands of the delivery being handled that are not queued yet (the
  I/O thread blocks in \<open>push_blocking\<close>). \<open>tm_out\<close> of the dispatcher: telemetry of the current
  telecommand not queued yet. \<open>tx_handlers\<close>: handlers given to \<open>g_io->post\<close>. \<open>in_flight\<close>: of each
  \<open>async_write\<close> under way on the socket, what it has not written yet; several run at once, for
  \<open>tm_tx_task\<close> waits for none. \<open>aborted\<close>: writes of a socket that is gone, whose handlers are still to
  run. \<open>accepted\<close> and \<open>dispatched\<close> record the history.
\<close>

record sim =
  listening :: bool
  sim_connected :: bool
  sim_framer :: framer
  parses :: nat
  handling :: "tc_message list"
  tc_q :: "tc_message ring_queue"
  disp :: dispatcher
  tm_q :: "bytes ring_queue"
  tx_handlers :: "bytes list"
  in_flight :: "bytes list"
  aborted :: nat
  accepted :: "tc_message list"
  dispatched :: "tc_message list"

definition empty_tc_message :: tc_message where
  "empty_tc_message = \<lparr>tc_meta = empty_meta, tc_pus = empty_tc_info, tc_application = []\<rparr>"

text \<open>The old socket goes when \<open>g_sock\<close> gets a new one; what was being written to it is cancelled.\<close>

definition start_session :: "sim \<Rightarrow> sim" where
  "start_session s = s\<lparr>sim_framer := set_on_packet new_framer, listening := True, in_flight := [],
     aborted := aborted s + length (in_flight s)\<rparr>"

definition sim_start :: sim where
  "sim_start = start_session \<lparr>listening = False, sim_connected = False, sim_framer = new_framer,
     parses = 0, handling = [], tc_q = new_ring 64 empty_tc_message, disp = new_dispatcher,
     tm_q = new_ring 64 [], tx_handlers = [], in_flight = [], aborted = 0, accepted = [], dispatched = []\<rparr>"

datatype sim_event =
    ConnectionAccepted "string option"
  | ReadCompleted "string + bytes"
  | QueueTc
  | DispatchTc
  | QueueTm
  | TakeTm
  | RunTx
  | TxWrote nat nat
  | TxFailed nat
  | TxAborted

text \<open>
  \<open>async_write\<close> is a sequence of \<open>async_write_some\<close>: the write at place \<open>k\<close> puts its next \<open>n\<close> octets on
  the socket, and completes when it has no more.
\<close>

definition wrote :: "nat \<Rightarrow> nat \<Rightarrow> bytes list \<Rightarrow> bytes list" where
  "wrote k n ws =
     (if drop n (ws ! k) = [] then take k ws @ drop (Suc k) ws else ws[k := drop n (ws ! k)])"

definition can_write :: "nat \<Rightarrow> nat \<Rightarrow> bytes list \<Rightarrow> bool" where
  "can_write k n ws \<longleftrightarrow> k < length ws \<and> n \<le> length (ws ! k) \<and> (n = 0 \<longrightarrow> ws ! k = [])"

text \<open>
  One step of one thread; \<open>None\<close> when it is waiting. The handlers of the I/O thread (the
  first two, \<open>RunTx\<close> and the last three) wait while a delivery is being handled. The handler of a
  completed write, in whatever way, does nothing.
\<close>

fun sim_step :: "'p sim_env \<Rightarrow> sim_event \<Rightarrow> sim \<Rightarrow> sim cpp option" where
  "sim_step E (ConnectionAccepted ec) s =
     (if \<not> listening s \<or> handling s \<noteq> [] then None
      else case ec of
        Some e \<Rightarrow> Some (Done (start_session s))
      | None \<Rightarrow> Some (Done (s\<lparr>listening := False, sim_connected := True\<rparr>)))"
| "sim_step E (ReadCompleted r) s =
     (if listening s \<or> handling s \<noteq> [] then None
      else case r of
        Inl e \<Rightarrow> Some (Done (start_session (s\<lparr>sim_connected := False\<rparr>)))
      | Inr bs \<Rightarrow>
          Some (map_cpp (\<lambda>(f, ps).
            let tcs = parse_commands (sim_lib E) (rx_clock E) (parses s) ps
            in s\<lparr>sim_framer := f, parses := parses s + length ps, handling := tcs,
                 accepted := accepted s @ tcs\<rparr>)
              (push_bytes (declared_packet_size (sim_lib E)) bs (sim_framer s))))"
| "sim_step E QueueTc s =
     (case handling s of [] \<Rightarrow> None
      | tc # tcs \<Rightarrow> map_option (\<lambda>q. Done (s\<lparr>tc_q := q, handling := tcs\<rparr>)) (try_push tc (tc_q s)))"
| "sim_step E DispatchTc s =
     (if tm_out (disp s) \<noteq> [] then None
      else map_option (\<lambda>(tc, q). map_cpp (\<lambda>d. s\<lparr>tc_q := q, disp := d,
               dispatched := dispatched s @ [tc]\<rparr>)
             (dispatch (sim_lib E) (tx_clock E) tc (disp s))) (try_pop (tc_q s)))"
| "sim_step E QueueTm s =
     (case tm_out (disp s) of [] \<Rightarrow> None
      | p # ps \<Rightarrow> map_option (\<lambda>q. Done (s\<lparr>tm_q := q, disp := (disp s)\<lparr>tm_out := ps\<rparr>\<rparr>))
          (try_push p (tm_q s)))"
| "sim_step E TakeTm s =
     map_option (\<lambda>(p, q). Done (if \<not> sim_connected s then s\<lparr>tm_q := q\<rparr>
         else s\<lparr>tm_q := q, tx_handlers := tx_handlers s @ [p]\<rparr>)) (try_pop (tm_q s))"
| "sim_step E RunTx s =
     (if handling s \<noteq> [] then None
      else case tx_handlers s of [] \<Rightarrow> None
      | p # ps \<Rightarrow> Some (Done (if \<not> sim_connected s then s\<lparr>tx_handlers := ps\<rparr>
          else s\<lparr>tx_handlers := ps, in_flight := in_flight s @ [p]\<rparr>)))"
| "sim_step E (TxWrote k n) s =
     (if handling s \<noteq> [] \<or> \<not> can_write k n (in_flight s) then None
      else Some (Done (s\<lparr>in_flight := wrote k n (in_flight s)\<rparr>)))"
| "sim_step E (TxFailed k) s =
     (if handling s \<noteq> [] \<or> length (in_flight s) \<le> k then None
      else Some (Done (s\<lparr>in_flight := take k (in_flight s) @ drop (Suc k) (in_flight s)\<rparr>)))"
| "sim_step E TxAborted s =
     (if handling s \<noteq> [] \<or> aborted s = 0 then None
      else Some (Done (s\<lparr>aborted := aborted s - 1\<rparr>)))"

inductive sim_reach :: "'p sim_env \<Rightarrow> sim \<Rightarrow> bool" for E where
  sim_starts: "sim_reach E sim_start"
| sim_steps: "sim_reach E s \<Longrightarrow> sim_step E e s = Some (Done t) \<Longrightarrow> sim_reach E t"

definition sim_inv :: "sim \<Rightarrow> bool" where
  "sim_inv s \<longleftrightarrow> ring_ok (tc_q s) \<and> slots (tc_q s) = 64 \<and> ring_ok (tm_q s) \<and> slots (tm_q s) = 64
     \<and> accepted s = dispatched s @ items (tc_q s) @ handling s
     \<and> (\<forall>tc \<in> set (accepted s). proper_tc tc) \<and> tm_seq (disp s) < 0x4000"

lemma try_push_Some:
  "ring_ok q \<Longrightarrow> try_push v q = Some r \<Longrightarrow> ring_ok r \<and> slots r = slots q \<and> items r = items q @ [v]"
  using ring.push_Some [of q v r] by (auto simp: try_push_def Let_def split: if_splits)

lemma try_pop_Some:
  "ring_ok q \<Longrightarrow> try_pop q = Some (x, r) \<Longrightarrow> ring_ok r \<and> slots r = slots q \<and> items q = x # items r"
  using ring.pop_Some [of q x r] by (auto simp: try_pop_def Let_def split: if_splits)

lemma sim_inv_start: "sim_inv sim_start"
  using new_ring_ok [of 64 empty_tc_message] new_ring_ok [of 64 "[] :: bytes"]
    items_new_ring [of 64 empty_tc_message]
  by (simp add: sim_inv_def sim_start_def start_session_def new_dispatcher_def) (simp add: new_ring_def)

lemma wrapped_small: "(w :: u16) AND 0x3FFF < 0x4000"
proof -
  have "w AND 0x3FFF = take_bit 14 w" by (simp add: take_bit_eq_mask mask_eq_exp_minus_1)
  moreover have "take_bit 14 n < 16384" for n :: nat using take_bit_nat_less_exp [of 14 n] by simp
  ultimately show ?thesis by (simp add: word_less_nat_alt unsigned_take_bit_eq)
qed

lemma dispatch_seq_small: "proper_tc tc \<Longrightarrow> dispatch L clk tc s = Done d \<Longrightarrow> tm_seq d < 0x4000"
  by (auto simp: proper_tc_def dispatch_send_all wrap_seq_def wrapped_small)

lemma sim_inv_step:
  assumes "sim_inv s" and "sim_step E e s = Some (Done t)"
  shows "sim_inv t"
proof (cases e)
  case (ReadCompleted r)
  with assms show ?thesis
    by (cases r) (auto simp: sim_inv_def start_session_def Let_def split: if_splits prod.splits
        dest: bspec [OF parse_commands_proper])
next
  case QueueTc
  with assms(2) obtain tc tcs q where q: "handling s = tc # tcs" "try_push tc (tc_q s) = Some q"
    "t = s\<lparr>tc_q := q, handling := tcs\<rparr>"
    by (auto split: list.splits)
  with assms(1) try_push_Some [of "tc_q s" tc q] show ?thesis by (simp add: sim_inv_def)
next
  case DispatchTc
  with assms(2) obtain tc q d where q: "try_pop (tc_q s) = Some (tc, q)"
    "dispatch (sim_lib E) (tx_clock E) tc (disp s) = Done d"
    "t = s\<lparr>tc_q := q, disp := d, dispatched := dispatched s @ [tc]\<rparr>"
    by (auto split: if_splits)
  moreover from q(1) assms(1) have "proper_tc tc"
    using try_pop_Some [of "tc_q s" tc q] by (simp add: sim_inv_def)
  moreover note dispatch_seq_small [OF this q(2)]
  ultimately show ?thesis using assms(1) try_pop_Some [of "tc_q s" tc q] by (simp add: sim_inv_def)
next
  case QueueTm
  with assms(2) obtain p ps q where q: "try_push p (tm_q s) = Some q"
    "t = s\<lparr>tm_q := q, disp := (disp s)\<lparr>tm_out := ps\<rparr>\<rparr>"
    by (auto split: list.splits)
  with assms(1) try_push_Some [of "tm_q s" p q] show ?thesis by (simp add: sim_inv_def)
next
  case TakeTm
  with assms(2) obtain p q where q: "try_pop (tm_q s) = Some (p, q)"
    "t = s\<lparr>tm_q := q\<rparr> \<or> t = s\<lparr>tm_q := q, tx_handlers := tx_handlers s @ [p]\<rparr>"
    by auto
  with assms(1) try_pop_Some [of "tm_q s" p q] show ?thesis by (auto simp: sim_inv_def)
qed (use assms in \<open>auto simp: sim_inv_def start_session_def split: if_splits option.splits list.splits\<close>)

lemma sim_reach_inv: "sim_reach E s \<Longrightarrow> sim_inv s"
  by (induction rule: sim_reach.induct) (auto intro: sim_inv_start sim_inv_step)

lemma dispatch_total: "proper_tc tc \<Longrightarrow> \<exists>d. dispatch L clk tc s = Done d"
  by (auto simp: proper_tc_def dispatch_send_all)

section \<open>Runs of the dispatcher\<close>

text \<open>A housekeeping request that asks for no verification report.\<close>

definition quiet_request :: tc_message where
  "quiet_request = \<lparr>tc_meta = empty_meta\<lparr>ptyp := 1, shf := 1, apid := APID_OBC, svc := SVC_HK,
       ssvc := SUB_HK_REQUEST\<rparr>, tc_pus = empty_tc_info, tc_application = []\<rparr>"

definition acked_request :: tc_message where
  "acked_request = quiet_request\<lparr>tc_pus := empty_tc_info\<lparr>acknowledgement_flags := 8\<rparr>\<rparr>"

lemma ack_bits_8: "bit (8 :: byte) 3" "\<not> bit (8 :: byte) 2" "\<not> bit (8 :: byte) 0"
  by (simp_all add: bit_iff_odd_drop_bit)

lemma replies_requests:
  "replies quiet_request = [(SVC_HK, SUB_HK_REPORT, hk_octets)]"
  "replies acked_request = [(SVC_VERIFY, SUB_VERIFY_ACCEPT_OK, [0, 0, 0, 0]), (SVC_HK, SUB_HK_REPORT, hk_octets)]"
  by (simp_all add: replies_def quiet_request_def acked_request_def Let_def supported_request_def
      empty_tc_info_def hk_answer_def ack_bits_8)

lemma request_sources: "source_id (tc_pus quiet_request) = 0" "source_id (tc_pus acked_request) = 0"
  by (simp_all add: quiet_request_def acked_request_def empty_tc_info_def)

lemma proper_requests: "length (request_id (tc_pus quiet_request)) = 4"
  "length (request_id (tc_pus acked_request)) = 4"
  by (simp_all add: quiet_request_def acked_request_def empty_tc_info_def)

fun dispatch_run ::
    "'p ccsdspack \<Rightarrow> (nat \<Rightarrow> u64) \<Rightarrow> tc_message list \<Rightarrow> dispatcher \<Rightarrow> dispatcher cpp" where
  "dispatch_run L clk tcs s = fold_cpp (dispatch L clk) tcs s"

lemma quiet_dispatches:
  "n \<le> 16283 \<Longrightarrow> \<exists>d. dispatch_run L clk (replicate n quiet_request) new_dispatcher = Done d
     \<and> unat (tm_seq d) = 100 + n \<and> builds d = n
     \<and> tm_out d = filter (\<lambda>p. p \<noteq> []) (map (\<lambda>i. build_tm L (clk i) APID_OBC (100 + of_nat i)
         SVC_HK SUB_HK_REPORT 0 hk_octets) [0..<n])"
proof (induction n)
  case 0
  then show ?case by (simp add: new_dispatcher_def)
next
  case (Suc n)
  then obtain d where d: "fold_cpp (dispatch L clk) (replicate n quiet_request) new_dispatcher = Done d"
    and u: "unat (tm_seq d) = 100 + n" and o: "builds d = n"
      "tm_out d = filter (\<lambda>p. p \<noteq> []) (map (\<lambda>i. build_tm L (clk i) APID_OBC (100 + of_nat i)
         SVC_HK SUB_HK_REPORT 0 hk_octets) [0..<n])" by auto
  have seq: "tm_seq d = 100 + of_nat n"
    using u Suc.prems by (intro word_unat_eq_iff [THEN iffD2]) (simp add: unat_word_ariths unat_of_nat_small)
  have "dispatch L clk quiet_request d
      = Done (wrap_seq (send_all L clk (source_id (tc_pus quiet_request)) (replies quiet_request) d))"
    (is "_ = Done ?e")
    by (rule dispatch_send_all [OF proper_requests(1)])
  moreover have "tm_seq ?e = (tm_seq d + 1) AND 0x3FFF" "builds ?e = Suc n"
    "tm_out ?e = tm_out d @ filter (\<lambda>p. p \<noteq> []) [build_tm L (clk n) APID_OBC (100 + of_nat n)
       SVC_HK SUB_HK_REPORT 0 hk_octets]"
    using send_all_numbered [of L clk "source_id (tc_pus quiet_request)" "replies quiet_request" d] o(1)
    by (simp_all add: wrap_seq_def replies_requests seq request_sources add.commute)
  moreover have "unat ((tm_seq d + 1) AND 0x3FFF) = 100 + Suc n"
  proof -
    have "unat (tm_seq d + 1) = 101 + n" using u Suc.prems by (simp add: unat_word_ariths)
    moreover have "m AND 16383 = take_bit 14 m" for m :: nat
      by (simp add: take_bit_eq_mask mask_eq_exp_minus_1)
    ultimately show ?thesis
      using Suc.prems by (simp add: unsigned_and_eq take_bit_nat_eq_self)
  qed
  moreover have "replicate (Suc n) quiet_request = replicate n quiet_request @ [quiet_request]"
    by (simp add: replicate_append_same)
  ultimately show ?case using d o by (simp add: fold_cpp_append del: replicate_Suc)
qed

text \<open>What the library does with a sequence count of more than 14 bits.\<close>

definition seq_14_bits :: "'p ccsdspack \<Rightarrow> bool" where
  "seq_14_bits L \<longleftrightarrow> (\<forall>n p. 0x4000 \<le> n \<longrightarrow> isl (set_sequence L n p))"

lemma build_tm_large:
  assumes "seq_14_bits L" and "0x4000 \<le> sq"
  shows "build_tm L now ap sq sv sb dest d = []"
proof -
  have "isl (prepare_primary L ap sq p)" for p
    using assms by (auto simp: prepare_primary_def Let_def seq_14_bits_def split: sum.splits)
      (metis isl_def sum.disc(2))
  then obtain e where "prepare_primary L ap sq (new_packet L) = Inl e"
    by (metis isl_def)
  then show ?thesis by (simp add: build_tm_def build_pus_c_tm_def)
qed

text \<open>
  The library builds exactly the reports whose sequence count has 14 bits, given no more application
  data than the System HK report has.
\<close>

definition builds_14_bits :: "'p ccsdspack \<Rightarrow> bool" where
  "builds_14_bits L \<longleftrightarrow> seq_14_bits L \<and> (\<forall>now sq sv sb dest d. sq < 0x4000 \<and> length d \<le> 84 \<longrightarrow>
     build_tm L now APID_OBC sq sv sb dest d \<noteq> [])"

lemma length_replies: "length (replies tc) \<le> 4"
  by (simp add: replies_def Let_def)

lemma replies_small:
  "length (request_id (tc_pus tc)) = 4 \<Longrightarrow> (sv, sb, d) \<in> set (replies tc) \<Longrightarrow> length d \<le> 84"
  by (auto simp: replies_def Let_def hk_answer_def hk_octets_def system_hk_octets_def split: if_splits)

lemma length_numbered [simp]: "length (numbered L clk sq n dest rs) = length rs"
  by (induction L clk sq n dest rs rule: numbered.induct) simp_all

lemma numbered_large:
  assumes "seq_14_bits L" and "0x4000 \<le> unat sq" and "unat sq + length rs \<le> 65536"
  shows "filter (\<lambda>p. p \<noteq> []) (numbered L clk sq n dest rs) = []"
  using assms(2,3)
proof (induction rs arbitrary: sq n)
  case Nil
  then show ?case by simp
next
  case (Cons r rs)
  obtain sv sb d where r: "r = (sv, sb, d)" by (cases r)
  have "rs = [] \<or> unat (sq + 1) = unat sq + 1"
    using Cons.prems(2) by (cases rs) (auto simp: unat_word_ariths)
  with Cons.IH [of "sq + 1"] Cons.prems have "filter (\<lambda>p. p \<noteq> []) (numbered L clk (sq + 1) (Suc n) dest rs) = []"
    by auto
  moreover have "0x4000 \<le> sq" using Cons.prems(1) by (simp add: word_le_nat_alt)
  ultimately show ?case using build_tm_large [OF assms(1)] r by simp
qed

lemma numbered_built:
  assumes "builds_14_bits L" and "unat sq \<le> 0x4000" and "length rs \<le> 4"
    and "\<forall>(sv, sb, d) \<in> set rs. length d \<le> 84"
  shows "filter (\<lambda>p. p \<noteq> []) (numbered L clk sq n dest rs) = take (0x4000 - unat sq) (numbered L clk sq n dest rs)"
  using assms(2-4)
proof (induction rs arbitrary: sq n)
  case Nil
  then show ?case by simp
next
  case (Cons r rs)
  obtain sv sb d where r: "r = (sv, sb, d)" by (cases r)
  show ?case
  proof (cases "unat sq = 0x4000")
    case True
    with numbered_large [of L sq "r # rs"] assms(1) Cons.prems(2) show ?thesis by (simp add: builds_14_bits_def)
  next
    case False
    then have s: "sq < 0x4000" "unat (sq + 1) = unat sq + 1" "0x4000 - unat sq = Suc (0x4000 - unat (sq + 1))"
      using Cons.prems(1) by (simp_all add: word_less_nat_alt unat_word_ariths)
    have "build_tm L (clk n) APID_OBC sq sv sb dest d \<noteq> []"
      using assms(1) s(1) Cons.prems(3) r by (auto simp: builds_14_bits_def)
    with Cons.IH [of "sq + 1" "Suc n"] Cons.prems s r show ?thesis by simp
  qed
qed

lemma built_reports:
  assumes "builds_14_bits L" and "tm_seq s < 0x4000" and "length (request_id (tc_pus tc)) = 4"
  shows "filter (\<lambda>p. p \<noteq> []) (numbered L clk (tm_seq s) n dest (replies tc))
    = take (0x4000 - unat (tm_seq s)) (numbered L clk (tm_seq s) n dest (replies tc))"
proof (rule numbered_built [OF assms(1)])
  show "unat (tm_seq s) \<le> 0x4000" using assms(2) by (simp add: word_less_nat_alt)
  show "length (replies tc) \<le> 4" by (rule length_replies)
  show "\<forall>(sv, sb, d) \<in> set (replies tc). length d \<le> 84" using replies_small [OF assms(3)] by blast
qed

section \<open>Concrete libraries\<close>

lemma plain_seq_14_bits: "seq_14_bits plain_pack"
  by (auto simp: seq_14_bits_def plain_pack_def icd_pack_def)

lemma plain_builds: "sq < 0x4000 \<Longrightarrow> build_tm plain_pack now APID_OBC sq sv sb dest d \<noteq> []"
  by (simp add: build_tm_def build_pus_c_tm_def prepare_primary_def finish_packet_def Let_def
      plain_pack_def icd_pack_def mission_ids icd_write_primary_def append_u16_def)

lemma plain_builds_14_bits: "builds_14_bits plain_pack"
  by (simp add: builds_14_bits_def plain_seq_14_bits plain_builds)

definition bench_sim :: "icd_packet sim_env" where
  "bench_sim = \<lparr>sim_lib = icd_pack, rx_clock = of_nat, tx_clock = of_nat\<rparr>"

lemma parse_hk_request: "\<exists>tc. parse_command icd_pack 0 hk_request_octets = Some tc"
proof -
  have "icd_read_tc hk_request_octets p = Inr \<lparr>ip_header = \<lparr>hdr_version = 0, hdr_type = 1,
      hdr_secondary = 1, hdr_apid = 0x100, hdr_seq_flags = 3, hdr_seq_count = 7, hdr_length = 6\<rparr>,
    ip_tc = Some \<lparr>tc_service = 3, tc_subtype = 128, tc_source = 0x10, tc_acks = 8\<rparr>,
    ip_data = []\<rparr>" for p
    by (simp add: icd_read_tc_def Let_def hk_request_octets_def icd_declared_size_def read_u16_def
        crc_hk_request icd_read_primary_def)
  then show ?thesis
    by (simp add: parse_command_def parse_pus_c_tc_def Let_def icd_pack_def fill_primary_meta_def
        empty_meta_def mission_ids)
qed

section \<open>Properties\<close>

text \<open>C30: Every telecommand is answered by the reports that its acknowledgement flags and its service ask
  for, in the order acceptance, start, housekeeping, completion (an unsupported one by a failed acceptance,
  if it asked for one), numbered by the telemetry counter, which continues modulo \<open>2 ^ 14\<close>. A report that
  the library does not build is left out. For a library that builds exactly the reports whose count
  fits in 14 bits these are the first \<open>2 ^ 14 - tm_seq\<close> ones: none is missing unless the counter passes
  \<open>2 ^ 14\<close> between two reports of the same telecommand.\<close>
theorem dispatcher_answers:
  assumes "length (request_id (tc_pus tc)) = 4"
  shows "\<exists>t. dispatch L clk tc s = Done t
    \<and> tm_out t = tm_out s @ filter (\<lambda>p. p \<noteq> [])
        (numbered L clk (tm_seq s) (builds s) (source_id (tc_pus tc)) (replies tc))
    \<and> (builds_14_bits L \<and> tm_seq s < 0x4000 \<longrightarrow> tm_out t = tm_out s @ take (0x4000 - unat (tm_seq s))
        (numbered L clk (tm_seq s) (builds s) (source_id (tc_pus tc)) (replies tc)))
    \<and> tm_seq t = (tm_seq s + of_nat (length (replies tc))) AND 0x3FFF"
proof -
  have "builds_14_bits L \<and> tm_seq s < 0x4000 \<longrightarrow> filter (\<lambda>p. p \<noteq> [])
        (numbered L clk (tm_seq s) (builds s) (source_id (tc_pus tc)) (replies tc))
      = take (0x4000 - unat (tm_seq s)) (numbered L clk (tm_seq s) (builds s) (source_id (tc_pus tc)) (replies tc))"
    using built_reports [OF _ _ assms] by blast
  then show ?thesis
    using dispatch_send_all [OF assms, of L clk s]
      send_all_numbered [of L clk "source_id (tc_pus tc)" "replies tc" s]
    by (simp add: wrap_seq_def)
qed

theorem dispatcher_answers_witness:
  "(\<exists>t. dispatch plain_pack of_nat acked_request new_dispatcher = Done t
    \<and> tm_out t = [build_tm plain_pack 0 APID_OBC 100 SVC_VERIFY SUB_VERIFY_ACCEPT_OK 0 [0, 0, 0, 0],
        build_tm plain_pack 1 APID_OBC 101 SVC_HK SUB_HK_REPORT 0 hk_octets]
    \<and> tm_seq t = 102)
   \<and> (\<exists>t. dispatch plain_pack of_nat acked_request (new_dispatcher\<lparr>tm_seq := 0x3FFF\<rparr>) = Done t
    \<and> tm_out t = [build_tm plain_pack 0 APID_OBC 0x3FFF SVC_VERIFY SUB_VERIFY_ACCEPT_OK 0 [0, 0, 0, 0]]
    \<and> tm_seq t = 1)"
  using dispatcher_answers [OF proper_requests(2), of plain_pack of_nat new_dispatcher]
    dispatcher_answers [OF proper_requests(2), of plain_pack of_nat "new_dispatcher\<lparr>tm_seq := 0x3FFF\<rparr>"]
  by (simp add: plain_builds_14_bits replies_requests new_dispatcher_def request_sources) blast

text \<open>C32: The reports are the structures the interface header declares: the failure report and the System
  HK report are built without leaving their buffers, and every field written at a numeric offset
  lands where its packed structure has it (a request ID being four octets).\<close>
theorem reports_are_icd_structures:
  assumes "rid = request_id (tc_pus tc)" and "length rid = 4"
    and "req = \<lparr>packet_id_be = read_u16 rid, packet_sequence_control_be = read_u16 (drop 2 rid)\<rparr>"
    and "hk = pack_hk_report \<lparr>hk_structure_id_be = EXN_HK_HEARTBEAT, sample_unix_ms_be = 0\<rparr>
       @ [EXN_STATE_READY, EXN_TIME_UNSYNCED] @ replicate 20 0"
  shows "make_hk_report = Done hk
    \<and> make_verification_success tc = pack_request_id req
    \<and> make_verification_failure tc c = Done (pack_verification_failure
        \<lparr>failed_request = req, failure_code_be = c, failure_data_length_be = 0\<rparr>)
    \<and> make_system_hk_report tc = Done
        (pack_system_hk_report \<lparr>answered_request = req, snapshot_unix_ms_be = 0,
           system_status = EXN_SYSTEM_HK_OK, endpoint_count = 1\<rparr>
         @ pack_endpoint \<lparr>producer_apid_be = APID_OBC, supervision_state = EXN_SUPERVISION_OK,
           endpoint_state = EXN_STATE_READY, recovery_state = EXN_RECOVERY_NONE,
           recovery_reason = EXN_RECOVERY_REASON_NONE, recovery_action = EXN_RECOVERY_ACTION_NONE,
           recovery_flags = 0, recovery_attempts_be = 0, recovery_successes_be = 0,
           last_recovery_result = EXN_RECOVERY_RESULT_NONE, heartbeat_age_ms_be = 0,
           health_age_ms_be = 0xFFFFFFFF, last_recovery_unix_ms_be = 0, structure_count = 1\<rparr>
         @ pack_structure \<lparr>structure_id_be = EXN_HK_HEARTBEAT, age_ms_be = 0, block_length_be = of_nat (length hk)\<rparr>
         @ hk)"
proof -
  have rid: "pack_request_id req = rid"
    using request_id_packed [OF assms(2)] by (simp add: assms(3))
  have hk: "hk = hk_octets"
    by (simp add: assms(4) packs hk_octets_def mission_ids store_runs eval_lists)
  then have "length hk = 32" by (simp add: hk_octets_def)
  moreover have "pack_verification_failure \<lparr>failed_request = req, failure_code_be = c, failure_data_length_be = 0\<rparr>
      = rid @ append_u16 [] c @ [0, 0]"
    by (simp add: packs(2) rid store_runs)
  moreover note make_failure_eq [of tc c] make_system_hk_report_eq [of tc]
  ultimately show ?thesis
    using assms(1,2) rid
    by (simp add: make_hk_report_eq make_verification_success_def hk system_hk_octets_def packs(3,4,5)
        mission_ids store_runs eval_lists)
qed

theorem reports_are_icd_structures_witness:
  "make_verification_failure acked_request 1 = Done (pack_verification_failure
      \<lparr>failed_request = \<lparr>packet_id_be = 0, packet_sequence_control_be = 0\<rparr>, failure_code_be = 1,
       failure_data_length_be = 0\<rparr>)"
proof -
  have "request_id (tc_pus acked_request) = [0, 0, 0, 0]"
    by (simp add: acked_request_def quiet_request_def empty_tc_info_def)
  with reports_are_icd_structures [OF refl, of acked_request _ _ 1] show ?thesis
    by (simp add: read_u16_def)
qed

text \<open>The telemetry counter is reduced to 14 bits only after a telecommand is finished, so the
  second report of a telecommand can be given the count 0x4000, which no packet can carry:
  with a library that refuses such counts and builds all others, after 16283 requests
  without acknowledgement flags the report of a request with the acceptance flag is lost.
  The last packet sent is its acceptance.\<close>
lemma report_lost_at_sequence_wrap:
  assumes "seq_14_bits L"
    and "\<And>now sq sv sb dest d. sq < 0x4000 \<Longrightarrow> build_tm L now APID_OBC sq sv sb dest d \<noteq> []"
  shows "\<exists>t. dispatch_run L clk (replicate 16283 quiet_request @ [acked_request]) new_dispatcher = Done t
    \<and> length (tm_out t) = 16284
    \<and> last (tm_out t) = build_tm L (clk 16283) APID_OBC 0x3FFF SVC_VERIFY SUB_VERIFY_ACCEPT_OK 0 [0, 0, 0, 0]"
proof -
  obtain d where d: "dispatch_run L clk (replicate 16283 quiet_request) new_dispatcher = Done d"
    "unat (tm_seq d) = 16383" "builds d = 16283"
    "tm_out d = filter (\<lambda>p. p \<noteq> []) (map (\<lambda>i. build_tm L (clk i) APID_OBC (100 + of_nat i)
       SVC_HK SUB_HK_REPORT 0 hk_octets) [0..<16283])"
    using quiet_dispatches [of 16283 L clk] by auto
  have "(100 + of_nat i :: u16) < 0x4000" if "i < 16283" for i
    using that by (simp add: word_less_nat_alt unat_word_ariths unat_of_nat_small)
  with d(4) assms(2) have len: "length (tm_out d) = 16283"
    by (subst (asm) filter_True) auto
  have seq: "tm_seq d = 0x3FFF" using d(2) by (intro word_unat_eq_iff [THEN iffD2]) simp
  let ?acc = "build_tm L (clk 16283) APID_OBC 0x3FFF SVC_VERIFY SUB_VERIFY_ACCEPT_OK 0 [0, 0, 0, 0]"
  have "\<exists>t. dispatch L clk acked_request d = Done t \<and> tm_out t = tm_out d @ [?acc]"
    using dispatch_send_all [OF proper_requests(2), of L clk d]
      send_all_numbered [of L clk 0 "replies acked_request" d] assms(2) [of "0x3FFF"]
      build_tm_large [OF assms(1), of "0x4000"]
    by (simp add: wrap_seq_def replies_requests seq d(3) request_sources)
  then show ?thesis
    using d(1) len by (auto simp: fold_cpp_append)
qed

text \<open>C31: Under every interleaving of the simulator's threads, the telecommands accepted from the
  socket are dispatched once each and in order: those not dispatched yet wait in the
  queue, at most 63, or with the blocked I/O thread. Only telecommands to the OBC are
  accepted, and no step of any thread is undefined.\<close>
theorem simulator_commands_in_order:
  assumes "sim_reach E s"
  shows "accepted s = dispatched s @ items (tc_q s) @ handling s
    \<and> length (items (tc_q s)) \<le> 63
    \<and> (\<forall>tc \<in> set (accepted s). apid (tc_meta tc) = APID_OBC)
    \<and> sim_step E e s \<noteq> Some UB"
proof -
  have i: "sim_inv s" using assms by (rule sim_reach_inv)
  then have ok: "ring_ok (tc_q s)" "slots (tc_q s) = 64"
    and proper: "\<forall>tc \<in> set (accepted s). proper_tc tc"
    and eq: "accepted s = dispatched s @ items (tc_q s) @ handling s"
    by (simp_all add: sim_inv_def)
  have "sim_step E e s \<noteq> Some UB"
  proof (cases e)
    case DispatchTc
    have "dispatch (sim_lib E) (tx_clock E) tc (disp s) \<noteq> UB" if "try_pop (tc_q s) = Some (tc, q)" for tc q
    proof -
      have "tc \<in> set (accepted s)" using try_pop_Some [OF ok(1) that] eq by simp
      with proper dispatch_total [of tc "sim_lib E" "tx_clock E" "disp s"] show ?thesis by auto
    qed
    with DispatchTc show ?thesis by auto
  next
    case (ReadCompleted r)
    have "push_bytes (declared_packet_size (sim_lib E)) bs (sim_framer s) \<noteq> UB" for bs
      using push_bytes_total [of "declared_packet_size (sim_lib E)" bs "sim_framer s"] by auto
    with ReadCompleted show ?thesis by (auto split: sum.splits)
  qed (auto simp: Let_def split: option.splits list.splits prod.splits sum.splits)
  then show ?thesis
    using eq proper ring.within [OF ok(1)] ok(2) by (auto simp: proper_tc_def)
qed

theorem simulator_commands_in_order_witness:
  "\<exists>s tc. sim_reach bench_sim s \<and> accepted s = [tc] \<and> handling s = [tc] \<and> dispatched s = []
    \<and> items (tc_q s) = [] \<and> apid (tc_meta tc) = APID_OBC \<and> sim_step bench_sim QueueTc s \<noteq> Some UB"
proof -
  obtain tc where tc: "parse_command icd_pack 0 hk_request_octets = Some tc"
    using parse_hk_request by blast
  let ?a = "sim_start\<lparr>listening := False, sim_connected := True\<rparr>"
  let ?s = "?a\<lparr>parses := 1, handling := [tc], accepted := [tc]\<rparr>"
  have a: "sim_reach bench_sim ?a"
    by (rule sim_steps [OF sim_starts, of _ "ConnectionAccepted None"])
      (simp add: sim_start_def start_session_def)
  have "push_bytes icd_declared_size hk_request_octets (set_on_packet new_framer)
      = Done (set_on_packet new_framer, [hk_request_octets])"
    by (simp add: push_bytes_def frame_loop.simps [of icd_declared_size] icd_declared_size_def
        read_u16_def hk_request_octets_def set_on_packet_def new_framer_def)
  with tc have "sim_step bench_sim (ReadCompleted (Inr hk_request_octets)) ?a = Some (Done ?s)"
    by (simp add: bench_sim_def sim_start_def start_session_def Let_def icd_pack_def [THEN arg_cong [where f = declared_packet_size], simplified])
  from sim_steps [OF a this] have s: "sim_reach bench_sim ?s" .
  from simulator_commands_in_order [OF s, of QueueTc] s show ?thesis
    by (intro exI [of _ ?s] exI [of _ tc]) (auto simp: sim_start_def start_session_def)
qed

end
