(* ===== verification/Sim_Main.thy ===== *)
theory Sim_Main
  imports Simulator Options
begin

text \<open>
  The start of the simulator and what it prints (\<open>sim/src/main.cpp\<close>). The HardRT scheduler is not
  under \<open>src\<close>: what it reports, and whether it could be initialised and its two tasks created, is an
  argument. The lines of a handler are a function beside the handler of \<open>Simulator\<close>, with the
  same conditions.
\<close>

section \<open>The start\<close>

record hardrt =
  version_string :: string
  version_u32 :: u32
  port_name :: string
  port_id :: int
  init_result :: int
  dispatch_task :: int
  tx_task :: int

text \<open>The options: any other word is ignored.\<close>

fun sim_args :: "string list \<Rightarrow> bool \<Rightarrow> bool" where
  "sim_args [] v = v"
| "sim_args (a # rest) v = sim_args rest (if a = ''-v'' \<or> a = ''--verbose'' then True else v)"

text \<open>\<open>%06X\<close> and \<open>%d\<close>.\<close>

definition hex_char :: "nat \<Rightarrow> char" where
  "hex_char n = (if n < 10 then char_of (48 + n) else char_of (55 + n))"

fun hex_text :: "nat \<Rightarrow> string" where
  "hex_text n = (if n < 16 then [hex_char n] else hex_text (n div 16) @ [hex_char (n mod 16)])"

declare hex_text.simps [simp del]

definition hex6 :: "nat \<Rightarrow> string" where
  "hex6 n = replicate (6 - length (hex_text n)) (CHR ''0'') @ hex_text n"

definition int_text :: "int \<Rightarrow> string" where
  "int_text i = (if i < 0 then CHR ''-'' # dec (nat (- i)) else dec (nat i))"

text \<open>What \<open>main\<close> comes to: an exit code, or the verbosity and which of the two tasks run beside
  the I/O thread, whose session is \<open>sim_start\<close>.\<close>

definition sim_main :: "hardrt \<Rightarrow> string list \<Rightarrow> string list \<times> (bool \<times> bool \<times> bool \<times> sim) outcome" where
  "sim_main h argv =
     (let v = sim_args argv False;
          ls = [''HardRT version: '' @ version_string h @ '' (0x'' @ hex6 (unat (version_u32 h)) @ ''), port: ''
                @ port_name h @ '' (id='' @ int_text (port_id h) @ '')'']
      in if init_result h \<noteq> 0 then (ls @ [''HardRT init failed''], Exit 1)
         else (ls @ [''stm32_sim listening on 127.0.0.1:9000'']
               @ (if v then [''[EXN SIM] start session''] else [])
               @ (if dispatch_task h < 0 then [''create tc_dispatch_task failed''] else [])
               @ (if tx_task h < 0 then [''create tm_tx_task failed''] else []),
             Run (v, 0 \<le> dispatch_task h, 0 \<le> tx_task h, sim_start)))"

text \<open>The steps that happen without the tasks that could not be created.\<close>

fun step_of_task :: "bool \<Rightarrow> bool \<Rightarrow> sim_event \<Rightarrow> bool" where
  "step_of_task dispatches sends DispatchTc \<longleftrightarrow> dispatches"
| "step_of_task dispatches sends QueueTm \<longleftrightarrow> dispatches"
| "step_of_task dispatches sends TakeTm \<longleftrightarrow> sends"
| "step_of_task dispatches sends _ \<longleftrightarrow> True"

section \<open>The lines of the handlers\<close>

definition tc_line :: "tc_message \<Rightarrow> string" where
  "tc_line tc = ''[EXN SIM RX] TC APID='' @ dec (unat (apid (tc_meta tc))) @ '' SEQ='' @ dec (unat (seqc (tc_meta tc)))
     @ '' SVC='' @ dec (unat (svc (tc_meta tc))) @ '' SSV='' @ dec (unat (ssvc (tc_meta tc)))"

text \<open>The framer's callback in \<open>start_session\<close>.\<close>

definition command_lines :: "'p ccsdspack \<Rightarrow> bool \<Rightarrow> u64 \<Rightarrow> bytes \<Rightarrow> string list" where
  "command_lines L v now bs =
     (if v then [''[EXN SIM RX] buffer length: '' @ dec (length bs),
                 ''[EXN SIM RX] Data in: '' @ concat (map (\<lambda>b. dec (unat b) @ '' '') bs)] else [])
     @ (case parse_pus_c_tc L now bs empty_tc_info of (ok, m, d, e, info) \<Rightarrow>
          if \<not> ok then (if v then [''[EXN SIM RX] rejected packet: '' @ e] else [])
          else if apid m \<noteq> APID_OBC
          then (if v then [''[EXN SIM RX] TC not addressed to MCU: APID='' @ dec (unat (apid m))] else [])
          else (if v then [tc_line \<lparr>tc_meta = m, tc_pus = info, tc_application = d\<rparr>] else []))"

text \<open>\<open>start_async_read\<close> and the acceptance of a connection.\<close>

definition start_lines :: "bool \<Rightarrow> string list" where
  "start_lines v = (if v then [''[EXN SIM] start session''] else [])"

definition accept_lines :: "bool \<Rightarrow> string option \<Rightarrow> string list" where
  "accept_lines v ec = (case ec of
       Some e \<Rightarrow> (if v then [''[EXN SIM] accept error: '' @ e] else []) @ start_lines v
     | None \<Rightarrow> (if v then [''[EXN SIM] client connected''] else []))"

definition read_error_lines :: "bool \<Rightarrow> string \<Rightarrow> string list" where
  "read_error_lines v e = (if v then [''[EXN SIM] read error: '' @ e] else []) @ start_lines v"

text \<open>A report that cannot be built is printed in any case; an unsupported request with \<open>--verbose\<close>.\<close>

definition build_lines ::
    "'p ccsdspack \<Rightarrow> u64 \<Rightarrow> u16 \<Rightarrow> u16 \<Rightarrow> byte \<Rightarrow> byte \<Rightarrow> u16 \<Rightarrow> bytes \<Rightarrow> string list" where
  "build_lines L now ap sq sv sb dest data =
     (case build_pus_c_tm L now ap sq sv sb sq dest EXN_TIME_UNSYNCED data of
        (ok, packet, e) \<Rightarrow> if \<not> ok then [''[EXN SIM TX] cannot build PUS-C TM: '' @ e] else [])"

definition unsupported_lines :: "bool \<Rightarrow> tc_message \<Rightarrow> string list" where
  "unsupported_lines v tc =
     (if \<not> supported_request tc \<and> v
      then [''[EXN SIM] unsupported PUS-C TC SVC='' @ dec (unat (svc (tc_meta tc)))
              @ '' SSV='' @ dec (unat (ssvc (tc_meta tc)))] else [])"

text \<open>An iteration of \<open>tm_tx_task\<close>, which decodes the report only to print it.\<close>

definition tx_lines :: "'p ccsdspack \<Rightarrow> bool \<Rightarrow> u64 \<Rightarrow> bool \<Rightarrow> bytes \<Rightarrow> string list cpp" where
  "tx_lines L v now connected bs =
     (if \<not> connected then Done (if v then [''[EXN SIM TX] not connected, dropping TM''] else [])
      else if \<not> v then Done []
      else map_cpp (\<lambda>(ok, m, e).
         if ok then [''[EXN SIM TX] TM APID='' @ dec (unat (apid m)) @ '' SEQ='' @ dec (unat (seqc m))
                       @ '' SVC='' @ dec (unat (svc m)) @ '' SSV='' @ dec (unat (ssvc m))]
         else [''[EXN SIM TX] invalid TM: '' @ e]) (decode_meta L now bs))"

section \<open>What the lines tell\<close>

lemma sim_args_verbose: "sim_args argv v \<longleftrightarrow> v \<or> ''-v'' \<in> set argv \<or> ''--verbose'' \<in> set argv"
  by (induction argv arbitrary: v) auto

text \<open>A packet is taken as a command exactly when its last line says so; without \<open>--verbose\<close> the
  packet leaves no line.\<close>

definition verdict_prefixes :: "string list" where
  "verdict_prefixes = [''[EXN SIM RX] rejected'', ''[EXN SIM RX] TC not'']"

lemma tc_line_prefix: "list_all (\<lambda>p. \<not> starts_with (tc_line tc) p) verdict_prefixes"
  by (simp add: tc_line_def verdict_prefixes_def starts_with_def)

lemma command_taken: "parse_command L now bs = Some tc \<Longrightarrow> last (command_lines L True now bs) = tc_line tc"
  by (auto simp: parse_command_def command_lines_def split: prod.splits if_splits)

lemma command_dropped:
  "parse_command L now bs = None \<Longrightarrow>
     list_ex (starts_with (last (command_lines L True now bs))) verdict_prefixes"
  by (auto simp: parse_command_def command_lines_def verdict_prefixes_def starts_with_def
      split: prod.splits if_splits)

lemma command_told:
  "(\<exists>tc. parse_command L now bs = Some tc \<and> last (command_lines L True now bs) = tc_line tc)
    \<longleftrightarrow> \<not> list_ex (starts_with (last (command_lines L True now bs))) verdict_prefixes"
  using tc_line_prefix command_taken [of L now bs] command_dropped [of L now bs]
  by (cases "parse_command L now bs") (auto simp: list_all_iff list_ex_iff)

lemma quiet_command: "command_lines L False now bs = []"
  by (auto simp: command_lines_def split: prod.splits)

text \<open>A report that is not sent on is one that could not be built, and this is always printed.\<close>

lemma lost_report_printed:
  assumes "\<And>p bs. serialize L p = Inr bs \<Longrightarrow> bs \<noteq> []"
  shows "build_lines L now ap sq sv sb dest d = [] \<longleftrightarrow> build_tm L now ap sq sv sb dest d \<noteq> []"
  using assms
  by (auto simp: build_lines_def build_tm_def build_pus_c_tm_def finish_packet_def split: prod.splits sum.splits if_splits)

text \<open>Whatever could be created, the simulator's runs are runs of \<open>Simulator\<close>, with the steps of a
  missing task left out.\<close>

inductive booted_reach :: "'p sim_env \<Rightarrow> bool \<Rightarrow> bool \<Rightarrow> sim \<Rightarrow> bool" for E dispatches sends where
  booted: "booted_reach E dispatches sends sim_start"
| booted_steps: "booted_reach E dispatches sends s \<Longrightarrow> step_of_task dispatches sends e \<Longrightarrow>
    sim_step E e s = Some (Done t) \<Longrightarrow> booted_reach E dispatches sends t"

lemma booted_is_reach: "booted_reach E dispatches sends s \<Longrightarrow> sim_reach E s"
  by (induction rule: booted_reach.induct) (auto intro: sim_starts sim_steps)

text \<open>With both tasks they are all of them.\<close>

lemma booted_all: "booted_reach E True True s \<longleftrightarrow> sim_reach E s"
proof
  have all: "step_of_task True True e" for e by (cases e) simp_all
  show "sim_reach E s \<Longrightarrow> booted_reach E True True s"
    by (induction rule: sim_reach.induct) (auto intro: booted booted_steps [OF _ all])
qed (rule booted_is_reach)

text \<open>Without the dispatch task no command is ever answered.\<close>

lemma no_dispatcher_no_report:
  assumes "booted_reach E False sends s"
  shows "dispatched s = [] \<and> in_flight s = [] \<and> tx_handlers s = [] \<and> items (tm_q s) = []"
proof -
  have "dispatched s = [] \<and> in_flight s = [] \<and> tx_handlers s = [] \<and> items (tm_q s) = [] \<and> ring_ok (tm_q s)"
    using assms
  proof (induction rule: booted_reach.induct)
    case booted
    have "ring_ok (new_ring 64 [] :: bytes ring_queue) \<and> items (new_ring 64 [] :: bytes ring_queue) = []"
      using new_ring_ok [of 64 "[] :: bytes"] items_new_ring [of 64 "[] :: bytes"] by simp
    then show ?case by (simp add: sim_start_def start_session_def)
  next
    case (booted_steps s e t)
    then show ?case
      by (cases e) (auto simp: start_session_def Let_def can_write_def dest: try_pop_Some split: if_splits option.splits
          sum.splits list.splits prod.splits)
  qed
  then show ?thesis by blast
qed

end
