(* ===== verification/Sim_Progress.thy ===== *)
theory Sim_Progress
  imports GS_Prelude Progress Ring_Queue Simulator
begin

text \<open>
  Progress of the simulator: what its threads do with what was accepted when nothing more
  arrives. The steps of the threads and of the writes are bounded by the work in the queues, one
  of them is possible as long as there is work, and the telemetry is given to the socket in the order of
  the telecommands. The writes overlap: on the wire their octets are interleaved in any way.
\<close>

section \<open>Runs\<close>

fun sim_run :: "'p sim_env \<Rightarrow> sim_event list \<Rightarrow> sim \<Rightarrow> sim cpp option" where
  "sim_run S [] s = Some (Done s)"
| "sim_run S (e # es) s =
     (case sim_step S e s of
        Some (Done t) \<Rightarrow> sim_run S es t
      | r \<Rightarrow> r)"

lemma sim_run_steps: "sim_run S es s = run_steps (sim_step S) es s"
  by (induction es arbitrary: s) (simp_all split: option.split cpp.split del: sim_step.simps)

text \<open>The steps that need no one outside: everything but accepting and reading.\<close>

fun internal :: "sim_event \<Rightarrow> bool" where
  "internal (ConnectionAccepted ec) = False"
| "internal (ReadCompleted r) = False"
| "internal _ = True"

definition quiet :: "sim \<Rightarrow> bool" where
  "quiet s \<longleftrightarrow> handling s = [] \<and> items (tc_q s) = [] \<and> tm_out (disp s) = [] \<and> items (tm_q s) = []
     \<and> tx_handlers s = [] \<and> in_flight s = [] \<and> aborted s = 0"

text \<open>
  The specification: the reports of a list of telecommands, in their order, numbered from the
  dispatcher's counter, which is reduced to 14 bits after each telecommand; a report that
  the library does not build is left out.
\<close>

fun answers :: "'p ccsdspack \<Rightarrow> (nat \<Rightarrow> u64) \<Rightarrow> u16 \<Rightarrow> nat \<Rightarrow> tc_message list \<Rightarrow> bytes list" where
  "answers L clk sq n [] = []"
| "answers L clk sq n (tc # tcs) =
     filter (\<lambda>p. p \<noteq> []) (numbered L clk sq n (source_id (tc_pus tc)) (replies tc))
     @ answers L clk ((sq + of_nat (length (replies tc))) AND 0x3FFF) (n + length (replies tc)) tcs"

text \<open>The same for a library that builds exactly the reports whose count has 14 bits: every report, but for
  those whose count passes \<open>2 ^ 14\<close> within their telecommand.\<close>

fun all_answers :: "'p ccsdspack \<Rightarrow> (nat \<Rightarrow> u64) \<Rightarrow> u16 \<Rightarrow> nat \<Rightarrow> tc_message list \<Rightarrow> bytes list" where
  "all_answers L clk sq n [] = []"
| "all_answers L clk sq n (tc # tcs) =
     take (0x4000 - unat sq) (numbered L clk sq n (source_id (tc_pus tc)) (replies tc))
     @ all_answers L clk ((sq + of_nat (length (replies tc))) AND 0x3FFF) (n + length (replies tc)) tcs"

lemma answers_all:
  assumes "builds_14_bits L" and "sq < 0x4000" and "list_all proper_tc tcs"
  shows "answers L clk sq n tcs = all_answers L clk sq n tcs"
  using assms(2,3)
proof (induction tcs arbitrary: sq n)
  case Nil
  then show ?case by simp
next
  case (Cons tc tcs)
  have "length (request_id (tc_pus tc)) = 4" using Cons.prems(2) by (simp add: proper_tc_def)
  with built_reports [OF assms(1), of "\<lparr>tm_seq = sq, builds = n, tm_out = []\<rparr>" tc clk n "source_id (tc_pus tc)"]
    Cons.prems Cons.IH [OF wrapped_small] show ?case by simp
qed

text \<open>What the waiting telecommands will cause.\<close>

definition still_to_answer :: "'p sim_env \<Rightarrow> sim \<Rightarrow> bytes list" where
  "still_to_answer S s = answers (sim_lib S) (tx_clock S) (tm_seq (disp s)) (builds (disp s))
     (items (tc_q s) @ handling s)"

text \<open>
  The steps still to come at most. A report costs a step for every octet and one for each stage it has
  still to pass, a telecommand one for the queue and one for the dispatcher.
\<close>

definition weight :: "nat \<Rightarrow> bytes list \<Rightarrow> nat" where
  "weight k ps = sum_list (map (\<lambda>p. length p + k) ps)"

definition work :: "'p sim_env \<Rightarrow> sim \<Rightarrow> nat" where
  "work S s = 2 * length (handling s) + length (items (tc_q s)) + weight 4 (still_to_answer S s)
     + weight 4 (tm_out (disp s)) + weight 3 (items (tm_q s)) + weight 2 (tx_handlers s)
     + weight 1 (in_flight s) + aborted s"

lemma weight_simps [simp]:
  "weight k [] = 0" "weight k (p # ps) = length p + k + weight k ps" "weight k (ps @ qs) = weight k ps + weight k qs"
  by (simp_all add: weight_def)

lemma weight_nth: "k < length ws \<Longrightarrow> weight 1 ws = weight 1 (take k ws) + length (ws ! k) + 1 + weight 1 (drop (Suc k) ws)"
  by (subst id_take_nth_drop [of k ws]) simp_all

lemma weight_wrote: "can_write k n ws \<Longrightarrow> weight 1 (wrote k n ws) < weight 1 ws"
  using weight_nth [of k ws] by (auto simp: can_write_def wrote_def upd_conv_take_nth_drop)

text \<open>What an internal step is.\<close>

lemma internal_step_cases [consumes 3, case_names QueueTc DispatchTc QueueTm TakeTm Dropped RunTx NotSent TxWrote TxFailed TxAborted]:
  assumes "sim_step S e s = Some (Done t)" and "internal e" and "sim_inv s"
  obtains
    tc tcs q where "e = QueueTc" "handling s = tc # tcs" "items q = items (tc_q s) @ [tc]"
      "t = s\<lparr>tc_q := q, handling := tcs\<rparr>"
  | tc q d where "e = DispatchTc" "tm_out (disp s) = []" "items (tc_q s) = tc # items q"
      "dispatch (sim_lib S) (tx_clock S) tc (disp s) = Done d" "proper_tc tc"
      "t = s\<lparr>tc_q := q, disp := d, dispatched := dispatched s @ [tc]\<rparr>"
  | p ps q where "e = QueueTm" "tm_out (disp s) = p # ps" "items q = items (tm_q s) @ [p]"
      "t = s\<lparr>tm_q := q, disp := (disp s)\<lparr>tm_out := ps\<rparr>\<rparr>"
  | p q where "e = TakeTm" "items (tm_q s) = p # items q" "sim_connected s"
      "t = s\<lparr>tm_q := q, tx_handlers := tx_handlers s @ [p]\<rparr>"
  | p q where "e = TakeTm" "items (tm_q s) = p # items q" "\<not> sim_connected s" "t = s\<lparr>tm_q := q\<rparr>"
  | p ps where "e = RunTx" "handling s = []" "tx_handlers s = p # ps" "sim_connected s"
      "t = s\<lparr>tx_handlers := ps, in_flight := in_flight s @ [p]\<rparr>"
  | p ps where "e = RunTx" "handling s = []" "tx_handlers s = p # ps" "\<not> sim_connected s"
      "t = s\<lparr>tx_handlers := ps\<rparr>"
  | k n where "e = TxWrote k n" "handling s = []" "can_write k n (in_flight s)"
      "t = s\<lparr>in_flight := wrote k n (in_flight s)\<rparr>"
  | k where "e = TxFailed k" "handling s = []" "k < length (in_flight s)"
      "t = s\<lparr>in_flight := take k (in_flight s) @ drop (Suc k) (in_flight s)\<rparr>"
  | "e = TxAborted" "handling s = []" "0 < aborted s" "t = s\<lparr>aborted := aborted s - 1\<rparr>"
proof -
  have ok: "ring_ok (tc_q s)" "ring_ok (tm_q s)" using assms(3) by (simp_all add: sim_inv_def)
  have proper: "\<forall>tc \<in> set (items (tc_q s)). proper_tc tc" using assms(3) by (auto simp: sim_inv_def)
  show thesis
  proof (cases e)
    case QueueTc
    with assms(1) that(1) show ?thesis
      by (auto split: list.splits dest: try_push_Some [OF ok(1)])
  next
    case DispatchTc
    with assms(1) obtain tc q d where d: "tm_out (disp s) = []" "try_pop (tc_q s) = Some (tc, q)"
      "dispatch (sim_lib S) (tx_clock S) tc (disp s) = Done d"
      "t = s\<lparr>tc_q := q, disp := d, dispatched := dispatched s @ [tc]\<rparr>"
      by (auto split: if_splits)
    moreover have "items (tc_q s) = tc # items q" using try_pop_Some [OF ok(1) d(2)] by simp
    ultimately show ?thesis using that(2) DispatchTc proper by simp
  next
    case QueueTm
    with assms(1) that(3) show ?thesis
      by (auto split: list.splits dest: try_push_Some [OF ok(2)])
  next
    case TakeTm
    with assms(1) obtain p q where q: "try_pop (tm_q s) = Some (p, q)"
      "t = (if \<not> sim_connected s then s\<lparr>tm_q := q\<rparr> else s\<lparr>tm_q := q, tx_handlers := tx_handlers s @ [p]\<rparr>)"
      by auto
    have i: "items (tm_q s) = p # items q" using try_pop_Some [OF ok(2) q(1)] by simp
    show ?thesis
    proof (cases "sim_connected s")
      case True
      with q(2) show ?thesis by (intro that(4) [OF TakeTm i True]) simp
    next
      case False
      with q(2) show ?thesis by (intro that(5) [OF TakeTm i False]) simp
    qed
  next
    case RunTx
    with assms(1) that(6,7) show ?thesis by (auto split: if_splits list.splits)
  next
    case (TxWrote k n)
    with assms(1) show ?thesis by (intro that(8) [of k n]) (auto split: if_splits)
  next
    case (TxFailed k)
    with assms(1) show ?thesis by (intro that(9) [of k]) (auto split: if_splits)
  next
    case TxAborted
    with assms(1) show ?thesis by (intro that(10)) (auto split: if_splits)
  qed (use assms(2) in simp_all)
qed

section \<open>The work shrinks\<close>

lemma dispatched_out:
  assumes "dispatch L clk tc k = Done d" and "proper_tc tc"
  shows "tm_out d = tm_out k @ filter (\<lambda>p. p \<noteq> [])
      (numbered L clk (tm_seq k) (builds k) (source_id (tc_pus tc)) (replies tc))"
    and "tm_seq d = (tm_seq k + of_nat (length (replies tc))) AND 0x3FFF"
    and "builds d = builds k + length (replies tc)"
  using assms send_all_numbered [of L clk "source_id (tc_pus tc)" "replies tc" k]
    dispatch_send_all [of tc L clk k]
  by (auto simp: proper_tc_def wrap_seq_def)

lemma work_decreases:
  assumes "sim_step S e s = Some (Done t)" and "internal e" and "sim_inv s"
  shows "work S t < work S s"
  using assms
proof (cases rule: internal_step_cases)
  case (DispatchTc tc q d)
  then have "still_to_answer S s = tm_out d @ still_to_answer S t"
    using dispatched_out [OF DispatchTc(4,5)] by (simp add: still_to_answer_def)
  with DispatchTc show ?thesis by (simp add: work_def del: length_items)
next
  case (TxWrote k n)
  with weight_wrote show ?thesis by (simp add: work_def still_to_answer_def del: length_items)
next
  case (TxFailed k)
  with weight_nth [of k "in_flight s"] show ?thesis by (simp add: work_def still_to_answer_def del: length_items)
qed (simp_all add: work_def still_to_answer_def del: length_items)

section \<open>There is always a step\<close>

lemma push_enabled:
  "ring_ok q \<Longrightarrow> slots q = 64 \<Longrightarrow> items q = [] \<Longrightarrow> \<exists>r. try_push v q = Some r"
  using push_room [of q v] length_items [of q] by (auto simp del: length_items)

lemma pop_enabled: "ring_ok q \<Longrightarrow> items q \<noteq> [] \<Longrightarrow> \<exists>x r. try_pop q = Some (x, r)"
  using ring.pop_front by (cases "items q") fastforce+

lemma step_possible:
  assumes "sim_inv s" and "\<not> quiet s"
  shows "\<exists>e t. internal e \<and> sim_step S e s = Some (Done t)"
proof -
  have ok: "ring_ok (tc_q s)" "slots (tc_q s) = 64" "ring_ok (tm_q s)" "slots (tm_q s) = 64"
    using assms(1) by (simp_all add: sim_inv_def)
  consider (take) "items (tm_q s) \<noteq> []"
    | (queue) p ps where "items (tm_q s) = []" "tm_out (disp s) = p # ps"
    | (run) "tm_out (disp s) = []" "items (tc_q s) \<noteq> []"
    | (pass) tc tcs where "items (tc_q s) = []" "handling s = tc # tcs"
    | (io) "handling s = []" "tx_handlers s \<noteq> [] \<or> in_flight s \<noteq> [] \<or> aborted s \<noteq> 0"
    using assms(2) by (cases "tm_out (disp s)"; cases "handling s") (auto simp: quiet_def)
  then show ?thesis
  proof cases
    case take
    with pop_enabled [OF ok(3)] show ?thesis by (intro exI [of _ TakeTm]) auto
  next
    case queue
    with push_enabled [OF ok(3,4), of p] show ?thesis by (intro exI [of _ QueueTm]) auto
  next
    case run
    then obtain tc q where q: "try_pop (tc_q s) = Some (tc, q)" using pop_enabled [OF ok(1)] by blast
    then have "tc \<in> set (accepted s)" using try_pop_Some [OF ok(1) q] assms(1) by (simp add: sim_inv_def)
    then have "proper_tc tc" using assms(1) by (simp add: sim_inv_def)
    from dispatch_total [OF this, of "sim_lib S" "tx_clock S" "disp s"] q run show ?thesis
      by (intro exI [of _ DispatchTc]) auto
  next
    case pass
    with push_enabled [OF ok(1,2), of tc] show ?thesis by (intro exI [of _ QueueTc]) auto
  next
    case io
    then consider "tx_handlers s \<noteq> []" | w ws where "in_flight s = w # ws" | "aborted s \<noteq> 0"
      by (cases "in_flight s") auto
    then show ?thesis
    proof cases
      case 1
      with io show ?thesis by (intro exI [of _ RunTx]) (auto split: list.split)
    next
      case (2 w ws)
      with io show ?thesis by (intro exI [of _ "TxWrote 0 (length w)"]) (auto simp: can_write_def)
    next
      case 3
      with io show ?thesis by (intro exI [of _ TxAborted]) auto
    qed
  qed
qed

lemma quiet_no_step: "sim_inv s \<Longrightarrow> quiet s \<Longrightarrow> internal e \<Longrightarrow> sim_step S e s = None"
  using ring.pop_None_iff [of "tc_q s"] ring.pop_None_iff [of "tm_q s"]
  by (cases e) (simp_all add: quiet_def sim_inv_def can_write_def)

interpretation threads: progress "sim_step S" internal sim_inv "work S" quiet for S
  using work_decreases sim_inv_step step_possible quiet_no_step by unfold_locales blast+

section \<open>The telemetry goes out in order\<close>

text \<open>Telemetry not given to the socket yet, the reports a run gives to \<open>async_write\<close>, and the octets it puts
  on the wire.\<close>

definition pipeline :: "sim \<Rightarrow> bytes list" where
  "pipeline s = tx_handlers s @ items (tm_q s) @ tm_out (disp s)"

definition started :: "sim_event \<Rightarrow> sim \<Rightarrow> bytes list" where
  "started e s = (if e = RunTx \<and> sim_connected s then take 1 (tx_handlers s) else [])"

fun put_out :: "sim_event \<Rightarrow> sim \<Rightarrow> bytes" where
  "put_out (TxWrote k n) s = take n (in_flight s ! k)"
| "put_out _ s = []"

definition sent :: "'p sim_env \<Rightarrow> sim_event list \<Rightarrow> sim \<Rightarrow> bytes list" where
  "sent S es s = outputs (sim_step S) started es s"

definition wire :: "'p sim_env \<Rightarrow> sim_event list \<Rightarrow> sim \<Rightarrow> bytes" where
  "wire S es s = outputs (sim_step S) put_out es s"

lemma telemetry_step:
  assumes "sim_step S e s = Some (Done t)" and "internal e" and "sim_inv s" and "sim_connected s"
  shows "started e s @ pipeline t @ still_to_answer S t = pipeline s @ still_to_answer S s" and "sim_connected t"
proof -
  have "started e s @ pipeline t @ still_to_answer S t = pipeline s @ still_to_answer S s \<and> sim_connected t"
    using assms(1-3)
  proof (cases rule: internal_step_cases)
    case (DispatchTc tc q d)
    then show ?thesis
      using assms(4) dispatched_out [OF DispatchTc(4,5)]
      by (simp add: pipeline_def still_to_answer_def started_def)
  qed (use assms(4) in \<open>simp_all add: pipeline_def still_to_answer_def started_def\<close>)
  then show "started e s @ pipeline t @ still_to_answer S t = pipeline s @ still_to_answer S s"
    and "sim_connected t" by blast+
qed

interpretation telemetry: delivering "sim_step S" internal "\<lambda>s. sim_inv s \<and> sim_connected s" "work S" quiet
    started "\<lambda>s. pipeline s @ still_to_answer S s" "\<lambda>_ _. []" for S
proof unfold_locales
  fix s t e
  assume s: "sim_inv s \<and> sim_connected s" and e: "internal e"
  assume t: "sim_step S e s = Some (Done t)"
  with s e telemetry_step [OF t e] threads.advances [of s e S t]
  show "(sim_inv t \<and> sim_connected t) \<and> work S t < work S s"
    "started e s @ pipeline t @ still_to_answer S t = (pipeline s @ still_to_answer S s) @ []" by simp_all
next
  fix s
  assume "sim_inv s \<and> sim_connected s" and "\<not> quiet s"
  then show "\<exists>e t. internal e \<and> sim_step S e s = Some (Done t)" using step_possible by blast
next
  fix s e
  assume "sim_inv s \<and> sim_connected s" and q: "quiet s"
  then show "internal e \<Longrightarrow> sim_step S e s = None" using quiet_no_step by blast
  from q show "pipeline s @ still_to_answer S s = []" by (simp add: quiet_def pipeline_def still_to_answer_def)
qed

section \<open>The octets on the wire\<close>

text \<open>An interleaving takes the next octet of any of the lists until all are used up.\<close>

inductive interleaved :: "bytes list \<Rightarrow> bytes \<Rightarrow> bool" where
  interleaved_done: "list_all (\<lambda>p. p = []) ps \<Longrightarrow> interleaved ps []"
| interleaved_next: "k < length ps \<Longrightarrow> ps ! k = b # p \<Longrightarrow> interleaved (ps[k := p]) w \<Longrightarrow> interleaved ps (b # w)"

lemma interleaved_part:
  "k < length ps \<Longrightarrow> ps ! k = x @ y \<Longrightarrow> interleaved (ps[k := y]) w \<Longrightarrow> interleaved ps (x @ w)"
proof (induction x arbitrary: ps)
  case Nil
  then show ?case by (metis append_Nil list_update_id)
next
  case (Cons b x)
  have "interleaved (ps[k := x @ y]) (x @ w)"
    using Cons.prems by (intro Cons.IH) simp_all
  with Cons.prems(1,2) show ?case by (auto intro: interleaved_next)
qed

lemma interleaved_empty: "interleaved (as @ bs) w \<Longrightarrow> interleaved (as @ [] # bs) w"
proof (induction "as @ bs" w arbitrary: as bs rule: interleaved.induct)
  case interleaved_done
  then show ?case by (intro interleaved.interleaved_done) simp
next
  case (interleaved_next k b p w)
  show ?case
  proof (cases "k < length as")
    case True
    with interleaved_next.hyps(2) interleaved_next.hyps(4) [of "as[k := p]" bs] show ?thesis
      by (intro interleaved.interleaved_next [of k]) (simp_all add: nth_append list_update_append)
  next
    case False
    then obtain j where j: "k = length as + j" by (metis add_diff_inverse_nat)
    then have "interleaved (as @ [] # bs[j := p]) w"
      using interleaved_next.hyps(4) [of as "bs[j := p]"] by (simp add: list_update_append)
    with interleaved_next.hyps(1,2) j show ?thesis
      by (intro interleaved.interleaved_next [of "Suc k"]) (simp_all add: nth_append list_update_append)
  qed
qed

lemma interleaved_wrote:
  assumes "can_write k n ws" and "interleaved (wrote k n ws @ xs) w"
  shows "interleaved (ws @ xs) (take n (ws ! k) @ w)"
proof (rule interleaved_part [of k])
  have k: "k < length ws" using assms(1) by (simp add: can_write_def)
  then show "k < length (ws @ xs)" by simp
  show "(ws @ xs) ! k = take n (ws ! k) @ drop n (ws ! k)" using k by (simp add: nth_append)
  show "interleaved ((ws @ xs)[k := drop n (ws ! k)]) w"
  proof (cases "drop n (ws ! k) = []")
    case True
    with assms(2) have "interleaved (take k ws @ [] # (drop (Suc k) ws @ xs)) w"
      by (intro interleaved_empty) (simp add: wrote_def)
    with k True show ?thesis by (simp add: list_update_append upd_conv_take_nth_drop)
  next
    case False
    with assms(2) k show ?thesis by (simp add: wrote_def list_update_append)
  qed
qed

text \<open>Runs in which no write fails, and those in which the writes do not overlap either.\<close>

fun failed :: "sim_event \<Rightarrow> bool" where
  "failed (TxFailed k) = True"
| "failed _ = False"

fun one_at_a_time :: "'p sim_env \<Rightarrow> sim_event list \<Rightarrow> sim \<Rightarrow> bool" where
  "one_at_a_time S [] s \<longleftrightarrow> length (in_flight s) \<le> 1"
| "one_at_a_time S (e # es) s \<longleftrightarrow> length (in_flight s) \<le> 1
     \<and> (case sim_step S e s of Some (Done t) \<Rightarrow> one_at_a_time S es t | _ \<Rightarrow> True)"

lemma wire_step:
  assumes "sim_step S e s = Some (Done t)" and "internal e" and "sim_inv s" and "\<not> failed e"
  shows "interleaved (in_flight t @ xs) w \<Longrightarrow> interleaved (in_flight s @ started e s @ xs) (put_out e s @ w)"
    and "length (in_flight s) \<le> 1 \<Longrightarrow> put_out e s @ concat (in_flight t) = concat (in_flight s @ started e s)"
proof -
  have "(interleaved (in_flight t @ xs) w \<longrightarrow> interleaved (in_flight s @ started e s @ xs) (put_out e s @ w))
    \<and> (length (in_flight s) \<le> 1 \<longrightarrow> put_out e s @ concat (in_flight t) = concat (in_flight s @ started e s))"
    using assms(1-3)
  proof (cases rule: internal_step_cases)
    case (TxWrote k n)
    have "put_out e s @ concat (in_flight t) = concat (in_flight s)" if "length (in_flight s) \<le> 1"
    proof -
      from that TxWrote(3) obtain p where "in_flight s = [p]" "k = 0"
        by (cases "in_flight s") (auto simp: can_write_def)
      with TxWrote show ?thesis by (auto simp: wrote_def)
    qed
    with TxWrote interleaved_wrote [OF TxWrote(3), of xs w] show ?thesis by (simp add: started_def)
  qed (use assms(4) in \<open>simp_all add: started_def\<close>)
  then show "interleaved (in_flight t @ xs) w \<Longrightarrow> interleaved (in_flight s @ started e s @ xs) (put_out e s @ w)"
    and "length (in_flight s) \<le> 1 \<Longrightarrow> put_out e s @ concat (in_flight t) = concat (in_flight s @ started e s)"
    by blast+
qed

lemma wire_run:
  assumes "run_steps (sim_step S) es s = Some (Done t)" and "list_all internal es" and "sim_inv s"
    and "list_all (\<lambda>e. \<not> failed e) es" and "in_flight t = []"
  shows "interleaved (in_flight s @ sent S es s) (wire S es s)"
    and "one_at_a_time S es s \<Longrightarrow> wire S es s = concat (in_flight s @ sent S es s)"
proof -
  have "interleaved (in_flight s @ sent S es s) (wire S es s)
    \<and> (one_at_a_time S es s \<longrightarrow> wire S es s = concat (in_flight s @ sent S es s))"
    using assms(1-4)
  proof (induction es arbitrary: s)
    case Nil
    then show ?case using assms(5) by (simp add: sent_def wire_def interleaved_done)
  next
    case (Cons e es)
    from Cons.prems(1) obtain u where u: "sim_step S e s = Some (Done u)" "run_steps (sim_step S) es u = Some (Done t)"
      by (auto simp only: run_steps_Cons)
    have e: "internal e" "\<not> failed e" using Cons.prems(2,4) by simp_all
    have "sim_inv u" by (rule sim_inv_step [OF Cons.prems(3) u(1)])
    with Cons.IH [OF u(2)] Cons.prems(2,4) have IH: "interleaved (in_flight u @ sent S es u) (wire S es u)"
      "one_at_a_time S es u \<Longrightarrow> wire S es u = concat (in_flight u @ sent S es u)" by simp_all
    note step = wire_step [OF u(1) e(1) Cons.prems(3) e(2)]
    from step(1) [OF IH(1)] have "interleaved (in_flight s @ sent S (e # es) s) (wire S (e # es) s)"
      using u(1) by (simp add: sent_def wire_def)
    moreover have "wire S (e # es) s = concat (in_flight s @ sent S (e # es) s)" if "one_at_a_time S (e # es) s"
    proof -
      have "wire S es u = concat (in_flight u) @ concat (sent S es u)" "length (in_flight s) \<le> 1"
        using that u(1) IH(2) by simp_all
      with step(2) u(1) show ?thesis by (simp add: sent_def wire_def)
    qed
    ultimately show ?case by blast
  qed
  then show "interleaved (in_flight s @ sent S es s) (wire S es s)"
    and "one_at_a_time S es s \<Longrightarrow> wire S es s = concat (in_flight s @ sent S es s)" by blast+
qed

text \<open>Conversely, the reports being written can come out in every interleaving: nothing orders the writes.\<close>

lemma every_interleaving_possible:
  assumes "interleaved ws w" and "handling s = []" and "in_flight s = filter (\<lambda>p. p \<noteq> []) ws"
  shows "\<exists>es t. list_all (\<lambda>e. internal e \<and> \<not> failed e) es \<and> sim_run S es s = Some (Done t) \<and> in_flight t = []
    \<and> wire S es s = w"
  using assms
proof (induction ws w arbitrary: s rule: interleaved.induct)
  case (interleaved_done ps)
  then have "in_flight s = []" by (simp add: list_all_iff)
  then show ?case by (intro exI [of _ "[]"] exI [of _ s]) (simp add: wire_def)
next
  case (interleaved_next k ps b p w)
  let ?F = "filter (\<lambda>p. p \<noteq> [])"
  define j where "j = length (?F (take k ps))"
  have fs: "in_flight s = ?F (take k ps) @ (b # p) # ?F (drop (Suc k) ps)"
    unfolding interleaved_next.prems(2)
    by (subst id_take_nth_drop [OF interleaved_next.hyps(1)]) (simp add: interleaved_next.hyps(2))
  have "?F (ps[k := p]) = ?F (take k ps) @ ?F [p] @ ?F (drop (Suc k) ps)"
    using interleaved_next.hyps(1) by (simp add: upd_conv_take_nth_drop)
  then have w: "wrote j 1 (in_flight s) = ?F (ps[k := p])" and c: "can_write j 1 (in_flight s)"
    by (simp_all add: fs j_def wrote_def can_write_def)
  let ?u = "s\<lparr>in_flight := wrote j 1 (in_flight s)\<rparr>"
  have u: "sim_step S (TxWrote j 1) s = Some (Done ?u)" "put_out (TxWrote j 1) s = [b]"
    using c interleaved_next.prems(1) by (simp_all add: fs j_def)
  obtain es t where "list_all (\<lambda>e. internal e \<and> \<not> failed e) es" "sim_run S es ?u = Some (Done t)" "in_flight t = []"
    "wire S es ?u = w"
    using interleaved_next.IH [of ?u] interleaved_next.prems(1) w by auto
  with u show ?case
    by (intro exI [of _ "TxWrote j 1 # es"] exI [of _ t]) (simp add: wire_def del: sim_step.simps)
qed

section \<open>A concrete run\<close>

definition plain_sim :: "icd_packet sim_env" where
  "plain_sim = bench_sim\<lparr>sim_lib := plain_pack\<rparr>"

text \<open>The System HK telecommand of the regression test, as the simulator parses it.\<close>

definition bench_tc :: tc_message where
  "bench_tc = \<lparr>tc_meta = empty_meta\<lparr>ptyp := 1, shf := 1, apid := APID_OBC, seqf := 3, seqc := 7, dlen := 6,
       svc := SVC_HK, ssvc := SUB_SYS_HK_REQUEST\<rparr>,
     tc_pus = \<lparr>source_id = PUSID_GS, acknowledgement_flags = 8, request_id = [25, 0, 192, 7]\<rparr>,
     tc_application = []\<rparr>"

text \<open>It was read on a new connection and is with the I/O thread.\<close>

definition sim_handling :: sim where
  "sim_handling = sim_start\<lparr>listening := False, sim_connected := True, parses := 1, handling := [bench_tc],
     accepted := [bench_tc]\<rparr>"

lemma parse_bench_tc: "parse_command plain_pack 0 hk_request_octets = Some bench_tc"
proof -
  have "icd_read_tc hk_request_octets p = Inr \<lparr>ip_header = \<lparr>hdr_version = 0, hdr_type = 1,
      hdr_secondary = 1, hdr_apid = 0x100, hdr_seq_flags = 3, hdr_seq_count = 7, hdr_length = 6\<rparr>,
    ip_tc = Some \<lparr>tc_service = 3, tc_subtype = 128, tc_source = 0x10, tc_acks = 8\<rparr>,
    ip_data = []\<rparr>" for p
    by (simp add: icd_read_tc_def Let_def hk_request_octets_def icd_declared_size_def read_u16_def
        crc_hk_request icd_read_primary_def)
  then show ?thesis
    by (simp add: parse_command_def parse_pus_c_tc_def Let_def plain_pack_def icd_pack_def fill_primary_meta_def
        empty_meta_def mission_ids bench_tc_def) (simp add: hk_request_octets_def)
qed

lemma reach_sim_handling: "sim_reach plain_sim sim_handling"
proof -
  let ?a = "sim_start\<lparr>listening := False, sim_connected := True\<rparr>"
  have a: "sim_reach plain_sim ?a"
    by (rule sim_steps [OF sim_starts, of _ "ConnectionAccepted None"])
      (simp add: sim_start_def start_session_def)
  have cut: "push_bytes icd_declared_size hk_request_octets (set_on_packet new_framer)
      = Done (set_on_packet new_framer, [hk_request_octets])"
    by (simp add: push_bytes_def frame_loop.simps [of icd_declared_size] icd_declared_size_def
        read_u16_def hk_request_octets_def set_on_packet_def new_framer_def)
  have "declared_packet_size plain_pack = icd_declared_size" by (simp add: plain_pack_def icd_pack_def)
  with cut parse_bench_tc have "sim_step plain_sim (ReadCompleted (Inr hk_request_octets)) ?a = Some (Done sim_handling)"
    by (simp add: plain_sim_def bench_sim_def sim_handling_def sim_start_def start_session_def Let_def)
  from sim_steps [OF a this] show ?thesis .
qed

lemma bench_tc_answers:
  "answers plain_pack of_nat 100 0 [bench_tc] =
     [build_tm plain_pack 0 APID_OBC 100 SVC_VERIFY SUB_VERIFY_ACCEPT_OK PUSID_GS [25, 0, 192, 7],
      build_tm plain_pack 1 APID_OBC 101 SVC_HK SUB_SYS_HK_REPORT PUSID_GS (system_hk_octets [25, 0, 192, 7])]"
proof -
  have "replies bench_tc = [(SVC_VERIFY, SUB_VERIFY_ACCEPT_OK, [25, 0, 192, 7]),
      (SVC_HK, SUB_SYS_HK_REPORT, system_hk_octets [25, 0, 192, 7])]"
    by (simp add: replies_def bench_tc_def Let_def supported_request_def hk_answer_def ack_bits_8)
      (simp add: mission_ids)
  moreover have "source_id (tc_pus bench_tc) = PUSID_GS" by (simp add: bench_tc_def)
  ultimately show ?thesis by (simp add: plain_builds)
qed

section \<open>Properties\<close>

text \<open>C8: The simulator answers everything: from every reachable state its threads and writes come to rest,
  under every schedule, whether writes succeed or fail, after at most \<open>work S s\<close> steps and never before
  all queues are empty and every telecommand is dispatched. While the connection stands, the reports it has given to
  \<open>async_write\<close> by then are the telemetry under way, followed by the specified answers of every telecommand
  that was waiting, in their order, but for those the library does not build: none, for a library that
  builds the reports with a 14-bit count, unless the counter passes \<open>2 ^ 14\<close> within a telecommand. When no write
  fails, the octets on the wire are an interleaving of these reports, and of what was being written, for
  nothing keeps a write from starting before the last has ended; they are the reports one after the other
  when no two writes overlap.\<close>
theorem simulator_serves_all:
  assumes "sim_reach S s" and "sim_connected s"
    and "waiting_tcs = items (tc_q s) @ handling s"
  shows "(\<exists>es t. list_all internal es \<and> sim_run S es s = Some (Done t) \<and> quiet t)
    \<and> (\<forall>es t. list_all internal es \<and> sim_run S es s = Some (Done t) \<longrightarrow>
         length es \<le> work S s \<and> (quiet t \<longleftrightarrow> (\<forall>e. internal e \<longrightarrow> sim_step S e t = None))
         \<and> (quiet t \<longrightarrow> dispatched t = accepted t
              \<and> sent S es s = pipeline s
                  @ answers (sim_lib S) (tx_clock S) (tm_seq (disp s)) (builds (disp s)) waiting_tcs
              \<and> (list_all (\<lambda>e. \<not> failed e) es \<longrightarrow> interleaved (in_flight s @ sent S es s) (wire S es s)
                  \<and> (one_at_a_time S es s \<longrightarrow> wire S es s = concat (in_flight s @ sent S es s)))))
    \<and> (builds_14_bits (sim_lib S) \<longrightarrow>
         answers (sim_lib S) (tx_clock S) (tm_seq (disp s)) (builds (disp s)) waiting_tcs
           = all_answers (sim_lib S) (tx_clock S) (tm_seq (disp s)) (builds (disp s)) waiting_tcs)"
proof (intro conjI allI impI; (elim conjE)?)
  have i: "sim_inv s" using assms(1) by (rule sim_reach_inv)
  then show "\<exists>es t. list_all internal es \<and> sim_run S es s = Some (Done t) \<and> quiet t"
    unfolding sim_run_steps by (rule threads.run_to_rest)
  show "answers (sim_lib S) (tx_clock S) (tm_seq (disp s)) (builds (disp s)) waiting_tcs
      = all_answers (sim_lib S) (tx_clock S) (tm_seq (disp s)) (builds (disp s)) waiting_tcs"
    if "builds_14_bits (sim_lib S)"
    using that i assms(3) by (intro answers_all) (auto simp: sim_inv_def list_all_iff)
  fix es t
  assume es: "list_all internal es" and "sim_run S es s = Some (Done t)"
  then have r: "run_steps (sim_step S) es s = Some (Done t)" by (simp add: sim_run_steps)
  have t: "sim_inv t" "length es + work S t \<le> work S s" using threads.run_bounded [OF r es i] by simp_all
  then show "length es \<le> work S s" by simp
  show "quiet t \<longleftrightarrow> (\<forall>e. internal e \<longrightarrow> sim_step S e t = None)" using t(1) by (rule threads.rest_iff)
  assume q: "quiet t"
  with t(1) show "dispatched t = accepted t" by (simp add: quiet_def sim_inv_def)
  from telemetry.all_delivered [OF r es _ q] i assms(2) show "sent S es s = pipeline s
      @ answers (sim_lib S) (tx_clock S) (tm_seq (disp s)) (builds (disp s)) waiting_tcs"
    by (simp add: sent_def still_to_answer_def assms(3))
  assume f: "list_all (\<lambda>e. \<not> failed e) es"
  have "in_flight t = []" using q by (simp add: quiet_def)
  note w = wire_run [OF r es i f this]
  from w(1) show "interleaved (in_flight s @ sent S es s) (wire S es s)" .
  show "wire S es s = concat (in_flight s @ sent S es s)" if "one_at_a_time S es s" using that by (rule w(2))
qed

theorem simulator_serves_all_witness:
  "\<exists>es t. list_all internal es \<and> sim_run plain_sim es sim_handling = Some (Done t) \<and> quiet t
    \<and> length es \<le> work plain_sim sim_handling \<and> dispatched t = accepted t
    \<and> sent plain_sim es sim_handling =
       [build_tm plain_pack 0 APID_OBC 100 SVC_VERIFY SUB_VERIFY_ACCEPT_OK PUSID_GS [25, 0, 192, 7],
        build_tm plain_pack 1 APID_OBC 101 SVC_HK SUB_SYS_HK_REPORT PUSID_GS (system_hk_octets [25, 0, 192, 7])]"
proof -
  have c: "sim_connected sim_handling" by (simp add: sim_handling_def)
  note serves = simulator_serves_all [OF reach_sim_handling c refl]
  then obtain es t where r: "list_all internal es" "sim_run plain_sim es sim_handling = Some (Done t)" "quiet t"
    by blast
  have empty: "items (tc_q sim_handling) = []" "items (tm_q sim_handling) = []"
    by (simp_all add: sim_handling_def sim_start_def start_session_def items_new_ring)
  have parts: "pipeline sim_handling = []" "disp sim_handling = new_dispatcher" "handling sim_handling = [bench_tc]"
    using empty by (simp_all add: pipeline_def sim_handling_def sim_start_def start_session_def new_dispatcher_def
        del: length_items)
  have "sim_lib plain_sim = plain_pack" "tx_clock plain_sim = of_nat"
    by (simp_all add: plain_sim_def bench_sim_def)
  with serves r parts empty bench_tc_answers show ?thesis
    by (intro exI [of _ es] exI [of _ t]) (simp add: new_dispatcher_def)
qed

end
