(* ===== verification/Ipc_Client.thy ===== *)
theory Ipc_Client
  imports GS_Prelude Stream_Splitter Protocol Write_Queue
begin

text \<open>
  The UI's side of the local IPC: \<open>ui/src/ipc_client.cpp\<close> and
  \<open>ui/include/exn/ui/ipc_client.hpp\<close>, a connection that is made again a second after it is
  lost. As for the other connections, operations in progress are part of the state and
  complete with any result; a cancelled one still completes. There is no generation
  counter here, so a handler of an old connection acts on whatever there is. Both
  callbacks are set before \<open>start\<close>; they are the outputs of a handler.
\<close>

section \<open>State\<close>

datatype client_op = ResolveC | ConnectC | TimerC | ReadC | WriteC bytes

datatype client_out = ConnState bool string | GotFrame frame

record ipc_client =
  cl_host :: string
  cl_port :: u16
  cl_open :: bool
  cl_connected :: bool
  reconnect_scheduled :: bool
  cl_rxbuf :: bytes
  cl_queue :: "bytes list"
  cl_posted :: "bytes list"
  cl_pending :: "client_op list"

definition new_client :: "string \<Rightarrow> u16 \<Rightarrow> ipc_client" where
  "new_client h p = \<lparr>cl_host = h, cl_port = p, cl_open = False, cl_connected = False,
     reconnect_scheduled = False, cl_rxbuf = [], cl_queue = [], cl_posted = [], cl_pending = []\<rparr>"

section \<open>Operations\<close>

definition begin_op :: "client_op \<Rightarrow> ipc_client \<Rightarrow> ipc_client" where
  "begin_op p c = c\<lparr>cl_pending := cl_pending c @ [p]\<rparr>"

definition set_connected :: "bool \<Rightarrow> string \<Rightarrow> ipc_client \<Rightarrow> ipc_client \<times> client_out list" where
  "set_connected b x c =
     (if cl_connected c = b \<and> b then (c, [])
      else (c\<lparr>cl_connected := b\<rparr>, [ConnState b x]))"

definition do_connect :: "ipc_client \<Rightarrow> ipc_client" where
  "do_connect c = begin_op ResolveC
     (c\<lparr>reconnect_scheduled := False, cl_open := False, cl_rxbuf := [], cl_queue := []\<rparr>)"

definition client_start :: "ipc_client \<Rightarrow> ipc_client" where
  "client_start c = do_connect c"

definition schedule_reconnect :: "string \<Rightarrow> ipc_client \<Rightarrow> ipc_client \<times> client_out list" where
  "schedule_reconnect reason c =
     (let c = c\<lparr>cl_open := False, cl_queue := [], cl_rxbuf := []\<rparr>;
          (c, outs) = set_connected False reason c
      in if reconnect_scheduled c then (c, outs)
         else (begin_op TimerC (c\<lparr>reconnect_scheduled := True\<rparr>), outs))"

definition client_do_read :: "ipc_client \<Rightarrow> ipc_client" where
  "client_do_read c = begin_op ReadC c"

definition client_do_write :: "ipc_client \<Rightarrow> ipc_client" where
  "client_do_write c =
     (if cl_queue c = [] \<or> \<not> cl_connected c \<or> \<not> cl_open c then c
      else begin_op (WriteC (hd (cl_queue c))) c)"

definition send_frame :: "frame \<Rightarrow> ipc_client \<Rightarrow> ipc_client" where
  "send_frame f c = c\<lparr>cl_posted := cl_posted c @ [encode f]\<rparr>"

definition client_send_handler :: "bytes \<Rightarrow> ipc_client \<Rightarrow> ipc_client" where
  "client_send_handler b c =
     (if \<not> cl_connected c \<or> \<not> cl_open c then c
      else let idle = (cl_queue c = []); c = c\<lparr>cl_queue := cl_queue c @ [b]\<rparr>
        in if idle then client_do_write c else c)"

definition send_command :: "string \<Rightarrow> ipc_client \<Rightarrow> ipc_client" where
  "send_command cmd c = send_frame \<lparr>ftype = Command, payload = pack_string cmd\<rparr> c"

definition send_packet :: "bytes \<Rightarrow> ipc_client \<Rightarrow> ipc_client" where
  "send_packet packet c = send_frame \<lparr>ftype = PacketSend, payload = packet\<rparr> c"

section \<open>Handlers\<close>

definition resolved :: "string + bytes \<Rightarrow> ipc_client \<Rightarrow> ipc_client \<times> client_out list" where
  "resolved r c = (case r of
       Inl e \<Rightarrow> schedule_reconnect (''resolve failed: '' @ e) c
     | Inr _ \<Rightarrow> (begin_op ConnectC c, []))"

definition connect_done :: "string + bytes \<Rightarrow> ipc_client \<Rightarrow> ipc_client \<times> client_out list" where
  "connect_done r c = (case r of
       Inl e \<Rightarrow> schedule_reconnect (''connect failed: '' @ e) c
     | Inr _ \<Rightarrow>
         (let (c, outs) = set_connected True (cl_host c @ '':'' @ dec (unat (cl_port c)))
                (c\<lparr>cl_open := True\<rparr>)
          in (client_do_read c, outs)))"

definition timer_fired :: "string + bytes \<Rightarrow> ipc_client \<Rightarrow> ipc_client \<times> client_out list" where
  "timer_fired r c = (case r of Inl e \<Rightarrow> (c, []) | Inr _ \<Rightarrow> (do_connect c, []))"

definition read_done :: "string + bytes \<Rightarrow> ipc_client \<Rightarrow> (ipc_client \<times> client_out list) cpp" where
  "read_done r c = (case r of
       Inl e \<Rightarrow> Done (schedule_reconnect (''connection lost: '' @ e) c)
     | Inr bs \<Rightarrow>
         map_cpp (\<lambda>(fs, rest). (client_do_read (c\<lparr>cl_rxbuf := rest\<rparr>), map GotFrame fs))
           (drain_frames (cl_rxbuf c @ bs)))"

text \<open>\<open>pop_front\<close> of an empty deque has no defined result.\<close>

definition write_done :: "string + bytes \<Rightarrow> ipc_client \<Rightarrow> (ipc_client \<times> client_out list) cpp" where
  "write_done r c = (case r of
       Inl e \<Rightarrow> Done (schedule_reconnect (''write failed: '' @ e) c)
     | Inr _ \<Rightarrow>
         if cl_queue c = [] then UB
         else Done (client_do_write (c\<lparr>cl_queue := tl (cl_queue c)\<rparr>), []))"

fun client_complete :: "client_op \<Rightarrow> string + bytes \<Rightarrow> ipc_client \<Rightarrow> (ipc_client \<times> client_out list) cpp" where
  "client_complete ResolveC r c = Done (resolved r c)"
| "client_complete ConnectC r c = Done (connect_done r c)"
| "client_complete TimerC r c = Done (timer_fired r c)"
| "client_complete ReadC r c = read_done r c"
| "client_complete (WriteC b) r c = write_done r c"

datatype client_event = SendFrame frame | RunSendC | CompleteC client_op "string + bytes"

fun client_step :: "client_event \<Rightarrow> ipc_client \<Rightarrow> (ipc_client \<times> client_out list) cpp option" where
  "client_step (SendFrame f) c = Some (Done (send_frame f c, []))"
| "client_step RunSendC c =
     (case cl_posted c of [] \<Rightarrow> None
      | b # bs \<Rightarrow> Some (Done (client_send_handler b (c\<lparr>cl_posted := bs\<rparr>), [])))"
| "client_step (CompleteC p r) c =
     (if p \<in> set (cl_pending c)
      then Some (client_complete p r (c\<lparr>cl_pending := remove1 p (cl_pending c)\<rparr>))
      else None)"

text \<open>Nothing cancels the timer while the client runs, so its wait is not aborted.\<close>

inductive client_reach :: "ipc_client \<Rightarrow> bool" where
  client_starts: "client_reach (client_start (new_client h p))"
| client_steps: "client_reach c \<Longrightarrow> client_step e c = Some (Done (d, outs)) \<Longrightarrow>
    (\<And>x. e \<noteq> CompleteC TimerC (Inl x)) \<Longrightarrow> client_reach d"

lemmas client_ops [unfold_ops] = begin_op_def set_connected_def do_connect_def schedule_reconnect_def
  client_do_read_def client_do_write_def send_frame_def client_send_handler_def resolved_def
  connect_done_def timer_fired_def read_done_def write_done_def Let_def

section \<open>Invariant\<close>

text \<open>
  Something is queued only on an open, connected socket; a reconnection is scheduled exactly
  while its one timer runs; and there is always an operation other than a write in progress.
\<close>

fun drives :: "client_op \<Rightarrow> bool" where
  "drives (WriteC b) = False"
| "drives _ = True"

definition client_inv :: "ipc_client \<Rightarrow> bool" where
  "client_inv c \<longleftrightarrow> (cl_connected c \<and> cl_open c \<or> cl_queue c = [])
     \<and> count_list (cl_pending c) TimerC = (if reconnect_scheduled c then 1 else 0)
     \<and> filter drives (cl_pending c) \<noteq> []"

lemma count_list_remove1:
  "count_list (remove1 p xs) q = (if p = q then count_list xs q - 1 else count_list xs q)"
  by (induction xs) (auto simp: count_list_0_iff)

text \<open>The invariant without its last part: what holds inside a handler.\<close>

definition client_mid :: "ipc_client \<Rightarrow> bool" where
  "client_mid c \<longleftrightarrow> (cl_connected c \<and> cl_open c \<or> cl_queue c = [])
     \<and> count_list (cl_pending c) TimerC = (if reconnect_scheduled c then 1 else 0)"

lemma client_inv_schedule:
  assumes "client_mid c"
  shows "client_inv (fst (schedule_reconnect e c))"
proof (cases "reconnect_scheduled c")
  case True
  with assms have "count_list (cl_pending c) TimerC \<noteq> 0" by (simp add: client_mid_def)
  then have "TimerC \<in> set (cl_pending c)" by (metis count_notin)
  then have "filter drives (cl_pending c) \<noteq> []" by (auto simp: filter_empty_conv intro!: bexI [of _ TimerC])
  with True assms show ?thesis
    by (simp add: schedule_reconnect_def set_connected_def client_inv_def client_mid_def)
next
  case False
  with assms show ?thesis
    by (simp add: schedule_reconnect_def set_connected_def client_inv_def client_mid_def begin_op_def)
qed

lemma client_inv_begin:
  assumes "client_mid c" and "drives p" and "p \<noteq> TimerC"
  shows "client_inv (begin_op p c)"
  using assms by (simp add: client_inv_def client_mid_def begin_op_def)

lemma client_inv_mid: "client_inv c \<Longrightarrow> client_mid c"
  by (simp add: client_inv_def client_mid_def)

definition take_c :: "client_op \<Rightarrow> ipc_client \<Rightarrow> ipc_client" where
  "take_c p c = c\<lparr>cl_pending := remove1 p (cl_pending c)\<rparr>"

lemma client_mid_take: "client_mid c \<Longrightarrow> p \<noteq> TimerC \<Longrightarrow> client_mid (take_c p c)"
  by (simp add: client_mid_def take_c_def count_list_remove1)

lemma drives_take_write:
  "filter drives (cl_pending (take_c (WriteC b) c)) = filter drives (cl_pending c)"
  by (simp add: take_c_def filter_remove1 remove1_idem)

lemma client_inv_write:
  assumes "client_inv c"
  shows "client_inv (client_do_write c)"
  using assms by (simp add: client_inv_def client_do_write_def begin_op_def)

lemma client_inv_complete:
  assumes "client_inv c" and "p \<in> set (cl_pending c)"
    and "client_complete p r (take_c p c) = Done (d, outs)" and "\<And>x. p = TimerC \<Longrightarrow> r \<noteq> Inl x"
  shows "client_inv d"
proof (cases "p = TimerC")
  case True
  then obtain x where "r = Inr x" using assms(4) by (cases r) auto
  then have "d = do_connect (take_c TimerC c)"
    using assms(3) True by (simp add: timer_fired_def)
  with assms(1,2) True show ?thesis
    by (auto simp: do_connect_def client_inv_def begin_op_def take_c_def count_list_remove1)
next
  case False
  note mid = client_mid_take [OF client_inv_mid [OF assms(1)] False]
  show ?thesis
  proof (cases r)
    case (Inl e)
    with assms(3) False obtain x where "d = fst (schedule_reconnect x (take_c p c))"
      by (cases p) (auto simp: resolved_def connect_done_def read_done_def write_done_def,
        (metis fst_conv)+)
    with client_inv_schedule [OF mid] show ?thesis by simp
  next
    case (Inr bs)
    have up: "client_mid ((take_c p c)\<lparr>cl_rxbuf := x\<rparr>)"
      "client_mid ((take_c p c)\<lparr>cl_open := True, cl_connected := True\<rparr>)"
      "cl_connected c \<Longrightarrow> client_mid ((take_c p c)\<lparr>cl_open := True\<rparr>)" for x
      using mid by (auto simp: client_mid_def take_c_def)
    show ?thesis
    proof (cases p)
      case (WriteC b)
      with assms(3) Inr have "cl_queue c \<noteq> []"
        "d = client_do_write ((take_c p c)\<lparr>cl_queue := tl (cl_queue c)\<rparr>)"
        by (auto simp: write_done_def take_c_def split: if_splits)
      moreover from this(1) have "client_inv ((take_c p c)\<lparr>cl_queue := tl (cl_queue c)\<rparr>)"
        using assms(1) mid drives_take_write [of b c] WriteC
        by (auto simp: client_inv_def client_mid_def) (simp_all add: take_c_def)
      ultimately show ?thesis using client_inv_write by simp
    qed (use False assms(3) Inr mid up in \<open>auto simp: resolved_def connect_done_def read_done_def
        set_connected_def client_do_read_def Let_def take_c_def split: if_splits
        intro!: client_inv_begin\<close>)
  qed
qed

lemma client_inv_step:
  assumes "client_inv c" and "client_step e c = Some (Done (d, outs))"
    and "\<And>x. e \<noteq> CompleteC TimerC (Inl x)"
  shows "client_inv d"
proof (cases e)
  case (CompleteC p r)
  with assms(2) have "p \<in> set (cl_pending c)" "client_complete p r (take_c p c) = Done (d, outs)"
    by (auto simp: take_c_def split: if_splits)
  with client_inv_complete [OF assms(1)] assms(3) CompleteC show ?thesis by blast
next
  case RunSendC
  then obtain b bs where "cl_posted c = b # bs" "d = client_send_handler b (c\<lparr>cl_posted := bs\<rparr>)"
    using assms(2) by (auto split: list.splits)
  with assms(1) show ?thesis
    by (auto simp: client_send_handler_def client_inv_def client_do_write_def begin_op_def Let_def)
qed (use assms in \<open>auto simp: client_inv_def send_frame_def\<close>)

lemma client_reach_inv: "client_reach c \<Longrightarrow> client_inv c"
proof (induction rule: client_reach.induct)
  case (client_starts h p)
  show ?case
    by (simp add: client_start_def do_connect_def new_client_def begin_op_def client_inv_def)
next
  case (client_steps c e d outs)
  then show ?case by (blast intro: client_inv_step)
qed

section \<open>Ordered writes\<close>

definition client_ready :: "ipc_client \<Rightarrow> bool" where
  "client_ready c \<longleftrightarrow> cl_connected c \<and> cl_open c"

fun written_buffer :: "client_op \<Rightarrow> bytes list" where
  "written_buffer (WriteC b) = [b]"
| "written_buffer _ = []"

definition client_writes :: "ipc_client \<Rightarrow> ipc_client \<Rightarrow> bytes list" where
  "client_writes c d = concat (map written_buffer (drop (length (cl_pending c)) (cl_pending d)))"

definition client_enqueue :: "bytes \<Rightarrow> ipc_client \<Rightarrow> ipc_client \<times> bytes list" where
  "client_enqueue b c = (let d = client_send_handler b c in (d, client_writes c d))"

definition client_written :: "ipc_client \<Rightarrow> (ipc_client \<times> bytes list) cpp" where
  "client_written c = map_cpp (\<lambda>(d, outs). (d, client_writes c d)) (write_done (Inr []) c)"

interpretation client_writer: async_writer cl_queue client_ready client_enqueue client_written
proof
  fix c d :: ipc_client and b w
  assume "client_ready c" and "client_enqueue b c = (d, w)"
  then show "client_ready d \<and> cl_queue d = cl_queue c @ [b] \<and> w = (if cl_queue c = [] then [b] else [])"
    by (auto simp: client_enqueue_def client_ops client_writes_def client_ready_def)
next
  fix c d :: ipc_client and b w
  assume "\<not> client_ready c" and "client_enqueue b c = (d, w)"
  then show "\<not> client_ready d \<and> cl_queue d = cl_queue c \<and> w = []"
    by (auto simp: client_enqueue_def client_ops client_writes_def client_ready_def)
next
  fix c :: ipc_client and b q
  assume "client_ready c" and "cl_queue c = b # q"
  then show "\<exists>d. client_written c = Done (d, take 1 q) \<and> client_ready d \<and> cl_queue d = q"
    by (cases q) (auto simp: client_written_def client_ops client_writes_def client_ready_def)
qed

section \<open>Concrete runs\<close>

text \<open>A client that lost its connection while a write was in progress.\<close>

definition lost_client :: ipc_client where
  "lost_client = \<lparr>cl_host = ''127.0.0.1'', cl_port = 7777, cl_open = False, cl_connected = False,
     reconnect_scheduled = True, cl_rxbuf = [], cl_queue = [], cl_posted = [],
     cl_pending = [WriteC (encode \<lparr>ftype = Command, payload = []\<rparr>), TimerC]\<rparr>"

definition up_client :: ipc_client where
  "up_client = \<lparr>cl_host = ''127.0.0.1'', cl_port = 7777, cl_open = True, cl_connected = True,
     reconnect_scheduled = False, cl_rxbuf = [], cl_queue = [], cl_posted = [],
     cl_pending = [ReadC]\<rparr>"

lemma reach_up_client: "client_reach up_client"
proof -
  let ?c = "client_start (new_client ''127.0.0.1'' 7777)"
  let ?d = "?c\<lparr>cl_pending := [ConnectC]\<rparr>"
  have 1: "client_step (CompleteC ResolveC (Inr [])) ?c = Some (Done (?d, []))"
    by (simp add: client_start_def new_client_def client_ops)
  have "\<exists>x. client_step (CompleteC ConnectC (Inr [])) ?d = Some (Done (up_client, [ConnState True x]))"
    by (simp add: client_start_def new_client_def client_ops up_client_def)
  then obtain x where 2: "client_step (CompleteC ConnectC (Inr [])) ?d
      = Some (Done (up_client, [ConnState True x]))" ..
  show ?thesis
    by (rule client_steps [OF client_steps [OF client_starts 1] 2]) simp_all
qed

lemma reach_lost_client: "client_reach lost_client"
proof -
  let ?b = "encode \<lparr>ftype = Command, payload = []\<rparr>"
  let ?p = "up_client\<lparr>cl_posted := [?b]\<rparr>"
  let ?q = "up_client\<lparr>cl_queue := [?b], cl_pending := [ReadC, WriteC ?b]\<rparr>"
  have 1: "client_step (SendFrame \<lparr>ftype = Command, payload = []\<rparr>) up_client = Some (Done (?p, []))"
    by (simp add: send_frame_def up_client_def)
  have 2: "client_step RunSendC ?p = Some (Done (?q, []))"
    by (simp add: client_ops up_client_def)
  have 3: "client_step (CompleteC ReadC (Inl ''End of file'')) ?q
      = Some (Done (lost_client, [ConnState False ''connection lost: End of file'']))"
    by (simp add: client_ops up_client_def lost_client_def)
  show ?thesis
    by (rule client_steps [OF client_steps [OF client_steps [OF reach_up_client 1] 2] 3]) simp_all
qed

section \<open>Properties\<close>

text \<open>The UI client has the same race as the daemon's session: when the connection is lost
  while a write is in progress, and that write had already succeeded, its handler pops the
  queue that the reconnection emptied, in every reachable state.\<close>
lemma client_write_completion_race:
  assumes "client_reach c" and "WriteC b \<in> set (cl_pending c)" and "\<not> cl_connected c"
  shows "client_step (CompleteC (WriteC b) (Inr x)) c = Some UB"
  using client_reach_inv [OF assms(1)] assms(2,3) by (simp add: client_inv_def write_done_def)

lemma client_race_reached:
  "client_reach lost_client"
  "client_step (CompleteC (WriteC (encode \<lparr>ftype = Command, payload = []\<rparr>)) (Inr [])) lost_client = Some UB"
  by (rule reach_lost_client)
    (rule client_write_completion_race [OF reach_lost_client]; simp add: lost_client_def)

text \<open>C34: The client never gives up: in every reachable state it is resolving, connecting,
  reading or waiting for its reconnection timer, and a scheduled reconnection has exactly
  one timer running; frames are queued only on an open, connected socket.\<close>
theorem client_never_gives_up:
  assumes "client_reach c"
  shows "(\<exists>p. p \<in> set (cl_pending c) \<and> p \<in> {ResolveC, ConnectC, TimerC, ReadC})
    \<and> count_list (cl_pending c) TimerC = (if reconnect_scheduled c then 1 else 0)
    \<and> (cl_connected c \<and> cl_open c \<or> cl_queue c = [])"
proof -
  have i: "client_inv c" using assms by (rule client_reach_inv)
  then obtain p where "p \<in> set (cl_pending c)" "drives p"
    by (auto simp: client_inv_def filter_empty_conv)
  moreover from this(2) have "p \<in> {ResolveC, ConnectC, TimerC, ReadC}" by (cases p) auto
  ultimately have "\<exists>p. p \<in> set (cl_pending c) \<and> p \<in> {ResolveC, ConnectC, TimerC, ReadC}"
    by blast
  with i show ?thesis by (simp add: client_inv_def)
qed

theorem client_never_gives_up_witness:
  "\<exists>p. p \<in> set (cl_pending lost_client) \<and> p \<in> {ResolveC, ConnectC, TimerC, ReadC}"
  using client_never_gives_up [OF reach_lost_client] by blast

end
