(* ===== verification/Ui_Text.thy ===== *)
theory Ui_Text
  imports GS_Prelude Protocol
begin

text \<open>
  The text functions of the terminal UI, \<open>trim_rows\<close> to \<open>render_packet_table_text\<close> of
  \<open>ui/src/ui_app.cpp\<close>. Strings are shorter than \<open>2 ^ 31\<close> octets, so the
  casts of their sizes to \<open>int\<close> do not wrap. \<open>localtime_r\<close> is the parameter \<open>local_tm\<close>: hour,
  minute and second of a time in seconds.
\<close>

section \<open>Rows\<close>

type_synonym packet_row = "packet_meta \<times> string"

text \<open>\<open>while (q.size() > maxn) q.pop_front()\<close>.\<close>

fun trim_rows :: "'a list \<Rightarrow> nat \<Rightarrow> 'a list" where
  "trim_rows [] maxn = []"
| "trim_rows (x # q) maxn = (if length (x # q) > maxn then trim_rows q maxn else x # q)"

lemma trim_rows_last_n: "trim_rows q n = last_n n q"
proof (induction q)
  case Nil
  then show ?case by (simp add: last_n_def)
next
  case (Cons x q)
  then show ?case
    by (cases "n < length (x # q)") (auto simp: last_n_def Suc_diff_le)
qed

section \<open>Fields\<close>

definition two_digits :: "nat \<Rightarrow> string" where
  "two_digits n = (if length (dec n) < 2 then replicate (2 - length (dec n)) CHR ''0'' @ dec n else dec n)"

definition fmt_time_local :: "(u64 \<Rightarrow> nat \<times> nat \<times> nat) \<Rightarrow> u64 \<Rightarrow> string" where
  "fmt_time_local local_tm ts =
     (let (hour, minute, second) = local_tm (ts div 1000000000)
      in two_digits hour @ '':'' @ two_digits minute @ '':'' @ two_digits second)"

definition pad_left :: "string \<Rightarrow> int \<Rightarrow> string" where
  "pad_left s w = (if int (length s) \<ge> w then s
     else replicate (nat (w - int (length s))) CHR '' '' @ s)"

text \<open>A negative width becomes the largest \<open>size_t\<close>, and \<open>substr\<close> keeps everything.\<close>

definition pad_right :: "string \<Rightarrow> int \<Rightarrow> string" where
  "pad_right s w = (if int (length s) \<ge> w then (if w < 0 then s else take (nat w) s)
     else s @ replicate (nat (w - int (length s))) CHR '' '')"

text \<open>The ellipsis of the source text, three octets of UTF-8.\<close>

definition ellipsis :: string where
  "ellipsis = [CHR 0xE2, CHR 0x80, CHR 0xA6]"

definition trunc_ellipsis :: "string \<Rightarrow> int \<Rightarrow> string" where
  "trunc_ellipsis s w =
     (if w \<le> 0 then []
      else if int (length s) \<le> w then s
      else if w \<le> 1 then take 1 s
      else take (nat (w - 1)) s @ ellipsis)"

definition is_blank :: "char \<Rightarrow> bool" where
  "is_blank c \<longleftrightarrow> c = CHR '' '' \<or> c = CHR 0x09 \<or> c = CHR 0x0D \<or> c = CHR 0x0A"

definition trim :: "string \<Rightarrow> string" where
  "trim s = rev (dropWhile is_blank (rev (dropWhile is_blank s)))"

section \<open>The packet table\<close>

text \<open>Name, width and right alignment.\<close>

definition cols :: "(string \<times> int \<times> bool) list" where
  "cols = [(''TS'', 8, False), (''VER'', 3, True), (''TYP'', 3, True), (''SHF'', 3, True),
     (''APID'', 5, True), (''SEQF'', 4, True), (''SEQ'', 5, True), (''LEN'', 5, True),
     (''SVC'', 3, True), (''SSV'', 4, True)]"

definition newline_char :: char where "newline_char = CHR 0x0A"

definition base_width :: int where
  "base_width = sum_list (map (\<lambda>(nm, w, r). w + 1) cols)"

definition desc_width :: "int \<Rightarrow> int" where
  "desc_width term_w = (let desc_w = max 10 (term_w - base_width - 1) in min desc_w 80)"

definition row_values :: "(u64 \<Rightarrow> nat \<times> nat \<times> nat) \<Rightarrow> packet_meta \<Rightarrow> string list" where
  "row_values local_tm m =
     [fmt_time_local local_tm (ts_ns m), dec (unat (ver m)), dec (unat (ptyp m)), dec (unat (shf m)),
      dec (unat (apid m)), dec (unat (seqf m)), dec (unat (seqc m)), dec (unat (dlen m)),
      dec (unat (svc m)), dec (unat (ssvc m))]"

definition header_line :: "int \<Rightarrow> string" where
  "header_line desc_w = concat (map (\<lambda>(nm, w, r). pad_right nm w @ '' '') cols) @ pad_right ''DESC'' desc_w"

definition row_line :: "(u64 \<Rightarrow> nat \<times> nat \<times> nat) \<Rightarrow> int \<Rightarrow> packet_row \<Rightarrow> string" where
  "row_line local_tm desc_w row =
     concat (map (\<lambda>((nm, w, r), v). (if r then pad_left v w else pad_right v w) @ '' '')
       (zip cols (row_values local_tm (fst row))))
     @ pad_right (trunc_ellipsis (snd row) desc_w) desc_w"

text \<open>The newest rows first, at most \<open>max_rows\<close>.\<close>

definition render_packet_table_text ::
    "(u64 \<Rightarrow> nat \<times> nat \<times> nat) \<Rightarrow> packet_row list \<Rightarrow> int \<Rightarrow> int \<Rightarrow> string" where
  "render_packet_table_text local_tm rows max_rows term_w =
     (let desc_w = desc_width term_w; total_w = base_width + desc_w in
      header_line desc_w @ [newline_char]
      @ replicate (nat (max 0 total_w)) CHR ''-'' @ [newline_char]
      @ concat (map (\<lambda>row. row_line local_tm desc_w row @ [newline_char])
          (take (nat max_rows) (rev rows))))"

section \<open>Widths\<close>

lemma length_pad_left: "0 \<le> w \<Longrightarrow> length (pad_left s w) = max (nat w) (length s)"
  by (auto simp: pad_left_def)

lemma length_pad_right: "0 \<le> w \<Longrightarrow> length (pad_right s w) = nat w"
  by (auto simp: pad_right_def)

lemma length_dec_less: "n < 10 ^ k \<Longrightarrow> 0 < k \<Longrightarrow> length (dec n) \<le> k"
proof (induction k arbitrary: n)
  case 0
  then show ?case by simp
next
  case (Suc k)
  show ?case
  proof (cases "n < 10")
    case True
    then show ?thesis by (simp add: dec.simps [of n])
  next
    case False
    then have "0 < k" using Suc.prems(1) by (cases k) auto
    moreover have "n div 10 < 10 ^ k" using Suc.prems(1) by (simp add: less_mult_imp_div_less mult.commute)
    ultimately show ?thesis using Suc.IH [of "n div 10"] False by (simp add: dec.simps [of n])
  qed
qed

lemma length_two_digits: "n < 100 \<Longrightarrow> length (two_digits n) = 2"
  using length_dec_less [of n 2] by (simp add: two_digits_def)

definition clock_fields_ok :: "(u64 \<Rightarrow> nat \<times> nat \<times> nat) \<Rightarrow> bool" where
  "clock_fields_ok local_tm \<longleftrightarrow>
     (\<forall>t. case local_tm t of (h, m, s) \<Rightarrow> h < 100 \<and> m < 100 \<and> s < 100)"

lemma length_fmt_time:
  assumes "clock_fields_ok local_tm"
  shows "length (fmt_time_local local_tm ts) = 8"
proof -
  obtain h m s where t: "local_tm (ts div 1000000000) = (h, m, s)" by (cases "local_tm (ts div 1000000000)")
  with assms have "h < 100 \<and> m < 100 \<and> s < 100" by (auto simp: clock_fields_ok_def split: prod.splits)
  with t show ?thesis by (simp add: fmt_time_local_def length_two_digits)
qed

lemma base_width_eq: "base_width = 53"
  by (simp add: base_width_def cols_def)

lemma desc_width_bounds: "10 \<le> desc_width w \<and> desc_width w \<le> 80"
  by (simp add: desc_width_def)

lemma length_header_line: "0 \<le> w \<Longrightarrow> int (length (header_line w)) = 53 + w"
  by (simp add: header_line_def cols_def length_pad_right)

lemma length_dec_field:
  "length (dec (unat (x :: byte))) \<le> 3" "length (dec (unat (y :: u16))) \<le> 5"
  using unat_less_byte [of x] unat_less_u16 [of y]
  by (intro length_dec_less; simp add: order_less_trans [of _ 256] order_less_trans [of _ 65536])+

lemma length_row_line:
  assumes "clock_fields_ok local_tm" and "0 \<le> w"
  shows "int (length (row_line local_tm w row)) = 53 + w"
proof -
  have "length (dec (unat (x :: byte))) \<le> 4" "max 3 (length (dec (unat x))) = 3"
    "max 4 (length (dec (unat x))) = 4" for x :: byte
    using length_dec_field(1) [of x] by auto
  moreover have "max 5 (length (dec (unat (y :: u16)))) = 5" for y :: u16
    using length_dec_field(2) [of y] by auto
  ultimately show ?thesis
    using assms by (simp add: row_line_def cols_def row_values_def length_pad_left length_pad_right)
qed

section \<open>Properties\<close>

text \<open>The packet table is rectangular: a header, a rule and one line for each of the newest
  rows, newest first, all of the same number of octets, 53 for the ten columns and 10 to 80
  for the description, whatever the metadata and the description are.\<close>
lemma packet_table_rectangular:
  assumes "clock_fields_ok local_tm"
  shows "\<exists>ls. render_packet_table_text local_tm rows max_rows term_w
      = concat (map (\<lambda>l. l @ [newline_char]) ls)
    \<and> length ls = 2 + min (nat max_rows) (length rows)
    \<and> (\<forall>l \<in> set ls. int (length l) = 53 + desc_width term_w)
    \<and> drop 2 ls = map (row_line local_tm (desc_width term_w)) (take (nat max_rows) (rev rows))"
proof -
  let ?w = "desc_width term_w"
  let ?ls = "header_line ?w # replicate (nat (max 0 (base_width + ?w))) CHR ''-''
    # map (row_line local_tm ?w) (take (nat max_rows) (rev rows))"
  have w: "0 \<le> ?w" using desc_width_bounds [of term_w] by simp
  have "\<forall>l \<in> set ?ls. int (length l) = 53 + ?w"
    using length_header_line [OF w] length_row_line [OF assms w] w by (auto simp: base_width_eq)
  then show ?thesis
    by (intro exI [of _ ?ls]) (simp add: render_packet_table_text_def Let_def comp_def)
qed

text \<open>A description that is too long is not shown with its ellipsis: the three octets of the
  ellipsis are cut to one by the padding that follows, and the cell ends in a lone lead
  octet, which is not UTF-8.\<close>
lemma long_description_cut_inside_ellipsis:
  assumes "1 < w" and "w < int (length s)"
  shows "pad_right (trunc_ellipsis s w) w = take (nat w - 1) s @ [CHR 0xE2]"
  using assms
  by (auto simp: pad_right_def trunc_ellipsis_def ellipsis_def nat_diff_distrib min_def)

end
