(* ===== verification/Ui_App.thy ===== *)
theory Ui_App
  imports GS_Prelude Cpp_Numbers Protocol Space_Packet Mission Ipc_Client Ui_Text
begin

text \<open>
  The terminal UI: \<open>ui/src/ui_app.cpp\<close> and \<open>ui/include/exn/ui/ui_app.hpp\<close>. Its state, the
  callbacks of the IPC client, the housekeeping task and the key handler, and the program
  as a sequence of handlers of its two threads. Between handlers the threads share only
  atomics and what the mutex guards, so a handler is one step. FTXUI is the environment:
  \<open>edit\<close> is what its input component does with a key (whether it handled it, and the text
  after it), what is drawn is in Ui_View, and leaving the screen loop ends the run. The CCSDSPack library is
  the parameter \<open>L\<close>.
\<close>

section \<open>State\<close>

datatype key = Escape | Return | Character char | OtherKey nat

record ui =
  daemon_line :: string
  device_line :: string
  notice_line :: string
  tx_rows :: "packet_row list"
  rx_rows :: "packet_row list"
  daemon_connected :: bool
  device_connected :: bool
  hk_enabled :: bool
  tc_sequence :: u16
  hk_armed :: bool
  hk_posted :: nat
  client :: ipc_client
  cmd_mode :: bool
  help_mode :: bool
  cmd_input :: string
  running :: bool

text \<open>The state when \<open>run\<close> has started the client, the timer and the screen.\<close>

definition ui_start :: "string \<Rightarrow> u16 \<Rightarrow> ui" where
  "ui_start h p = \<lparr>daemon_line = ''CONNECTING'', device_line = ''UNKNOWN'', notice_line = [],
     tx_rows = [], rx_rows = [], daemon_connected = False, device_connected = False,
     hk_enabled = False, tc_sequence = 1, hk_armed = True, hk_posted = 0,
     client = client_start (new_client h p), cmd_mode = False, help_mode = False, cmd_input = [],
     running = True\<rparr>"

section \<open>Operations\<close>

definition push_tx :: "packet_meta \<Rightarrow> string \<Rightarrow> ui \<Rightarrow> ui" where
  "push_tx m desc u = u\<lparr>tx_rows := trim_rows (tx_rows u @ [(m, desc)]) 5000\<rparr>"

definition push_rx :: "packet_meta \<Rightarrow> string \<Rightarrow> ui \<Rightarrow> ui" where
  "push_rx m desc u = u\<lparr>rx_rows := trim_rows (rx_rows u @ [(m, desc)]) 5000\<rparr>"

definition set_notice :: "string \<Rightarrow> ui \<Rightarrow> ui" where
  "set_notice message u = u\<lparr>notice_line := message\<rparr>"

definition send_system_hk :: "'p ccsdspack \<Rightarrow> ui \<Rightarrow> ui" where
  "send_system_hk L u =
     (case build_pus_c_tc L APID_OBC (tc_sequence u) SVC_HK SUB_SYS_HK_REQUEST PUSID_GS
             EXN_PUS_TC_ACK_READ_DEFAULT [] of
        (ok, packet, error) \<Rightarrow>
          if \<not> ok then set_notice (''ERROR: cannot build PUS-C System HK TC: '' @ error) u
          else u\<lparr>client := send_packet packet (client u),
                 tc_sequence := (tc_sequence u + 1) AND 0x3FFF\<rparr>)"

text \<open>The handler of the 30 s timer; \<open>Inl\<close> is a cancelled wait.\<close>

definition hk_timer_fired :: "'p ccsdspack \<Rightarrow> string + unit \<Rightarrow> ui \<Rightarrow> ui" where
  "hk_timer_fired L r u =
     (case r of
        Inl e \<Rightarrow> u\<lparr>hk_armed := False\<rparr>
      | Inr _ \<Rightarrow>
          (let u = (if hk_enabled u \<and> daemon_connected u \<and> device_connected u
                    then send_system_hk L u else u)
           in u\<lparr>hk_armed := True\<rparr>))"

definition connection_changed :: "bool \<Rightarrow> string \<Rightarrow> ui \<Rightarrow> ui" where
  "connection_changed connected detail u =
     (let u = u\<lparr>daemon_connected := connected\<rparr>;
          u = (if \<not> connected then u\<lparr>device_connected := False\<rparr> else u);
          u = u\<lparr>daemon_line := (if connected then ''CONNECTED '' @ detail else ''RECONNECTING '' @ detail)\<rparr>
      in if \<not> connected then u\<lparr>device_line := ''UNKNOWN''\<rparr> else u)"

text \<open>\<open>set_on_frame\<close>'s callback; \<open>PacketMeta m; std::string desc;\<close> are fresh.\<close>

definition frame_shown :: "frame \<Rightarrow> ui \<Rightarrow> ui cpp" where
  "frame_shown f u =
     (case ftype f of
        Hello \<Rightarrow> map_cpp (\<lambda>r. case r of None \<Rightarrow> u
            | Some server \<Rightarrow> set_notice (''IPC handshake: '' @ server) u) (unpack_string (payload f))
      | LinkStateMsg \<Rightarrow> map_cpp (\<lambda>r. case r of None \<Rightarrow> u
            | Some s \<Rightarrow> u\<lparr>device_connected := starts_with s ''CONNECTED'', device_line := s\<rparr>)
            (unpack_string (payload f))
      | PacketRx \<Rightarrow> (case unpack_packet_meta (payload f) empty_meta [] of
            (ok, m, desc) \<Rightarrow> Done (if \<not> ok then u else push_rx m desc u))
      | PacketTx \<Rightarrow> (case unpack_packet_meta (payload f) empty_meta [] of
            (ok, m, desc) \<Rightarrow> Done (if \<not> ok then u else push_tx m desc u))
      | QueryResult \<Rightarrow> map_cpp (\<lambda>r. case r of None \<Rightarrow> u | Some s \<Rightarrow> set_notice s u)
            (unpack_string (payload f))
      | ErrorMsg \<Rightarrow> map_cpp (\<lambda>r. case r of None \<Rightarrow> u | Some s \<Rightarrow> set_notice (''ERROR: '' @ s) u)
            (unpack_string (payload f))
      | _ \<Rightarrow> Done u)"

fun client_callback :: "client_out \<Rightarrow> ui \<Rightarrow> ui cpp" where
  "client_callback (ConnState b x) u = Done (connection_changed b x u)"
| "client_callback (GotFrame f) u = frame_shown f u"

text \<open>Enter in the command bar, the text trimmed and in upper case.\<close>

definition submit_command :: "string \<Rightarrow> ui \<Rightarrow> ui" where
  "submit_command command u =
     (if command = ''HK_ENABLE'' then set_notice ''periodic System HK enabled'' (u\<lparr>hk_enabled := True\<rparr>)
      else if command = ''HK_DISABLE'' then
        set_notice ''periodic System HK disabled'' (u\<lparr>hk_enabled := False\<rparr>)
      else if command = ''HK_REQ'' then
        (if daemon_connected u \<and> device_connected u
         then set_notice ''System HK request queued'' (u\<lparr>hk_posted := Suc (hk_posted u)\<rparr>)
         else set_notice ''ERROR: HK_REQ requires daemon IPC and device link to be connected'' u)
      else if \<not> daemon_connected u then set_notice ''ERROR: daemon IPC is not connected'' u
      else set_notice (''sent daemon command: '' @ command)
             (u\<lparr>client := send_command command (client u)\<rparr>))"

text \<open>The key handler and whether it took the key.\<close>

definition ui_key :: "(key \<Rightarrow> string \<Rightarrow> bool \<times> string) \<Rightarrow> key \<Rightarrow> ui \<Rightarrow> bool \<times> ui" where
  "ui_key edit e u =
     (if help_mode u then
        (if e = Escape \<or> e = Character CHR ''h'' then (True, u\<lparr>help_mode := False\<rparr>) else (True, u))
      else if cmd_mode u then
        (if e = Escape then (True, u\<lparr>cmd_mode := False\<rparr>)
         else if e = Return then
           (let command = uppercase (trim (cmd_input u))
            in if command \<noteq> [] then (True, (submit_command command u)\<lparr>cmd_input := []\<rparr>) else (True, u))
         else (let (handled, txt) = edit e (cmd_input u) in (handled, u\<lparr>cmd_input := txt\<rparr>)))
      else if e = Character CHR ''q'' \<or> e = Escape then (True, u\<lparr>running := False\<rparr>)
      else if e = Character CHR ''h'' then (True, u\<lparr>help_mode := True\<rparr>)
      else if e = Character CHR ''c'' then (True, u\<lparr>cmd_mode := True\<rparr>)
      else (False, u))"

section \<open>Runs\<close>

datatype ui_event =
    Key key
  | HkTimer "string + unit"
  | RunHkRequest
  | ClientEvent client_event

text \<open>
  One handler. The client's own events are its posted handlers and completions; frames are
  sent only by the UI's handlers.
\<close>

fun ui_step :: "'p ccsdspack \<Rightarrow> (key \<Rightarrow> string \<Rightarrow> bool \<times> string) \<Rightarrow> ui_event \<Rightarrow> ui \<Rightarrow> ui cpp option" where
  "ui_step L edit (Key e) u = (if running u then Some (Done (snd (ui_key edit e u))) else None)"
| "ui_step L edit (HkTimer r) u = (if hk_armed u then Some (Done (hk_timer_fired L r u)) else None)"
| "ui_step L edit RunHkRequest u =
     (if hk_posted u = 0 then None
      else Some (Done (send_system_hk L (u\<lparr>hk_posted := hk_posted u - 1\<rparr>))))"
| "ui_step L edit (ClientEvent (SendFrame f)) u = None"
| "ui_step L edit (ClientEvent e) u =
     (case client_step e (client u) of
        None \<Rightarrow> None
      | Some r \<Rightarrow> Some (bind_cpp r (\<lambda>(c, outs). fold_cpp client_callback outs (u\<lparr>client := c\<rparr>))))"

inductive ui_reach :: "'p ccsdspack \<Rightarrow> (key \<Rightarrow> string \<Rightarrow> bool \<times> string) \<Rightarrow> ui \<Rightarrow> bool" for L edit where
  ui_starts: "ui_reach L edit (ui_start h p)"
| ui_steps: "ui_reach L edit u \<Longrightarrow> ui_step L edit e u = Some (Done v) \<Longrightarrow> ui_reach L edit v"

lemmas ui_ops [unfold_ops] = push_tx_def push_rx_def set_notice_def connection_changed_def Let_def

section \<open>Invariant\<close>

text \<open>What an observer of the client's callbacks believes about \<open>connected_\<close>.\<close>

fun told :: "bool \<Rightarrow> client_out list \<Rightarrow> bool" where
  "told b [] = b"
| "told b (ConnState s x # os) = told s os"
| "told b (GotFrame f # os) = told b os"

lemma told_frames [simp]: "told b (map GotFrame fs) = b"
  by (induction fs) auto

lemma schedule_reconnect_told:
  "schedule_reconnect e c = (d, outs) \<Longrightarrow> cl_connected d = told (cl_connected c) outs"
  by (auto simp: client_ops split: if_splits)

lemma client_step_told:
  assumes "client_step e c = Some (Done (d, outs))"
  shows "cl_connected d = told (cl_connected c) outs"
proof (cases e)
  case (CompleteC p r)
  let ?c = "c\<lparr>cl_pending := remove1 p (cl_pending c)\<rparr>"
  have k: "client_complete p r ?c = Done (d, outs)"
    using assms CompleteC by (auto split: if_splits)
  have "cl_connected d = told (cl_connected ?c) outs"
  proof (cases r)
    case (Inl x)
    with k show ?thesis
      by (cases p) (auto simp: resolved_def connect_done_def timer_fired_def read_done_def write_done_def
          dest: schedule_reconnect_told)
  next
    case (Inr bs)
    with k show ?thesis
      by (cases p) (auto simp: resolved_def connect_done_def timer_fired_def read_done_def write_done_def
          do_connect_def begin_op_def client_do_read_def client_do_write_def Ipc_Client.set_connected_def
          Let_def split: if_splits)
  qed
  then show ?thesis by simp
next
  case RunSendC
  with assms show ?thesis
    by (auto simp: client_send_handler_def client_do_write_def begin_op_def Let_def split: list.splits if_splits)
qed (use assms in \<open>auto simp: send_frame_def\<close>)

definition ui_inv :: "ui \<Rightarrow> bool" where
  "ui_inv u \<longleftrightarrow> (device_connected u \<longleftrightarrow> starts_with (device_line u) ''CONNECTED'')
     \<and> (daemon_connected u \<longleftrightarrow> starts_with (daemon_line u) ''CONNECTED'')
     \<and> length (tx_rows u) \<le> 5000 \<and> length (rx_rows u) \<le> 5000 \<and> unat (tc_sequence u) < 16384"

lemma ui_inv_frame:
  assumes "frame_shown f u = Done v" and "ui_inv u"
  shows "ui_inv v \<and> daemon_connected v = daemon_connected u \<and> client v = client u"
  using assms
  by (auto simp: frame_shown_def ui_inv_def ui_ops trim_rows_last_n
      split: MsgType.splits option.splits prod.splits if_splits)

lemma connection_changed_keeps:
  "ui_inv u \<Longrightarrow> ui_inv (connection_changed b x u)"
  "daemon_connected (connection_changed b x u) = b"
  "client (connection_changed b x u) = client u"
  by (cases b; simp add: connection_changed_def ui_inv_def Let_def starts_with_def)+

lemma ui_callbacks:
  "fold_cpp client_callback outs u = Done v \<Longrightarrow> ui_inv u \<Longrightarrow>
     ui_inv v \<and> daemon_connected v = told (daemon_connected u) outs \<and> client v = client u"
proof (induction outs arbitrary: u)
  case Nil
  then show ?case by simp
next
  case (Cons out outs)
  then obtain w where w: "client_callback out u = Done w" "fold_cpp client_callback outs w = Done v" by auto
  show ?case
  proof (cases out)
    case (ConnState b x)
    with w(1) have "w = connection_changed b x u" by simp
    with connection_changed_keeps [where u = u and b = b and x = x] Cons.prems(2)
    have "ui_inv w" "daemon_connected w = b" "client w = client u" by simp_all
    with Cons.IH [OF w(2)] ConnState show ?thesis by simp
  next
    case (GotFrame f)
    with w(1) ui_inv_frame [of f u w] Cons.prems(2)
    have "ui_inv w" "daemon_connected w = daemon_connected u" "client w = client u" by auto
    with Cons.IH [OF w(2)] GotFrame show ?thesis by simp
  qed
qed

lemma and_3FFF_less: "unat (x AND 0x3FFF :: u16) < 16384"
proof -
  have "x AND 0x3FFF = take_bit 14 x" by (simp add: take_bit_eq_mask mask_eq_exp_minus_1)
  then have "unat (x AND 0x3FFF) = take_bit 14 (unat x)" by (simp add: unsigned_take_bit_eq)
  also have "\<dots> < 2 ^ 14" by (rule take_bit_nat_less_exp)
  finally show ?thesis by simp
qed

lemma send_system_hk_keeps:
  "ui_inv u \<Longrightarrow> ui_inv (send_system_hk L u)"
  "daemon_connected (send_system_hk L u) = daemon_connected u"
  "cl_connected (client (send_system_hk L u)) = cl_connected (client u)"
  by (auto simp: send_system_hk_def ui_inv_def set_notice_def send_packet_def send_frame_def and_3FFF_less
      split: prod.splits)

lemma submit_keeps:
  "ui_inv u \<Longrightarrow> ui_inv (submit_command c u)"
  "daemon_connected (submit_command c u) = daemon_connected u"
  "cl_connected (client (submit_command c u)) = cl_connected (client u)"
  by (simp_all add: submit_command_def ui_inv_def set_notice_def send_command_def send_frame_def)

lemma ui_key_keeps:
  assumes "ui_inv u"
  shows "ui_inv (snd (ui_key edit e u)) \<and> daemon_connected (snd (ui_key edit e u)) = daemon_connected u
    \<and> cl_connected (client (snd (ui_key edit e u))) = cl_connected (client u)"
  using assms submit_keeps [where u = u and c = "uppercase (trim (cmd_input u))"]
  by (auto simp: ui_key_def Let_def ui_inv_def split: prod.splits)

lemma ui_step_keeps:
  assumes "ui_step L edit e u = Some (Done v)" and "ui_inv u"
    and "daemon_connected u = cl_connected (client u)"
  shows "ui_inv v \<and> daemon_connected v = cl_connected (client v)"
proof (cases e)
  case (Key k)
  with assms ui_key_keeps [of u edit k] show ?thesis by (auto split: if_splits)
next
  case (HkTimer r)
  with assms(1) have "v = hk_timer_fired L r u" by (auto split: if_splits)
  with assms(2,3) send_system_hk_keeps [where u = u and L = L] show ?thesis
    by (cases r) (auto simp: hk_timer_fired_def Let_def ui_inv_def)
next
  case RunHkRequest
  with assms(1) have v: "v = send_system_hk L (u\<lparr>hk_posted := hk_posted u - 1\<rparr>)"
    by (auto split: if_splits)
  have "ui_inv (u\<lparr>hk_posted := hk_posted u - 1\<rparr>)" using assms(2) by (simp add: ui_inv_def)
  with v assms(3) send_system_hk_keeps [where u = "u\<lparr>hk_posted := hk_posted u - 1\<rparr>" and L = L] show ?thesis
    by simp
next
  case (ClientEvent x)
  with assms(1) obtain c outs where c: "client_step x (client u) = Some (Done (c, outs))"
    "fold_cpp client_callback outs (u\<lparr>client := c\<rparr>) = Done v"
    by (cases x) (auto split: option.splits simp del: client_step.simps)
  have "ui_inv (u\<lparr>client := c\<rparr>)" using assms(2) by (simp add: ui_inv_def)
  with ui_callbacks [OF c(2)] client_step_told [OF c(1)] assms(3) show ?thesis by simp
qed

lemma ui_reach_inv: "ui_reach L edit u \<Longrightarrow> ui_inv u \<and> daemon_connected u = cl_connected (client u)"
proof (induction rule: ui_reach.induct)
  case (ui_starts h p)
  show ?case
    by (simp add: ui_start_def ui_inv_def client_start_def do_connect_def new_client_def begin_op_def
        starts_with_def)
next
  case (ui_steps u e v)
  then show ?case using ui_step_keeps by blast
qed

section \<open>Typing\<close>

definition press :: "(key \<Rightarrow> string \<Rightarrow> bool \<times> string) \<Rightarrow> key list \<Rightarrow> ui \<Rightarrow> ui" where
  "press edit ks u = foldl (\<lambda>u k. snd (ui_key edit k u)) u ks"

text \<open>What the input component documents: a typed character is inserted at the cursor, which is
  at the end of what was typed.\<close>

definition appends :: "(key \<Rightarrow> string \<Rightarrow> bool \<times> string) \<Rightarrow> bool" where
  "appends edit \<longleftrightarrow> (\<forall>c s. edit (Character c) s = (True, s @ [c]))"

definition type_at_end :: "key \<Rightarrow> string \<Rightarrow> bool \<times> string" where
  "type_at_end k s = (case k of Character c \<Rightarrow> (True, s @ [c]) | _ \<Rightarrow> (False, s))"

lemma appends_type_at_end: "appends type_at_end"
  by (simp add: appends_def type_at_end_def)

lemma press_characters:
  assumes "appends edit" and "cmd_mode u" and "\<not> help_mode u"
  shows "press edit (map Character s) u = u\<lparr>cmd_input := cmd_input u @ s\<rparr>"
  using assms(2,3)
proof (induction s arbitrary: u)
  case Nil
  then show ?case by (simp add: press_def)
next
  case (Cons c s)
  have "snd (ui_key edit (Character c) u) = u\<lparr>cmd_input := cmd_input u @ [c]\<rparr>"
    using assms(1) Cons.prems by (simp add: ui_key_def appends_def)
  with Cons.IH [of "u\<lparr>cmd_input := cmd_input u @ [c]\<rparr>"] Cons.prems show ?case
    by (simp add: press_def)
qed

section \<open>Housekeeping requests\<close>

definition hk_packet :: "'p ccsdspack \<Rightarrow> u16 \<Rightarrow> bytes" where
  "hk_packet L sq = fst (snd (build_pus_c_tc L APID_OBC sq SVC_HK SUB_SYS_HK_REQUEST PUSID_GS
     EXN_PUS_TC_ACK_READ_DEFAULT []))"

definition hk_builds :: "'p ccsdspack \<Rightarrow> u16 \<Rightarrow> bool" where
  "hk_builds L sq \<longleftrightarrow> fst (build_pus_c_tc L APID_OBC sq SVC_HK SUB_SYS_HK_REQUEST PUSID_GS
     EXN_PUS_TC_ACK_READ_DEFAULT [])"

lemma send_system_hk_ok:
  assumes "hk_builds L (tc_sequence u)"
  shows "send_system_hk L u = u\<lparr>client := (client u)\<lparr>cl_posted := cl_posted (client u)
      @ [encode \<lparr>ftype = PacketSend, payload = hk_packet L (tc_sequence u)\<rparr>]\<rparr>,
    tc_sequence := (tc_sequence u + 1) AND 0x3FFF\<rparr>"
  using assms
  by (auto simp: send_system_hk_def hk_builds_def hk_packet_def send_packet_def send_frame_def
      split: prod.splits)

lemma mask_14_next: "((x AND 0x3FFF) + 1) AND 0x3FFF = (x + 1 AND 0x3FFF :: u16)"
proof -
  have m: "y AND 0x3FFF = take_bit 14 y" for y :: u16
    by (simp add: take_bit_eq_mask mask_eq_exp_minus_1)
  have "((unat x mod 16384 + 1) mod 65536) mod 16384 = ((unat x + 1) mod 65536) mod (16384 :: nat)"
  proof -
    have "unat x mod 16384 + 1 < 65536" using mod_less_divisor [of 16384 "unat x"] by simp
    moreover have "((unat x + 1) mod 65536) mod 16384 = (unat x + 1) mod (16384 :: nat)"
      by (rule mod_mod_cancel) simp
    ultimately show ?thesis by (simp add: mod_Suc_eq)
  qed
  then show ?thesis unfolding m
    by (intro word_unat_eq_iff [THEN iffD2])
      (simp add: unsigned_take_bit_eq unat_word_ariths take_bit_eq_mod)
qed

section \<open>Properties\<close>

text \<open>C35: The UI's flags are true in every reachable state: it counts the daemon as connected
  exactly when the client is, and the device exactly while the line it shows for it begins
  with CONNECTED. Scheduled housekeeping traffic leaves only when it is enabled and both
  hold. At most 5000 rows are kept in each table, and the packet counter has 14 bits.\<close>
theorem ui_flags_and_gating:
  assumes "ui_reach L edit u"
  shows "(daemon_connected u \<longleftrightarrow> cl_connected (client u))
    \<and> (device_connected u \<longleftrightarrow> starts_with (device_line u) ''CONNECTED'')
    \<and> (client (hk_timer_fired L r u) \<noteq> client u \<longrightarrow>
        hk_enabled u \<and> cl_connected (client u) \<and> starts_with (device_line u) ''CONNECTED'')
    \<and> length (tx_rows u) \<le> 5000 \<and> length (rx_rows u) \<le> 5000 \<and> unat (tc_sequence u) < 2 ^ 14"
proof -
  have "client (hk_timer_fired L r u) \<noteq> client u \<longrightarrow> hk_enabled u \<and> daemon_connected u \<and> device_connected u"
    by (auto simp: hk_timer_fired_def Let_def split: sum.splits)
  with ui_reach_inv [OF assms] show ?thesis by (auto simp: ui_inv_def)
qed

theorem ui_flags_and_gating_witness:
  "cl_connected (client (ui_start ''127.0.0.1'' 7777)) = daemon_connected (ui_start ''127.0.0.1'' 7777)
    \<and> client (hk_timer_fired icd_pack (Inr ()) (ui_start ''127.0.0.1'' 7777))
        = client (ui_start ''127.0.0.1'' 7777)"
  using ui_flags_and_gating [OF ui_starts [where L = icd_pack and edit = type_at_end
      and h = "''127.0.0.1''" and p = 7777], where r = "Inr ()"]
  by (auto simp: ui_start_def)

text \<open>C36: What is typed into the command bar reaches the daemon as one command: from the closed
  bar of an empty input, \<open>c\<close>, the text and Enter send the text trimmed and in upper case, once,
  and neither quit nor open the help, whatever letters the text has, so long as it is not
  one of the three commands of the UI itself.\<close>
theorem typed_command_is_sent:
  assumes "appends edit" and "\<not> help_mode u" and "\<not> cmd_mode u" and "cmd_input u = []"
    and "daemon_connected u" and "uppercase (trim s) = command" and "command \<noteq> []"
    and "command \<notin> {''HK_ENABLE'', ''HK_DISABLE'', ''HK_REQ''}"
  shows "press edit ([Character CHR ''c''] @ map Character s @ [Return]) u
    = u\<lparr>cmd_mode := True, notice_line := ''sent daemon command: '' @ command,
        client := (client u)\<lparr>cl_posted := cl_posted (client u)
          @ [encode \<lparr>ftype = Command, payload = pack_string command\<rparr>]\<rparr>\<rparr>"
proof -
  let ?v = "u\<lparr>cmd_mode := True\<rparr>"
  have split: "press edit (ks @ ls) w = press edit ls (press edit ks w)" for ks ls w
    by (simp add: press_def)
  have open_bar: "press edit [Character CHR ''c''] u = ?v"
    using assms(2,3) by (simp add: press_def ui_key_def)
  have typed: "press edit (map Character s) ?v = ?v\<lparr>cmd_input := s\<rparr>"
    using press_characters [OF assms(1), of ?v s] assms(2,4) by simp
  have "press edit [Return] (?v\<lparr>cmd_input := s\<rparr>)
      = (submit_command command (?v\<lparr>cmd_input := s\<rparr>))\<lparr>cmd_input := []\<rparr>"
    using assms(2,6,7) by (simp add: press_def ui_key_def Let_def)
  also have "\<dots> = u\<lparr>cmd_mode := True, notice_line := ''sent daemon command: '' @ command,
        client := (client u)\<lparr>cl_posted := cl_posted (client u)
          @ [encode \<lparr>ftype = Command, payload = pack_string command\<rparr>]\<rparr>\<rparr>"
    using assms(4,5,8)
    by (cases u) (simp add: submit_command_def set_notice_def send_command_def send_frame_def)
  finally show ?thesis unfolding split open_bar typed .
qed

theorem typed_command_is_sent_witness:
  "press type_at_end ([Character CHR ''c''] @ map Character '' quick ping'' @ [Return])
      ((ui_start ''h'' 7)\<lparr>daemon_connected := True\<rparr>)
    = (ui_start ''h'' 7)\<lparr>daemon_connected := True, cmd_mode := True,
        notice_line := ''sent daemon command: '' @ ''QUICK PING'',
        client := (client (ui_start ''h'' 7))\<lparr>cl_posted := cl_posted (client (ui_start ''h'' 7))
          @ [encode \<lparr>ftype = Command, payload = pack_string ''QUICK PING''\<rparr>]\<rparr>\<rparr>"
proof -
  have "uppercase (trim '' quick ping'') = ''QUICK PING''"
    by code_simp
  from typed_command_is_sent [OF appends_type_at_end _ _ _ _ this, of "(ui_start ''h'' 7)\<lparr>daemon_connected := True\<rparr>"]
  show ?thesis by (simp add: ui_start_def)
qed

text \<open>Housekeeping requests are numbered consecutively modulo \<open>2 ^ 14\<close> and are never given a
  count that a packet cannot carry: with a library that builds the request for every 14-bit
  count, \<open>n\<close> requests post \<open>n\<close> packets to the daemon, in order.\<close>
lemma hk_requests_numbered:
  assumes "\<And>sq. unat sq < 2 ^ 14 \<Longrightarrow> hk_builds L sq" and "unat (tc_sequence u) < 2 ^ 14"
  shows "cl_posted (client ((send_system_hk L ^^ n) u)) = cl_posted (client u)
      @ map (\<lambda>i. encode \<lparr>ftype = PacketSend,
          payload = hk_packet L ((tc_sequence u + of_nat i) AND 0x3FFF)\<rparr>) [0..<n]
    \<and> tc_sequence ((send_system_hk L ^^ n) u) = (tc_sequence u + of_nat n) AND 0x3FFF"
proof (induction n)
  case 0
  have "tc_sequence u AND 0x3FFF = take_bit 14 (tc_sequence u)"
    by (simp add: take_bit_eq_mask mask_eq_exp_minus_1)
  also have "\<dots> = tc_sequence u"
    using assms(2) by (intro word_unat_eq_iff [THEN iffD2]) (simp add: unsigned_take_bit_eq take_bit_nat_eq_self)
  finally show ?case by simp
next
  case (Suc n)
  let ?v = "(send_system_hk L ^^ n) u"
  have "hk_builds L (tc_sequence ?v)"
    using Suc.IH and_3FFF_less [of "tc_sequence u + of_nat n"] by (intro assms(1)) simp
  from send_system_hk_ok [OF this] Suc.IH show ?case
    using mask_14_next [of "tc_sequence u + of_nat n"] by (simp add: ac_simps)
qed

end
