(* ===== verification/Ui_View.thy ===== *)
theory Ui_View
  imports GS_Prelude Protocol Ui_Text Ui_App
begin

text \<open>
  What the terminal UI draws: \<open>preformatted_block\<close> and the decisions of the main renderer of
  \<open>ui/src/ui_app.cpp\<close> (lamps, status line, the two tables, command bar and help), as a view of
  the state. \<open>Ui_Screen\<close> builds the
  elements from it. A terminal has nonnegative dimensions.
\<close>

section \<open>Lines\<close>

text \<open>\<open>preformatted_block\<close>: a newline ends a line, the text after the last one is a line too.\<close>

function split_lines :: "string \<Rightarrow> string list" where
  "split_lines s =
     (case dropWhile (\<lambda>c. c \<noteq> newline_char) s of
        [] \<Rightarrow> [s]
      | c # rest \<Rightarrow> takeWhile (\<lambda>c. c \<noteq> newline_char) s # split_lines rest)"
  by pat_completeness auto
termination
proof (relation "measure length", goal_cases)
  case (2 s c rest)
  then have "length (c # rest) \<le> length s" by (metis length_dropWhile_le)
  then show ?case by simp
qed simp

declare split_lines.simps [simp del]

lemma split_lines_Cons:
  "newline_char \<notin> set l \<Longrightarrow> split_lines (l @ newline_char # s) = l # split_lines s"
  by (simp add: split_lines.simps [of "l @ newline_char # s"] cut_before)

lemma split_lines_concat:
  "\<forall>l \<in> set ls. newline_char \<notin> set l \<Longrightarrow>
     split_lines (concat (map (\<lambda>l. l @ [newline_char]) ls)) = ls @ [[]]"
proof (induction ls)
  case Nil
  show ?case by (simp add: split_lines.simps [of "[]"])
next
  case (Cons l ls)
  then show ?case using split_lines_Cons [of l] by simp
qed

section \<open>The renderer\<close>

datatype color = Green | Yellow | Red | GrayLight | Black | White

record view =
  daemon_color :: color
  device_color :: color
  hk_color :: color
  hk_text :: string
  status_text :: string
  status_color :: color
  tx_lines :: "string list"
  rx_lines :: "string list"
  command_bar :: bool
  help_shown :: bool

definition table_rows :: "bool \<Rightarrow> nat \<Rightarrow> int" where
  "table_rows mode term_h =
     (let overhead = (if mode then 15 else 11);
          available_h = max 6 (int term_h - overhead)
      in max 1 (available_h - 3))"

definition main_view :: "(u64 \<Rightarrow> nat \<times> nat \<times> nat) \<Rightarrow> nat \<Rightarrow> nat \<Rightarrow> ui \<Rightarrow> view" where
  "main_view local_tm term_w term_h u =
     (let n = table_rows (cmd_mode u) term_h;
          table = (\<lambda>rows. split_lines (render_packet_table_text local_tm rows n (int (term_w div 2))))
      in \<lparr>daemon_color =
            (if starts_with (daemon_line u) ''CONNECTED'' then Green
             else if starts_with (daemon_line u) ''CONNECTING''
               \<or> starts_with (daemon_line u) ''RECONNECTING'' then Yellow
             else Red),
          device_color =
            (if starts_with (device_line u) ''CONNECTED'' then Green
             else if device_line u = ''UNKNOWN'' then Yellow else Red),
          hk_color = (if hk_enabled u then Green else Yellow),
          hk_text = (if hk_enabled u then ''enabled'' else ''disabled''),
          status_text = (if notice_line u = [] then ''Status: ready'' else ''Status: '' @ notice_line u),
          status_color = (if notice_line u = [] then GrayLight
             else if starts_with (notice_line u) ''ERROR'' then Red else GrayLight),
          tx_lines = table (tx_rows u),
          rx_lines = table (rx_rows u),
          command_bar = cmd_mode u,
          help_shown = help_mode u\<rparr>)"

section \<open>Rows are single lines\<close>

lemma newline_other [simp]:
  "newline_char \<noteq> CHR '' ''" "newline_char \<noteq> CHR '':''" "newline_char \<noteq> CHR ''-''" "newline_char \<noteq> CHR ''0''"
  by (simp_all add: newline_char_def)

lemma no_newline_dec: "newline_char \<notin> set (dec n)"
  using dec_decimal [of newline_char n] by (auto simp: newline_char_def is_decimal_def)

lemma no_newline_pad:
  "newline_char \<notin> set s \<Longrightarrow> newline_char \<notin> set (pad_left s w)"
  "newline_char \<notin> set s \<Longrightarrow> newline_char \<notin> set (pad_right s w)"
  "newline_char \<notin> set s \<Longrightarrow> newline_char \<notin> set (trunc_ellipsis s w)"
  by (auto simp: pad_left_def pad_right_def trunc_ellipsis_def ellipsis_def newline_char_def
      dest: in_set_takeD)

lemma no_newline_time: "newline_char \<notin> set (fmt_time_local local_tm ts)"
  using no_newline_dec by (auto simp: fmt_time_local_def two_digits_def split: prod.splits)

lemma no_newline_row:
  assumes "newline_char \<notin> set (snd row)"
  shows "newline_char \<notin> set (row_line local_tm w row)"
proof -
  have "newline_char \<notin> set v" if "v \<in> set (row_values local_tm m)" for v m
    using that no_newline_dec no_newline_time by (auto simp: row_values_def)
  then have "newline_char \<notin> set ((if r then pad_left v k else pad_right v k) @ '' '')"
    if "((nm, k, r), v) \<in> set (zip cols (row_values local_tm m))" for nm k r v m
    using that no_newline_pad [of v k] by (auto dest!: set_zip_rightD)
  then show ?thesis
    using no_newline_pad assms by (fastforce simp: row_line_def)
qed

lemma no_newline_header: "newline_char \<notin> set (header_line w)"
proof -
  have "list_all (\<lambda>(nm, k, r). newline_char \<notin> set nm) cols" and d: "newline_char \<notin> set ''DESC''"
    by (simp_all add: cols_def newline_char_def)
  then have "\<forall>c \<in> set cols. newline_char \<notin> set (case c of (nm, k, r) \<Rightarrow> pad_right nm k @ '' '')"
    by (auto simp: list_all_iff split: prod.splits dest: no_newline_pad(2))
  with no_newline_pad(2) [OF d] show ?thesis by (simp add: header_line_def)
qed

lemma table_lines:
  assumes "\<forall>row \<in> set rows. newline_char \<notin> set (snd row)"
  shows "split_lines (render_packet_table_text local_tm rows n w) =
    (let d = desc_width w in
     header_line d # replicate (nat (53 + d)) CHR ''-'' #
       map (row_line local_tm d) (take (nat n) (rev rows)) @ [[]])"
proof -
  let ?d = "desc_width w"
  let ?ls = "header_line ?d # replicate (nat (53 + ?d)) CHR ''-''
    # map (row_line local_tm ?d) (take (nat n) (rev rows))"
  have "\<forall>row \<in> set (take (nat n) (rev rows)). newline_char \<notin> set (snd row)"
    using assms by (metis in_set_takeD set_rev)
  then have "\<forall>l \<in> set ?ls. newline_char \<notin> set l"
    using no_newline_header no_newline_row by auto
  then have "split_lines (concat (map (\<lambda>l. l @ [newline_char]) ?ls)) = ?ls @ [[]]"
    by (rule split_lines_concat)
  moreover have "concat (map (\<lambda>l. l @ [newline_char]) ?ls) = render_packet_table_text local_tm rows n w"
    using desc_width_bounds [of w] by (simp add: render_packet_table_text_def Let_def base_width_eq comp_def)
  ultimately show ?thesis by (simp add: Let_def)
qed

lemma table_widths:
  assumes "clock_fields_ok local_tm" and "\<forall>row \<in> set rows. newline_char \<notin> set (snd row)"
    and "ls = split_lines (render_packet_table_text local_tm rows n w)"
  shows "drop 2 ls = map (row_line local_tm (desc_width w)) (take (nat n) (rev rows)) @ [[]]
    \<and> (\<forall>l \<in> set (butlast ls). int (length l) = 53 + desc_width w)"
proof -
  let ?d = "desc_width w"
  have d: "0 \<le> ?d" using desc_width_bounds [of w] by simp
  have ls: "ls = (header_line ?d # replicate (nat (53 + ?d)) CHR ''-''
      # map (row_line local_tm ?d) (take (nat n) (rev rows))) @ [[]]"
    using table_lines [OF assms(2)] assms(3) by (simp add: Let_def)
  then have "butlast ls = header_line ?d # replicate (nat (53 + ?d)) CHR ''-''
      # map (row_line local_tm ?d) (take (nat n) (rev rows))"
    by (simp only: butlast_snoc)
  with ls d show ?thesis
    by (auto simp: length_header_line length_row_line [OF assms(1) d])
qed

section \<open>Properties\<close>

text \<open>C37: The screen shows the state: in every reachable state the daemon's lamp is green exactly when the
  client is connected and the device's exactly when the device counts as connected, and each
  table, whatever the size of the terminal, is a header, a rule and the newest packets, newest first,
  as lines of one width, with one empty line after them (for descriptions without newlines).\<close>
theorem screen_shows_state:
  assumes "ui_reach L edit u" and "clock_fields_ok local_tm"
    and "\<forall>row \<in> set (tx_rows u) \<union> set (rx_rows u). newline_char \<notin> set (snd row)"
    and "n = nat (table_rows (cmd_mode u) term_h)" and "d = desc_width (int (term_w div 2))"
    and "v = main_view local_tm term_w term_h u"
  shows "(daemon_color v = Green \<longleftrightarrow> cl_connected (client u))
    \<and> (device_color v = Green \<longleftrightarrow> device_connected u)
    \<and> 1 \<le> n \<and> 10 \<le> d \<and> d \<le> 80
    \<and> drop 2 (tx_lines v) = map (row_line local_tm d) (take n (rev (tx_rows u))) @ [[]]
    \<and> drop 2 (rx_lines v) = map (row_line local_tm d) (take n (rev (rx_rows u))) @ [[]]
    \<and> (\<forall>l \<in> set (butlast (tx_lines v)) \<union> set (butlast (rx_lines v)). int (length l) = 53 + d)"
proof -
  have "ui_inv u \<and> daemon_connected u = cl_connected (client u)"
    using assms(1) by (rule ui_reach_inv)
  then have "(daemon_color v = Green \<longleftrightarrow> cl_connected (client u))
    \<and> (device_color v = Green \<longleftrightarrow> device_connected u)"
    by (auto simp: assms(6) main_view_def ui_inv_def Let_def)
  moreover have "1 \<le> n" by (simp add: assms(4) table_rows_def Let_def)
  moreover have "10 \<le> d \<and> d \<le> 80" by (simp add: assms(5) desc_width_bounds)
  moreover note table_widths [OF assms(2), of "tx_rows u" "tx_lines v" "table_rows (cmd_mode u) term_h" "int (term_w div 2)"]
    table_widths [OF assms(2), of "rx_rows u" "rx_lines v" "table_rows (cmd_mode u) term_h" "int (term_w div 2)"]
  ultimately show ?thesis
    using assms(3) by (simp add: assms(4,5,6) main_view_def Let_def ball_Un)
qed

theorem screen_shows_state_witness:
  "let u = ui_start ''localhost'' 7777; v = main_view (\<lambda>t. (0, 0, 0)) 200 40 u
   in (daemon_color v = Green \<longleftrightarrow> cl_connected (client u)) \<and> daemon_color v = Yellow
      \<and> table_rows False 40 = 26 \<and> drop 2 (tx_lines v) = [[]] \<and> length (tx_lines v) = 3"
proof -
  let ?u = "ui_start ''localhost'' 7777"
  let ?v = "main_view (\<lambda>t. (0, 0, 0)) 200 40 ?u"
  have r: "ui_reach (icd_pack :: icd_packet ccsdspack) (\<lambda>k s. (False, s)) ?u" by (rule ui_starts)
  have v: "(daemon_color ?v = Green \<longleftrightarrow> cl_connected (client ?u)) \<and> drop 2 (tx_lines ?v) = [[]]"
    using screen_shows_state [OF r _ _ refl refl refl, where local_tm = "\<lambda>t. (0, 0, 0)" and term_w = 200 and term_h = 40]
    by (simp add: clock_fields_ok_def) (simp add: ui_start_def)
  then have "length (drop 2 (tx_lines ?v)) = 1" by simp
  then have "length (tx_lines ?v) = 3" by simp
  with v show ?thesis
    by (simp add: Let_def) (simp add: main_view_def ui_start_def starts_with_def table_rows_def Let_def)
qed

end
