(* ===== verification/Ui_Screen.thy ===== *)
theory Ui_Screen
  imports GS_Prelude Ui_Text Ui_App Ui_View
begin

text \<open>
  The screen of the terminal UI as the tree of elements that the main renderer of
  \<open>ui/src/ui_app.cpp\<close> hands to FTXUI: labels, lamps, the two packet tables, status line, command
  bar and help. The values shown are those of \<open>main_view\<close>; how FTXUI lays elements out is its own.
  Texts are UTF-8 octets, as in the source.
\<close>

section \<open>Elements\<close>

datatype style = Bold | Border | Flex | Framed | Colored color | Background color | ClearUnder | Center

text \<open>\<open>e | s\<close> is \<open>Decorated e s\<close>. \<open>InputLine\<close>: the input component with its placeholder and text.\<close>

datatype element =
    Text string
  | Separator
  | Filler
  | Vbox "element list"
  | Hbox "element list"
  | Dbox "element list"
  | Decorated element style
  | InputLine string string

text \<open>All texts, from top to bottom.\<close>

fun texts :: "element \<Rightarrow> string list" where
  "texts (Text s) = [s]"
| "texts (Vbox es) = concat (map texts es)"
| "texts (Hbox es) = concat (map texts es)"
| "texts (Dbox es) = concat (map texts es)"
| "texts (Decorated e s) = texts e"
| "texts (InputLine p s) = [s]"
| "texts _ = []"

section \<open>Parts of the screen\<close>

definition bullet :: string where
  "bullet = [CHR 0xE2, CHR 0x97, CHR 0x8F]"

definition preformatted_block :: "string list \<Rightarrow> element" where
  "preformatted_block ls = Decorated (Vbox (map Text ls)) Framed"

definition gray :: "element \<Rightarrow> element" where
  "gray e = Decorated e (Colored GrayLight)"

definition top_bar :: "ui \<Rightarrow> view \<Rightarrow> element" where
  "top_bar u v = Hbox
     [Decorated (Text ''exn-gs'') Bold,
      Filler,
      Hbox [Vbox [Decorated (Text (bullet @ '' '')) (Colored (daemon_color v)),
                  Decorated (Text (bullet @ '' '')) (Colored (device_color v))],
            Vbox [Text ''Daemon IPC: '', Text ''Device Link: ''],
            Vbox [Text (daemon_line u), Text (device_line u)]]]"

definition services_panel :: "view \<Rightarrow> element" where
  "services_panel v = Hbox
     [Decorated (Text ''Client tasks: '') Bold,
      Decorated (Text ''HK '') Bold,
      Decorated (Text (bullet @ ''  '')) (Colored (hk_color v)),
      gray (Text (hk_text v)),
      gray (Text ''  |  scheduled traffic runs only while the device link is connected'')]"

definition packet_panel :: "string \<Rightarrow> string list \<Rightarrow> element" where
  "packet_panel title ls = Decorated (Decorated (Vbox
     [Decorated (Text title) Bold, Separator, gray (preformatted_block ls)]) Border) Flex"

definition notice_bar :: "view \<Rightarrow> element" where
  "notice_bar v = Decorated (Text (status_text v)) (Colored (status_color v))"

definition placeholder :: string where
  "placeholder = ''type command'' @ ellipsis"

definition command_line :: "ui \<Rightarrow> element" where
  "command_line u =
     (if cmd_mode u then Vbox
        [Separator,
         Hbox [Decorated (Text ''CMD:/> '') Bold, InputLine placeholder (cmd_input u)],
         Separator,
         gray (Text ''Enter=send   Esc=close   command input owns all character keys'')]
      else gray (Text ''Keys: c=CMD   h=HELP   q=QUIT''))"

definition help_box :: element where
  "help_box = Decorated (Decorated (Decorated (Vbox
     [Decorated (Text ''Help'') Bold,
      Separator,
      Decorated (Text ''UI keys:'') Bold,
      Text ''  c   open command bar'',
      Text ''  h   toggle this help when the command bar is closed'',
      Text ''  q   quit when command/help is closed'',
      Text ''  Esc close command/help'',
      Separator,
      Decorated (Text ''Daemon transport/operations:'') Bold,
      Text ''  CONNECT       open the configured device transport'',
      Text ''  DISCONNECT    close the device transport'',
      Text ''  RECONNECT     cycle the device transport'',
      Text ''  PING          daemon IPC liveness check'',
      Text ''  STATUS        query current device-link state'',
      Text ''  STATS         query router transport counters'',
      Separator,
      Decorated (Text ''UI-owned application tasks:'') Bold,
      Text ''  HK_ENABLE     enable 30 s System HK snapshots'',
      Text ''  HK_DISABLE    disable periodic System HK snapshots'',
      Text ''  HK_REQ        send one System HK request'']) Border) (Background Black)) (Colored White)"

text \<open>The renderer.\<close>

definition main_screen :: "(u64 \<Rightarrow> nat \<times> nat \<times> nat) \<Rightarrow> nat \<Rightarrow> nat \<Rightarrow> ui \<Rightarrow> element" where
  "main_screen local_tm term_w term_h u =
     (let v = main_view local_tm term_w term_h u;
          base = Vbox
            [top_bar u v,
             services_panel v,
             notice_bar v,
             Decorated (Hbox [packet_panel ''Packets TX (GS -> device link)'' (tx_lines v),
                              packet_panel ''Packets RX (device link -> GS)'' (rx_lines v)]) Flex,
             command_line u]
      in if \<not> help_mode u then base
         else Dbox [base, Decorated (Decorated help_box ClearUnder) Center])"

section \<open>The commands a text lists\<close>

text \<open>A command is listed on a line of its own: two blanks, the command in upper case, more.\<close>

definition first_word :: "string \<Rightarrow> string" where
  "first_word s = takeWhile (\<lambda>c. c \<noteq> CHR '' '') s"

definition listed :: "string list \<Rightarrow> string list" where
  "listed ls = map (\<lambda>l. first_word (drop 2 l)) (filter (\<lambda>l. starts_with l ''  '') ls)"

lemma help_box_lists:
  "filter (\<lambda>w. uppercase w = w) (listed (texts help_box)) =
     [''CONNECT'', ''DISCONNECT'', ''RECONNECT'', ''PING'', ''STATUS'', ''STATS'',
      ''HK_ENABLE'', ''HK_DISABLE'', ''HK_REQ'']"
  by code_simp

text \<open>What is on the screen, whatever the size of the terminal.\<close>

lemma screen_texts:
  "texts (main_screen local_tm term_w term_h u) =
     [''exn-gs'', bullet @ '' '', bullet @ '' '', ''Daemon IPC: '', ''Device Link: '', daemon_line u, device_line u,
      ''Client tasks: '', ''HK '', bullet @ ''  '', if hk_enabled u then ''enabled'' else ''disabled'',
      ''  |  scheduled traffic runs only while the device link is connected'',
      if notice_line u = [] then ''Status: ready'' else ''Status: '' @ notice_line u]
     @ ''Packets TX (GS -> device link)'' # tx_lines (main_view local_tm term_w term_h u)
     @ ''Packets RX (device link -> GS)'' # rx_lines (main_view local_tm term_w term_h u)
     @ texts (command_line u) @ (if help_mode u then texts help_box else [])"
proof -
  have t: "concat (map (\<lambda>l. texts (Text l)) ls) = ls" for ls by (induction ls) simp_all
  show ?thesis
    by (simp add: main_screen_def Let_def top_bar_def services_panel_def notice_bar_def packet_panel_def
        preformatted_block_def gray_def comp_def t)
      (simp add: main_view_def Let_def)
qed

end
