(* ===== verification/Gsdctl.thy ===== *)
theory Gsdctl
  imports GS_Prelude Cpp_Numbers Protocol
begin

text \<open>
  The command-line client: \<open>tools/gsdctl/main.cpp\<close>. Options, hexadecimal input, the request of
  each command and the blocking conversation with the daemon. What the socket delivers is a
  list of chunks; when it ends, \<open>read_some\<close> throws, which \<open>main\<close> turns into exit code 1, as it
  does for an empty read. Console output is modelled as far as it can be undefined.
\<close>

section \<open>Hexadecimal input\<close>

definition hex_value :: "char \<Rightarrow> nat option" where
  "hex_value c = (let n = (of_char c :: nat) in
     if 48 \<le> n \<and> n \<le> 57 then Some (n - 48)
     else if 65 \<le> n \<and> n \<le> 70 then Some (n - 55)
     else if 97 \<le> n \<and> n \<le> 102 then Some (n - 87)
     else None)"

text \<open>\<open>std::isxdigit\<close>, and \<open>strtoul(..., 16)\<close> on two hexadecimal digits.\<close>

definition is_xdigit :: "char \<Rightarrow> bool" where
  "is_xdigit c \<longleftrightarrow> hex_value c \<noteq> None"

fun hex_bytes :: "string \<Rightarrow> bytes" where
  "hex_bytes (a # b # s) = of_nat (16 * the (hex_value a) + the (hex_value b)) # hex_bytes s"
| "hex_bytes _ = []"

definition decode_hex :: "string \<Rightarrow> bytes option" where
  "decode_hex hex =
     (if hex = [] \<or> length hex mod 2 \<noteq> 0 then None
      else if \<not> list_all is_xdigit hex then None
      else Some (hex_bytes hex))"

text \<open>Two digits per octet, as a packet is written down.\<close>

definition hex_digit :: "nat \<Rightarrow> char" where
  "hex_digit d = char_of (if d < 10 then 48 + d else 87 + d)"

definition show_hex :: "bytes \<Rightarrow> string" where
  "show_hex bs = concat (map (\<lambda>b. [hex_digit (unat b div 16), hex_digit (unat b mod 16)]) bs)"

lemma hex_value_digit: "d < 16 \<Longrightarrow> hex_value (hex_digit d) = Some d"
  by (auto simp: hex_value_def hex_digit_def Let_def)

lemma hex_value_upper_digit: "d < 16 \<Longrightarrow> hex_value (to_upper (hex_digit d)) = Some d"
  by (auto simp: hex_value_def hex_digit_def to_upper_def Let_def)

lemma hex_value_less: "hex_value c = Some d \<Longrightarrow> d < 16"
  by (auto simp: hex_value_def Let_def split: if_splits)

section \<open>Options\<close>

record ctl_options =
  ctl_host :: string
  ctl_port :: u16
  ctl_command :: string
  ctl_args :: "string list"

definition default_options :: ctl_options where
  "default_options = \<lparr>ctl_host = ''127.0.0.1'', ctl_port = 7777, ctl_command = [], ctl_args = []\<rparr>"

text \<open>\<open>--host\<close> and \<open>--port\<close> are options only when a value follows; \<open>Inl\<close> is the uncaught
  exception of \<open>stoi\<close>.\<close>

fun ctl_parse :: "string list \<Rightarrow> ctl_options \<Rightarrow> number_error + ctl_options" where
  "ctl_parse [] opts = Inr opts"
| "ctl_parse [a] opts = ctl_parse []
     (if ctl_command opts = [] then opts\<lparr>ctl_command := a\<rparr>
      else opts\<lparr>ctl_args := ctl_args opts @ [a]\<rparr>)"
| "ctl_parse (a # v # rest) opts =
     (if a = ''--host'' then ctl_parse rest (opts\<lparr>ctl_host := v\<rparr>)
      else if a = ''--port'' then
        (case stoi v of Inl e \<Rightarrow> Inl e | Inr n \<Rightarrow> ctl_parse rest (opts\<lparr>ctl_port := to_u16 n\<rparr>))
      else ctl_parse (v # rest)
        (if ctl_command opts = [] then opts\<lparr>ctl_command := a\<rparr>
         else opts\<lparr>ctl_args := ctl_args opts @ [a]\<rparr>))"

section \<open>Requests\<close>

datatype link_expectation = AnyLink | WantConnected | WantDisconnected

text \<open>The request, the type of its reply and what the link state has to be; \<open>None\<close> is
  \<open>return 1\<close> before anything is sent.\<close>

definition ctl_request :: "string \<Rightarrow> string list \<Rightarrow> (frame \<times> MsgType \<times> link_expectation) option" where
  "ctl_request command args =
     (if command = ''ping'' then
        Some (\<lparr>ftype = Command, payload = pack_string ''PING''\<rparr>, QueryResult, AnyLink)
      else if command = ''status'' then
        Some (\<lparr>ftype = Command, payload = pack_string ''STATUS''\<rparr>, LinkStateMsg, AnyLink)
      else if command = ''stats'' then
        Some (\<lparr>ftype = Command, payload = pack_string ''STATS''\<rparr>, QueryResult, AnyLink)
      else if command = ''connect'' then
        Some (\<lparr>ftype = Command, payload = pack_string ''CONNECT''\<rparr>, LinkStateMsg, WantConnected)
      else if command = ''disconnect'' then
        Some (\<lparr>ftype = Command, payload = pack_string ''DISCONNECT''\<rparr>, LinkStateMsg, WantDisconnected)
      else if command = ''reconnect'' then
        Some (\<lparr>ftype = Command, payload = pack_string ''RECONNECT''\<rparr>, LinkStateMsg, WantConnected)
      else if command = ''raw'' then
        (case args of [] \<Rightarrow> None
         | a # _ \<Rightarrow> (case decode_hex a of None \<Rightarrow> None
             | Some bs \<Rightarrow> Some (\<lparr>ftype = PacketSend, payload = bs\<rparr>, PacketTx, AnyLink)))
      else None)"

section \<open>The conversation\<close>

text \<open>The next frame, the buffer and the chunks left; \<open>Done None\<close> when the socket ended.\<close>

fun read_frame :: "bytes \<Rightarrow> bytes list \<Rightarrow> (frame \<times> bytes \<times> bytes list) option cpp" where
  "read_frame buffer [] =
     map_cpp (map_option (\<lambda>(f, r). (f, r, []))) (try_decode buffer)"
| "read_frame buffer (c # cs) =
     bind_cpp (try_decode buffer) (\<lambda>d. case d of
        Some (f, r) \<Rightarrow> Done (Some (f, r, c # cs))
      | None \<Rightarrow> if c = [] then Done None else read_frame (buffer @ c) cs)"

text \<open>\<open>print_frame\<close>: the line it writes to the console, if any.\<close>

definition labelled :: "string \<Rightarrow> string option \<Rightarrow> string" where
  "labelled label r = (case r of None \<Rightarrow> [] | Some s \<Rightarrow> label @ s @ [CHR 0x0A])"

definition print_frame :: "frame \<Rightarrow> string cpp" where
  "print_frame f =
     (if ftype f = Hello then map_cpp (labelled ''Daemon: '') (unpack_string (payload f))
      else if ftype f = LinkStateMsg then map_cpp (labelled ''Device link: '') (unpack_string (payload f))
      else if ftype f = QueryResult then map_cpp (labelled []) (unpack_string (payload f))
      else if ftype f = ErrorMsg then map_cpp (labelled ''Daemon error: '') (unpack_string (payload f))
      else if ftype f = PacketTx then
        (case unpack_packet_meta (payload f) empty_meta [] of
           (True, mt, _) \<Rightarrow> Done (''Packet TX: APID='' @ dec (unat (apid mt)) @ '' SEQ='' @ dec (unat (seqc mt))
             @ '' SVC='' @ dec (unat (svc mt)) @ '' SSV='' @ dec (unat (ssvc mt)) @ [CHR 0x0A])
         | (False, _, _) \<Rightarrow> Done [])
      else Done [])"

lemma read_frame_shrinks:
  "read_frame b cs = Done (Some (f, r, ds)) \<Longrightarrow>
     length r + length (concat ds) < length b + length (concat cs)"
proof (induction b cs rule: read_frame.induct)
  case (1 buffer)
  then obtain d where d: "try_decode buffer = Done d" "Some (f, r, ds) = map_option (\<lambda>(f, r). (f, r, [])) d"
    by auto
  then show ?case by (cases d) (auto dest: try_decode_shrinks)
next
  case (2 buffer c cs)
  then obtain d where d: "try_decode buffer = Done d" by auto
  show ?case
  proof (cases d)
    case None
    with d 2(2) have "c \<noteq> []" "read_frame (buffer @ c) cs = Done (Some (f, r, ds))"
      by (auto split: if_splits)
    with 2(1) [OF d None] show ?thesis by simp
  next
    case (Some y)
    with d 2(2) have "try_decode buffer = Done (Some (f, r))" "ds = c # cs"
      by (auto split: prod.splits)
    then show ?thesis by (auto dest: try_decode_shrinks)
  qed
qed

text \<open>The two reading loops of \<open>main\<close>: to the first link state, and to the reply.\<close>

function await_link :: "bytes \<Rightarrow> bytes list \<Rightarrow> (bytes \<times> bytes list) option cpp" where
  "await_link buffer cs =
     (case read_frame buffer cs of
        UB \<Rightarrow> UB
      | Done None \<Rightarrow> Done None
      | Done (Some (f, r, ds)) \<Rightarrow> bind_cpp (print_frame f) (\<lambda>_.
          if ftype f \<noteq> LinkStateMsg then await_link r ds else Done (Some (r, ds))))"
  by pat_completeness auto
termination
  by (relation "measure (\<lambda>(b, cs). length b + length (concat cs))")
    (auto dest: read_frame_shrinks)

definition state_accepted :: "link_expectation \<Rightarrow> string \<Rightarrow> bool" where
  "state_accepted le st \<longleftrightarrow>
     \<not> (le = WantConnected \<and> \<not> starts_with st ''CONNECTED'')
     \<and> \<not> (le = WantDisconnected \<and> \<not> starts_with st ''DISCONNECTED'')"

text \<open>What one frame means to the waiting client: the exit code, or wait on.\<close>

definition judge :: "MsgType \<Rightarrow> link_expectation \<Rightarrow> frame \<Rightarrow> nat option cpp" where
  "judge expected le f =
     bind_cpp (print_frame f) (\<lambda>_.
       if ftype f = ErrorMsg then Done (Some 1)
       else if ftype f \<noteq> expected then Done None
       else if ftype f = LinkStateMsg then
         bind_cpp (unpack_string (payload f)) (\<lambda>r. case r of
            None \<Rightarrow> Done None
          | Some st \<Rightarrow>
              if starts_with st ''ERROR'' then Done (Some 1)
              else if \<not> state_accepted le st then Done None
              else Done (Some 0))
       else Done (Some 0))"

function await_reply :: "MsgType \<Rightarrow> link_expectation \<Rightarrow> bytes \<Rightarrow> bytes list \<Rightarrow> nat cpp" where
  "await_reply expected le buffer cs =
     (case read_frame buffer cs of
        UB \<Rightarrow> UB
      | Done None \<Rightarrow> Done 1
      | Done (Some (f, r, ds)) \<Rightarrow> bind_cpp (judge expected le f) (\<lambda>v. case v of
          Some code \<Rightarrow> Done code
        | None \<Rightarrow> await_reply expected le r ds))"
  by pat_completeness auto
termination
  by (relation "measure (\<lambda>(e, le, b, cs). length b + length (concat cs))")
    (auto dest: read_frame_shrinks)

declare await_link.simps [simp del] await_reply.simps [simp del]

text \<open>The octets written and the exit code of a session in which the daemon answers \<open>cs\<close>.\<close>

definition ctl_session :: "string \<Rightarrow> string list \<Rightarrow> bytes list \<Rightarrow> (bytes \<times> nat) cpp" where
  "ctl_session command args cs =
     bind_cpp (read_frame [] cs) (\<lambda>h. case h of
        None \<Rightarrow> Done ([], 1)
      | Some (f, r, ds) \<Rightarrow> bind_cpp (print_frame f) (\<lambda>_.
          bind_cpp (await_link r ds) (\<lambda>l. case l of
             None \<Rightarrow> Done ([], 1)
           | Some (q, es) \<Rightarrow>
               (case ctl_request command args of
                  None \<Rightarrow> Done ([], 1)
                | Some (request, expected, le) \<Rightarrow>
                    map_cpp (\<lambda>code. (encode request, code)) (await_reply expected le q es)))))"

text \<open>\<open>main\<close> with a daemon that accepts the connection and answers \<open>cs\<close>; \<open>Inl\<close> is an exception nobody
  catches. Without a command nothing is connected and the exit code is 1.\<close>

definition ctl_main :: "string list \<Rightarrow> bytes list \<Rightarrow> number_error + (bytes \<times> nat) cpp" where
  "ctl_main argv cs =
     (case ctl_parse argv default_options of
        Inl e \<Rightarrow> Inl e
      | Inr opts \<Rightarrow> Inr (if ctl_command opts = [] then Done ([], 1)
          else ctl_session (ctl_command opts) (ctl_args opts) cs))"

section \<open>The conversation as a function of the frames\<close>

text \<open>
  The specification: the same decisions on the list of frames the daemon sent, without
  buffers and chunks.
\<close>

fun after_link :: "frame list \<Rightarrow> frame list option cpp" where
  "after_link [] = Done None"
| "after_link (f # fs) = bind_cpp (print_frame f) (\<lambda>_.
     if ftype f \<noteq> LinkStateMsg then after_link fs else Done (Some fs))"

fun verdict_on :: "MsgType \<Rightarrow> link_expectation \<Rightarrow> frame list \<Rightarrow> nat cpp" where
  "verdict_on e le [] = Done 1"
| "verdict_on e le (f # fs) =
     bind_cpp (judge e le f) (\<lambda>v. case v of Some code \<Rightarrow> Done code | None \<Rightarrow> verdict_on e le fs)"

fun ctl_on_frames :: "string \<Rightarrow> string list \<Rightarrow> frame list \<Rightarrow> (bytes \<times> nat) cpp" where
  "ctl_on_frames command args [] = Done ([], 1)"
| "ctl_on_frames command args (h # fs) = bind_cpp (print_frame h) (\<lambda>_.
     bind_cpp (after_link fs) (\<lambda>l. case l of
        None \<Rightarrow> Done ([], 1)
      | Some gs \<Rightarrow>
          (case ctl_request command args of
             None \<Rightarrow> Done ([], 1)
           | Some (request, expected, le) \<Rightarrow>
               map_cpp (\<lambda>code. (encode request, code)) (verdict_on expected le gs))))"

text \<open>What a reader holds: the buffer and the chunks still to come, as frames.\<close>

definition holds :: "bytes \<Rightarrow> bytes list \<Rightarrow> frame list \<Rightarrow> bool" where
  "holds b cs fs \<longleftrightarrow> (\<exists>q. drain_frames (b @ concat cs) = Done (fs, q))
     \<and> length (b @ concat cs) < 4294967296 \<and> [] \<notin> set cs"

lemma no_fault_before:
  "frame_step b = Fault \<Longrightarrow> length (b @ c) < 4294967296 \<Longrightarrow> frame_step (b @ c) = Fault"
  by (auto simp: frame_step_simps try_decode_UB_iff read_u32_append)

lemma read_frame_none: "holds b cs [] \<Longrightarrow> read_frame b cs = Done None"
  and read_frame_some: "holds b cs (f # fs) \<Longrightarrow>
     \<exists>r ds. read_frame b cs = Done (Some (f, r, ds)) \<and> holds r ds fs"
proof (induction cs arbitrary: b)
  case Nil
  { case 1
    then show ?case
      by (cases "frame_step b")
        (auto simp: holds_def ipc_stream.drain_Emit ipc_stream.drain_Fault frame_step_simps)
  next
    case 2
    then show ?case
      by (cases "frame_step b")
        (auto simp: holds_def ipc_stream.drain_Emit ipc_stream.drain_Fault ipc_stream.drain_Stop
          frame_step_simps dest: try_decode_shrinks) }
next
  case (Cons c cs)
  { case 1
    then have "holds (b @ c) cs []" "c \<noteq> []" by (auto simp: holds_def)
    moreover have "frame_step b = Stop"
      using 1 ipc_stream.emit_append [of b _ _ "c @ concat cs"] no_fault_before [of b "c @ concat cs"]
      by (cases "frame_step b") (auto simp: holds_def ipc_stream.drain_Emit ipc_stream.drain_Fault)
    ultimately show ?case using Cons.IH(1) by (simp add: frame_step_simps)
  next
    case 2
    then have h: "holds (b @ c) cs (f # fs)" "c \<noteq> []" by (auto simp: holds_def)
    show ?case
    proof (cases "frame_step b")
      case Stop
      with h Cons.IH(2) [of "b @ c"] show ?thesis by (simp add: frame_step_simps)
    next
      case (Emit g r)
      with 2 ipc_stream.emit_append [OF Emit, of "c @ concat cs"] ipc_stream.emit_shrinks [OF Emit]
      have "g = f \<and> holds r (c # cs) fs" by (auto simp: holds_def ipc_stream.drain_Emit)
      with Emit show ?thesis by (simp add: frame_step_simps)
    next
      case Fault
      with 2 no_fault_before [of b "c @ concat cs"] show ?thesis
        by (auto simp: holds_def ipc_stream.drain_Fault)
    qed }
qed

lemma await_reply_frames: "holds b cs fs \<Longrightarrow> await_reply e le b cs = verdict_on e le fs"
proof (induction fs arbitrary: b cs)
  case Nil
  then show ?case by (simp add: await_reply.simps [of e le b cs] read_frame_none)
next
  case (Cons f fs)
  from read_frame_some [OF Cons.prems] obtain r ds where
    "read_frame b cs = Done (Some (f, r, ds))" "holds r ds fs" by blast
  with Cons.IH [of r ds] show ?case
    by (cases "judge e le f") (auto simp: await_reply.simps [of e le b cs] split: option.splits)
qed

lemma await_link_frames:
  "holds b cs fs \<Longrightarrow>
     (case after_link fs of
        UB \<Rightarrow> await_link b cs = UB
      | Done None \<Rightarrow> await_link b cs = Done None
      | Done (Some gs) \<Rightarrow> \<exists>r ds. await_link b cs = Done (Some (r, ds)) \<and> holds r ds gs)"
proof (induction fs arbitrary: b cs)
  case Nil
  then show ?case by (simp add: await_link.simps [of b cs] read_frame_none)
next
  case (Cons f fs)
  from read_frame_some [OF Cons.prems] obtain r ds where
    r: "read_frame b cs = Done (Some (f, r, ds))" "holds r ds fs" by blast
  with Cons.IH [OF r(2)] show ?case
    by (cases "print_frame f") (auto simp: await_link.simps [of b cs] split: cpp.splits option.splits)
qed

lemma ctl_session_holds:
  assumes h: "holds [] cs fs"
  shows "ctl_session command args cs = ctl_on_frames command args fs"
proof (cases fs)
  case Nil
  with read_frame_none h show ?thesis by (simp add: ctl_session_def)
next
  case (Cons f gs)
  with read_frame_some h obtain r ds where
    r: "read_frame [] cs = Done (Some (f, r, ds))" "holds r ds gs" by blast
  from await_link_frames [OF r(2)] r(1) Cons show ?thesis
    by (auto simp: ctl_session_def await_reply_frames split: cpp.splits option.splits)
qed

section \<open>Properties\<close>

text \<open>C38: The command-line client is a function of the daemon's frames: however the socket cuts
  a stream of fewer than \<open>2 ^ 32\<close> octets, the session writes the request and ends with the
  exit code that the frames decide, code 1 when the connection ends before they do.\<close>
theorem ctl_session_of_frames:
  assumes "drain_frames (concat cs) = Done (fs, q)" and "length (concat cs) < 4294967296"
    and "[] \<notin> set cs"
  shows "ctl_session command args cs = ctl_on_frames command args fs"
  using assms by (intro ctl_session_holds) (auto simp: holds_def)

theorem ctl_session_of_frames_witness:
  "let h = \<lparr>ftype = Hello, payload = pack_string ''EXN-GS''\<rparr>;
       l = \<lparr>ftype = LinkStateMsg, payload = pack_string ''DISCONNECTED''\<rparr>;
       q = \<lparr>ftype = QueryResult, payload = pack_string ''PONG''\<rparr>;
       s = encode h @ encode l @ encode q
   in ctl_session ''ping'' [] [take 9 s, drop 9 s]
      = Done (encode \<lparr>ftype = Command, payload = pack_string ''PING''\<rparr>, 0)"
proof -
  define h where "h = \<lparr>ftype = Hello, payload = pack_string ''EXN-GS''\<rparr>"
  define l where "l = \<lparr>ftype = LinkStateMsg, payload = pack_string ''DISCONNECTED''\<rparr>"
  define q where "q = \<lparr>ftype = QueryResult, payload = pack_string ''PONG''\<rparr>"
  define s where "s = encode h @ encode l @ encode q"
  have "\<forall>f \<in> set [h, l, q]. sendable f"
    by (simp add: h_def l_def q_def sendable_def pack_string_def)
  from drain_frames_encode [OF this, of "[]"] have "drain_frames s = Done ([h, l, q], [])"
    by (simp add: s_def)
  moreover have "length s = 52" by (simp add: s_def h_def l_def q_def pack_string_def)
  then have "[] \<notin> set [take 9 s, drop 9 s]" by (cases s) simp_all
  ultimately have "ctl_session ''ping'' [] [take 9 s, drop 9 s] = ctl_on_frames ''ping'' [] [h, l, q]"
    using \<open>length s = 52\<close> by (intro ctl_session_of_frames) simp_all
  moreover have "unpack_string (payload h) = Done (Some ''EXN-GS'')"
    "unpack_string (payload l) = Done (Some ''DISCONNECTED'')"
    "unpack_string (payload q) = Done (Some ''PONG'')"
    using unpack_pack_string [of "''EXN-GS''" "[]"] unpack_pack_string [of "''DISCONNECTED''" "[]"]
      unpack_pack_string [of "''PONG''" "[]"] by (simp_all add: h_def l_def q_def)
  moreover have "ftype h = Hello" "ftype l = LinkStateMsg" "ftype q = QueryResult"
    by (simp_all add: h_def l_def q_def)
  ultimately have "ctl_session ''ping'' [] [take 9 s, drop 9 s]
      = Done (encode \<lparr>ftype = Command, payload = pack_string ''PING''\<rparr>, 0)"
    by (simp add: ctl_request_def judge_def print_frame_def)
  then show ?thesis by (simp add: Let_def h_def l_def q_def s_def)
qed

lemma high_digit: "unat (b :: byte) div 16 < 16"
proof -
  have "unat b < 2 ^ LENGTH(8)" by (rule unsigned_less)
  then have "unat b < 16 * 16" by (simp del: unsigned_less)
  then show ?thesis by (rule less_mult_imp_div_less)
qed

lemma hex_bytes_digits:
  "hex_bytes (concat (map (\<lambda>b. [f (hex_digit (unat b div 16)), f (hex_digit (unat b mod 16))]) bs)) = bs"
  if "\<And>d. d < 16 \<Longrightarrow> hex_value (f (hex_digit d)) = Some d"
proof (induction bs)
  case (Cons b bs)
  then show ?case by (simp add: that high_digit)
qed simp

lemma decode_hex_digits:
  assumes "\<And>d. d < 16 \<Longrightarrow> hex_value (f (hex_digit d)) = Some d" and "bs \<noteq> []"
  shows "decode_hex (concat (map (\<lambda>b. [f (hex_digit (unat b div 16)), f (hex_digit (unat b mod 16))]) bs)) = Some bs"
    (is "decode_hex ?h = _")
proof -
  have "length ?h = 2 * length bs" by (induction bs) auto
  moreover have "list_all is_xdigit ?h" by (auto simp: list_all_iff is_xdigit_def assms(1) high_digit)
  ultimately show ?thesis
    using assms hex_bytes_digits [of f bs] by (auto simp: decode_hex_def)
qed

lemma decode_hex_SomeD:
  assumes "decode_hex s = Some bs"
  shows "s \<noteq> [] \<and> length s = 2 * length bs \<and> list_all is_xdigit s"
proof -
  have "length s mod 2 = 0 \<Longrightarrow> length s = 2 * length (hex_bytes s)" for s
    by (induction s rule: hex_bytes.induct) auto
  with assms show ?thesis by (auto simp: decode_hex_def split: if_splits)
qed

text \<open>A packet typed in hexadecimal, in either letter case, is the packet that is sent; and
  whatever is accepted is an even, positive number of hexadecimal digits, two per octet.\<close>
lemma decode_hex_roundtrip:
  "(bs \<noteq> [] \<longrightarrow> decode_hex (show_hex bs) = Some bs \<and> decode_hex (map to_upper (show_hex bs)) = Some bs)
   \<and> (decode_hex s = Some bs \<longrightarrow> bs \<noteq> [] \<and> length s = 2 * length bs \<and> list_all is_xdigit s)"
  using decode_hex_digits [of "\<lambda>c. c" bs] decode_hex_digits [of to_upper bs] decode_hex_SomeD [of s bs]
  by (auto simp: show_hex_def map_concat comp_def hex_value_digit hex_value_upper_digit)

end
