(* ===== verification/Help_Texts.thy ===== *)
theory Help_Texts
  imports Daemon_App Ui_Screen Gsdctl
begin

text \<open>
  The help texts against the programs: the help of the terminal UI (\<open>Ui_Screen\<close>) and the usage
  text of the command-line client (\<open>print_usage\<close> of \<open>tools/gsdctl/main.cpp\<close>) list exactly the
  commands that are understood.
\<close>

section \<open>The usage text of the command-line client\<close>

definition usage_lines :: "string \<Rightarrow> string list" where
  "usage_lines exe =
     [''Usage: '' @ exe @ '' [--host HOST] [--port PORT] <command> [args...]'',
      ''Commands:'',
      ''  ping              Check daemon IPC liveness (PONG)'',
      ''  status            Query current device-link state'',
      ''  stats             Query router transport counters'',
      ''  connect           Open the configured device transport'',
      ''  disconnect        Close the configured device transport'',
      ''  reconnect         Cycle the configured device transport'',
      ''  raw <hex_bytes>   Route one complete CCSDS Space Packet'']"

definition print_usage :: "string \<Rightarrow> string" where
  "print_usage exe = concat (map (\<lambda>l. l @ [newline_char]) (usage_lines exe))"

lemma usage_split:
  assumes "newline_char \<notin> set exe"
  shows "split_lines (print_usage exe) = usage_lines exe @ [[]]"
proof -
  have "newline_char \<notin> set (''Usage: '' @ exe @ '' [--host HOST] [--port PORT] <command> [args...]'')"
    using assms by (simp add: newline_char_def)
  moreover have "list_all (\<lambda>l. newline_char \<notin> set l) (tl (usage_lines exe))"
    by (simp add: usage_lines_def newline_char_def)
  ultimately have "\<forall>l \<in> set (usage_lines exe). newline_char \<notin> set l"
    by (simp add: usage_lines_def)
  then show ?thesis unfolding print_usage_def by (rule split_lines_concat)
qed

lemma usage_lists:
  "listed (usage_lines exe) =
     [''ping'', ''status'', ''stats'', ''connect'', ''disconnect'', ''reconnect'', ''raw'']"
proof -
  have "listed (l # ls) = listed ls" if "\<not> starts_with l ''  ''" for l ls
    using that by (simp add: listed_def)
  moreover have "listed (tl (usage_lines exe)) =
      [''ping'', ''status'', ''stats'', ''connect'', ''disconnect'', ''reconnect'', ''raw'']"
    by (simp add: usage_lines_def listed_def starts_with_def first_word_def)
  ultimately show ?thesis by (simp add: usage_lines_def starts_with_def)
qed

definition request_names :: "string set" where
  "request_names = {''ping'', ''status'', ''stats'', ''connect'', ''disconnect'', ''reconnect'', ''raw''}"

lemma known_requests: "(\<exists>args. ctl_request command args \<noteq> None) \<longleftrightarrow> command \<in> request_names"
proof
  assume "\<exists>args. ctl_request command args \<noteq> None"
  then obtain args where a: "ctl_request command args \<noteq> None" by blast
  show "command \<in> request_names"
  proof (rule ccontr)
    assume "command \<notin> request_names"
    then have "ctl_request command args = None" by (simp add: ctl_request_def request_names_def)
    with a show False by simp
  qed
next
  have "decode_hex ''00'' = Some [0]" by code_simp
  then have raw: "ctl_request ''raw'' [''00''] \<noteq> None" by (simp add: ctl_request_def)
  assume "command \<in> request_names"
  then have "ctl_request command [''00''] \<noteq> None"
    unfolding request_names_def by (elim insertE emptyE, simp_all only: raw) (simp_all add: ctl_request_def)
  then show "\<exists>args. ctl_request command args \<noteq> None" by (rule exI)
qed

section \<open>What the daemon understands\<close>

text \<open>A command is obeyed when it is answered to its client by link states and query results only.\<close>

definition obeyed :: "'p environment \<Rightarrow> nat \<Rightarrow> string \<Rightarrow> daemon \<Rightarrow> bool" where
  "obeyed E i command d \<longleftrightarrow> (\<exists>t fs. run_command E i command d = Done t \<and> session_told i (map encode fs) d t
     \<and> (\<forall>f \<in> set fs. ftype f \<in> {LinkStateMsg, QueryResult}))"

lemma type_on_wire: "read_u16 (drop 4 (encode f)) = msg_code (ftype f)"
  by (simp add: encode_eq)

lemma told_reply: "session_told i [encode f] d (reply i f d)"
  by (auto simp: session_told_def get_session_send session_send_def alive_def)

lemma told_report:
  assumes "server_inv (ipc d)"
  shows "\<exists>f. ftype f = LinkStateMsg \<and> session_told i [encode f] d (report_link st x d)"
proof (intro exI conjI)
  let ?d = "d\<lparr>store := set_link st x (store d)\<rparr>"
  show "ftype (current_link_frame (store ?d)) = LinkStateMsg" by (simp add: current_link_frame_def)
  show "session_told i [encode (current_link_frame (store ?d))] d (report_link st x d)"
    using assms by (rule session_told_announce) (simp add: report_link_def publish_link_state_def)
qed

lemma told_same_ipc: "ipc t = ipc d \<Longrightarrow> session_told i [] d t"
  by (simp add: session_told_def)

lemma told_dev: "session_told i bs (d\<lparr>dev := m\<rparr>) t = session_told i bs d t"
  by (simp add: session_told_def)

lemma told_start:
  assumes "server_inv (ipc d)"
  shows "\<exists>t fs. start_link E d = Done t \<and> session_told i (map encode fs) d t
    \<and> (\<forall>f \<in> set fs. ftype f = LinkStateMsg)"
proof -
  let ?o = "link_start (port_open E (generation (dev d))) (dev d)"
  let ?d = "d\<lparr>dev := fst ?o\<rparr>"
  have told: "session_told i bs ?d t = session_told i bs d t" for bs t by (simp add: session_told_def)
  have inv: "server_inv (ipc ?d)" using assms by simp
  from link_start_outs [of "port_open E (generation (dev d))" "dev d"] consider
    (none) "snd ?o = []" | (one) st x where "start_link E d = Done (report_link st x ?d)"
    by (auto simp: start_link_def apply_link_def)
  then show ?thesis
  proof cases
    case none
    then show ?thesis
      by (intro exI [of _ ?d] exI [of _ "[]"]) (simp add: start_link_def apply_link_def told_same_ipc)
  next
    case one
    obtain f where "ftype f = LinkStateMsg" "session_told i [encode f] d (report_link st x ?d)"
      using told_report [OF inv, of i st x] told by blast
    with one show ?thesis by (intro exI [of _ "report_link st x ?d"] exI [of _ "[f]"]) simp
  qed
qed

definition daemon_commands :: "string set" where
  "daemon_commands = {''CONNECT'', ''DISCONNECT'', ''RECONNECT'', ''PING'', ''STATUS'', ''STATS''}"

definition ui_commands :: "string set" where
  "ui_commands = {''HK_ENABLE'', ''HK_DISABLE'', ''HK_REQ''}"

lemma obeyed_known:
  assumes "server_inv (ipc d)"
    and "command \<in> daemon_commands"
  shows "obeyed E i command d"
proof -
  have reply: "obeyed E i command d"
    if "run_command E i command d = Done (reply i g d)" and "ftype g \<in> {LinkStateMsg, QueryResult}" for g
    unfolding obeyed_def using that told_reply [of i g d] by (intro exI [of _ "reply i g d"] exI [of _ "[g]"]) simp
  have types: "ftype (current_link_frame s) = LinkStateMsg" "ftype (make_query_result x) = QueryResult" for s x
    by (simp_all add: current_link_frame_def make_query_result_def)
  let ?u = "report_link Disconnected (detail (dev d)) (d\<lparr>dev := fst (link_stop (dev d))\<rparr>)"
  have "server_inv (ipc (d\<lparr>dev := fst (link_stop (dev d))\<rparr>))" using assms(1) by simp
  from told_report [OF this, of i Disconnected "detail (dev d)"]
  obtain g where g: "ftype g = LinkStateMsg" "session_told i [encode g] d ?u"
    unfolding told_dev by blast
  have inv: "server_inv (ipc ?u)"
    using assms(1) by (simp add: report_link_def publish_link_state_def server_inv_broadcast)
  obtain v fs where v: "start_link E ?u = Done v" "session_told i (map encode fs) ?u v"
    "\<forall>f \<in> set fs. ftype f = LinkStateMsg" using told_start [OF inv, of E i] by blast
  obtain w hs where w: "start_link E d = Done w" "session_told i (map encode hs) d w"
    "\<forall>f \<in> set hs. ftype f = LinkStateMsg" using told_start [OF assms(1), of E i] by blast
  show ?thesis using assms(2) unfolding daemon_commands_def
  proof (elim insertE emptyE)
    assume c: "command = ''CONNECT''"
    show ?thesis
    proof (cases "opened (dev d)")
      case True
      with c show ?thesis by (intro reply [of "current_link_frame (store d)"]) (simp_all add: run_command_def types)
    next
      case False
      with c w show ?thesis unfolding obeyed_def
        by (intro exI [of _ w] exI [of _ hs]) (simp add: run_command_def)
    qed
  next
    assume "command = ''DISCONNECT''"
    with g show ?thesis unfolding obeyed_def
      by (intro exI [of _ ?u] exI [of _ "[g]"]) (simp add: run_command_def stop_link_Done)
  next
    assume "command = ''RECONNECT''"
    moreover have "session_told i (map encode (g # fs)) d v"
      using session_told_trans [OF g(2) v(2)] by simp
    ultimately show ?thesis using g(1) v(1,3) unfolding obeyed_def
      by (intro exI [of _ v] exI [of _ "g # fs"]) (simp add: run_command_def stop_link_Done)
  next
    assume "command = ''PING''"
    then show ?thesis by (intro reply [of "make_query_result ''PONG''"]) (simp_all add: run_command_def types)
  next
    assume "command = ''STATUS''"
    then show ?thesis by (intro reply [of "current_link_frame (store d)"]) (simp_all add: run_command_def types)
  next
    assume "command = ''STATS''"
    then show ?thesis
      by (intro reply [of "make_query_result (format_stats (snap (store d)))"]) (simp_all add: run_command_def types)
  qed
qed

lemma not_obeyed:
  assumes "get_session i (ipc d) = Some c" and "alive c"
    and "command \<notin> daemon_commands"
  shows "\<not> obeyed E i command d"
proof
  let ?e = "make_error_frame (''Unsupported daemon command: '' @ command)"
  assume "obeyed E i command d"
  moreover have "run_command E i command d = Done (reply i ?e d)"
    using assms(3) by (simp add: run_command_def daemon_commands_def)
  ultimately obtain fs where fs: "session_told i (map encode fs) d (reply i ?e d)"
    "\<forall>f \<in> set fs. ftype f \<in> {LinkStateMsg, QueryResult}" by (auto simp: obeyed_def)
  with told_reply [of i ?e d] assms(1,2) have "map encode fs = [encode ?e]"
    by (auto simp: session_told_def)
  then obtain f where "fs = [f]" "encode f = encode ?e" by auto
  with type_on_wire [of f] type_on_wire [of ?e] have "msg_code (ftype f) = msg_code ErrorMsg"
    by (simp add: make_error_frame_def)
  with fs(2) \<open>fs = [f]\<close> show False by auto
qed

lemma client_posts: "c\<lparr>cl_posted := cl_posted c @ [b]\<rparr> \<noteq> c"
  by (cases c) simp

section \<open>Property\<close>

text \<open>C39: The help texts are complete and true: the help box of the terminal UI, which the screen shows
  exactly in help mode, lists a command if and only if the UI carries it out itself or the daemon
  obeys it instead of answering that it is unsupported; and the usage text of the command-line
  client lists a command if and only if there are arguments with which it is accepted.\<close>
theorem help_lists_the_commands:
  assumes "daemon_reach E d" and "get_session i (ipc d) = Some c" and "alive c" and "daemon_connected u"
    and "uppercase command = command" and "newline_char \<notin> set exe"
  shows "(command \<in> set (listed (texts help_box)) \<longleftrightarrow>
       client (submit_command command u) = client u \<or> obeyed E i command d)
    \<and> (help_mode u \<longleftrightarrow> (\<exists>base. main_screen local_tm term_w term_h u
         = Dbox [base, Decorated (Decorated help_box ClearUnder) Center]))
    \<and> (request \<in> set (listed (split_lines (print_usage exe))) \<longleftrightarrow> (\<exists>args. ctl_request request args \<noteq> None))"
proof (intro conjI)
  have inv: "server_inv (ipc d)" using parts_ok_reach [OF assms(1)] by (simp add: parts_ok_def)
  have "command \<in> set (listed (texts help_box)) \<longleftrightarrow>
      command \<in> set (filter (\<lambda>w. uppercase w = w) (listed (texts help_box)))" using assms(5) by simp
  also have "\<dots> \<longleftrightarrow> command \<in> daemon_commands \<union> ui_commands" unfolding help_box_lists
    by (simp only: list.set daemon_commands_def ui_commands_def Un_insert_left Un_empty_left)
  finally have l: "command \<in> set (listed (texts help_box)) \<longleftrightarrow> command \<in> daemon_commands \<union> ui_commands" .
  have o: "client (submit_command command u) = client u \<longleftrightarrow> command \<in> ui_commands"
    using assms(4) client_posts [of "client u"]
    by (simp add: submit_command_def set_notice_def send_command_def send_frame_def ui_commands_def)
  have "obeyed E i command d \<longleftrightarrow> command \<in> daemon_commands"
    using obeyed_known [OF inv] not_obeyed [OF assms(2,3)] by blast
  with l o show "command \<in> set (listed (texts help_box)) \<longleftrightarrow>
      client (submit_command command u) = client u \<or> obeyed E i command d" by blast
  show "help_mode u \<longleftrightarrow> (\<exists>base. main_screen local_tm term_w term_h u
      = Dbox [base, Decorated (Decorated help_box ClearUnder) Center])"
    by (simp add: main_screen_def Let_def)
  have "listed (usage_lines exe @ [[]]) = listed (usage_lines exe)"
    by (simp add: listed_def starts_with_def)
  then show "request \<in> set (listed (split_lines (print_usage exe))) \<longleftrightarrow> (\<exists>args. ctl_request request args \<noteq> None)"
    unfolding known_requests usage_split [OF assms(6)] by (simp add: usage_lists request_names_def)
qed

theorem help_lists_the_commands_witness:
  "\<not> obeyed bench 0 ''REBOOT'' bench_client
    \<and> ''REBOOT'' \<notin> set (listed (texts help_box)) \<and> ''STATS'' \<in> set (listed (texts help_box))
    \<and> ''raw'' \<in> set (listed (split_lines (print_usage ''gsdctl''))) \<and> (\<exists>args. ctl_request ''raw'' args \<noteq> None)"
proof -
  let ?u = "(ui_start ''h'' 7)\<lparr>daemon_connected := True\<rparr>"
  have upper: "uppercase ''REBOOT'' = ''REBOOT''" by code_simp
  have box: "''REBOOT'' \<notin> set (listed (texts help_box))" "''STATS'' \<in> set (listed (texts help_box))"
    by code_simp+
  have c: "alive (session_send (current_link_frame (store bench_open)) (session_start new_session))" by simp
  have u: "daemon_connected ?u" and n: "newline_char \<notin> set ''gsdctl''" by (simp_all add: newline_char_def)
  note all = help_lists_the_commands [OF reach_bench_client bench_client_fields(5) c u upper n, of _ 0 0 "''raw''"]
  have "''raw'' \<in> set (listed (split_lines (print_usage ''gsdctl'')))"
    unfolding usage_split [OF n] by (simp add: listed_def usage_lines_def starts_with_def first_word_def)
  with all box show ?thesis by blast
qed

end
