(* ===== verification/Housekeeping.thy ===== *)
theory Housekeeping
  imports Daemon_App Simulator Sim_Progress Ui_App
begin

text \<open>
  A housekeeping request from end to end: the UI's request, the daemon that passes it on, the
  simulator that answers it with two reports, and the daemon and the UI that receive them.
  Nothing is modelled here: the steps are those of \<open>ui_step\<close>, \<open>daemon_step\<close> and \<open>sim_step\<close>, and the
  octets one program sends are those the next one reads. The programs share one library.
\<close>

section \<open>The library\<close>

definition mission_library :: "'p ccsdspack \<Rightarrow> bool" where
  "mission_library L \<longleftrightarrow> setters_ok L \<and> wire_ok L \<and> sizes_sane L \<and> header_only (declared_packet_size L)"

text \<open>A packet that the framer cuts and that is decoded.\<close>

definition sound_packet :: "'p ccsdspack \<Rightarrow> bytes \<Rightarrow> bool" where
  "sound_packet L p \<longleftrightarrow> routable L p \<and> length p \<le> 65542"

lemma sound_packet_whole:
  "sizes_sane L \<Longrightarrow> sound_packet L p \<Longrightarrow> whole_packet (declared_packet_size L) p"
  by (auto simp: sound_packet_def routable_def whole_packet_def dest: sizes_saneD)

lemma sound_packet_not_Nil: "sizes_sane L \<Longrightarrow> sound_packet L p \<Longrightarrow> p \<noteq> []"
  by (auto simp: whole_packet_def dest: sound_packet_whole)

lemma sound_packets_cut:
  assumes "sizes_sane L" and "header_only (declared_packet_size L)"
    and "\<forall>p \<in> set ps. sound_packet L p" and "ps \<noteq> []" and "acc f = []" and "has_callback f"
  shows "push_bytes (declared_packet_size L) (concat ps) f = Done (f, ps)"
proof -
  have w: "\<forall>p \<in> set ps. whole_packet (declared_packet_size L) p"
    using assms(1,3) sound_packet_whole by blast
  have ne: "concat ps \<noteq> []" using assms(1,3,4) sound_packet_not_Nil by (cases ps) auto
  have "drain_packets (declared_packet_size L) (acc f @ concat ps) = Done (map Packet ps, [])"
    using drain_whole_packets [OF assms(2) w, of "[]"] assms(5) by simp
  from push_bytes_drain [OF this ne] assms(5,6) show ?thesis by (cases f) simp
qed

section \<open>The request\<close>

text \<open>The UI is about to run the handler that \<open>HK_REQ\<close> posted, on a connection with nothing
  received in part.\<close>

definition ui_ready :: "'p ccsdspack \<Rightarrow> ui \<Rightarrow> bool" where
  "ui_ready L u \<longleftrightarrow> hk_posted u \<noteq> 0 \<and> hk_builds L (tc_sequence u) \<and> ReadC \<in> set (cl_pending (client u))
     \<and> cl_rxbuf (client u) = []"

abbreviation packet_frame :: "bytes \<Rightarrow> frame" where
  "packet_frame p \<equiv> \<lparr>ftype = PacketSend, payload = p\<rparr>"

lemma ui_requests:
  assumes "ui_ready L u"
  shows "\<exists>v. ui_step L edit RunHkRequest u = Some (Done v)
    \<and> client v = (client u)\<lparr>cl_posted := cl_posted (client u) @ [encode (packet_frame (hk_packet L (tc_sequence u)))]\<rparr>
    \<and> rx_rows v = rx_rows u \<and> tx_rows v = tx_rows u"
  using assms send_system_hk_ok [of L "u\<lparr>hk_posted := hk_posted u - 1\<rparr>"]
  by (simp add: ui_ready_def)

section \<open>The daemon passes it on\<close>

text \<open>The link is open and reading, session \<open>i\<close> too, and neither holds a part of a message.\<close>

definition daemon_ready :: "nat \<Rightarrow> daemon \<Rightarrow> bool" where
  "daemon_ready i d \<longleftrightarrow> opened (dev d) \<and> ReadOp (generation (dev d)) \<in> set (pending (dev d))
     \<and> acc (deframer d) = []
     \<and> (case get_session i (ipc d) of None \<Rightarrow> False | Some c \<Rightarrow> reading c \<and> rxbuf c = [])"

definition tx_frame :: "packet_meta \<Rightarrow> frame" where
  "tx_frame m = make_packet_frame PacketTx m ''TX''"

definition rx_frame :: "packet_meta \<Rightarrow> frame" where
  "rx_frame m = make_packet_frame PacketRx m ''RX''"

lemma daemon_passes_on:
  assumes "sizes_sane (lib E)" and "parts_ok d" and "daemon_ready i d" and "sound_packet (lib E) p"
  shows "\<exists>t m. daemon_step E (SessionRead i (Inr (encode (packet_frame p)))) d = Some (Done t)
    \<and> dev t = (dev d)\<lparr>posted := posted (dev d) @ [p]\<rparr> \<and> deframer t = deframer d \<and> ticks t = Suc (ticks d)
    \<and> session_told i [encode (tx_frame m)] d t"
proof -
  obtain c where c: "get_session i (ipc d) = Some c" "reading c" "rxbuf c = []"
    using assms(3) by (auto simp: daemon_ready_def split: option.splits)
  have f: "\<forall>f \<in> set [packet_frame p]. short_frame f \<and> Ipc_Server.dispatched f"
    using assms(4) by (simp add: short_frame_def Ipc_Server.dispatched_def sound_packet_def)
  let ?d = "d\<lparr>ipc := update_session i (\<lambda>_. session_do_read (c\<lparr>rxbuf := []\<rparr>)) (ipc d)\<rparr>"
  have "routable (lib E) p" "opened (dev ?d)"
    using assms(3,4) by (simp_all add: sound_packet_def daemon_ready_def)
  from packet_send_accepted [OF assms(1) this, of i] obtain m where
    t: "packet_send E i p ?d = Done (announce (tx_frame m)
      ((tick ?d)\<lparr>dev := (dev ?d)\<lparr>posted := posted (dev ?d) @ [p]\<rparr>, store := on_tx (length p) (store ?d)\<rparr>))"
      (is "_ = Done ?t")
    unfolding tx_frame_def by blast
  have "session_told i [] d ?d"
    using c by (simp add: session_told_def get_session_update session_do_read_def alive_def)
  moreover have "session_told i [encode (tx_frame m)] ?d ?t"
    using assms(2) by (intro session_told_announce) (simp_all add: parts_ok_def server_inv_update)
  ultimately have "session_told i ([] @ [encode (tx_frame m)]) d ?t" by (rule session_told_trans)
  with t session_reads_frames [OF c f, of E] show ?thesis
    by (intro exI [of _ ?t] exI [of _ m]) (simp add: frame_received_def)
qed

section \<open>The simulator answers\<close>

text \<open>Connected, with every queue empty.\<close>

definition sim_idle :: "sim \<Rightarrow> bool" where
  "sim_idle s \<longleftrightarrow> sim_connected s \<and> \<not> listening s \<and> acc (sim_framer s) = [] \<and> handling s = []
     \<and> items (tc_q s) = [] \<and> tm_out (disp s) = [] \<and> items (tm_q s) = [] \<and> tx_handlers s = []
     \<and> in_flight s = []"

text \<open>One telecommand through the three threads, with two reports.\<close>

definition serve_one :: "bytes \<Rightarrow> sim_event list" where
  "serve_one p = [ReadCompleted (Inr p), QueueTc, DispatchTc, QueueTm, QueueTm, TakeTm, TakeTm, RunTx, RunTx]"

text \<open>The reports, numbered from the dispatcher's counter.\<close>

definition hk_answers :: "'p ccsdspack \<Rightarrow> (nat \<Rightarrow> u64) \<Rightarrow> dispatcher \<Rightarrow> bytes \<Rightarrow> bytes list" where
  "hk_answers L clk k p =
     [build_tm L (clk (builds k)) APID_OBC (tm_seq k) SVC_VERIFY SUB_VERIFY_ACCEPT_OK PUSID_GS (take 4 p),
      build_tm L (clk (Suc (builds k))) APID_OBC (tm_seq k + 1) SVC_HK SUB_SYS_HK_REPORT PUSID_GS
        (system_hk_octets (take 4 p))]"

lemma parse_hk_packet:
  assumes "mission_library L" and "hk_builds L sq"
  shows "\<exists>tc. parse_command L now (hk_packet L sq) = Some tc \<and> svc (tc_meta tc) = SVC_HK
    \<and> ssvc (tc_meta tc) = SUB_SYS_HK_REQUEST \<and> tc_pus tc = \<lparr>source_id = PUSID_GS,
        acknowledgement_flags = EXN_PUS_TC_ACK_READ_DEFAULT, request_id = take 4 (hk_packet L sq)\<rparr>"
proof -
  obtain e where "build_pus_c_tc L APID_OBC sq SVC_HK SUB_SYS_HK_REQUEST PUSID_GS
      EXN_PUS_TC_ACK_READ_DEFAULT [] = (True, hk_packet L sq, e)"
    using assms(2) by (cases "build_pus_c_tc L APID_OBC sq SVC_HK SUB_SYS_HK_REQUEST PUSID_GS
      EXN_PUS_TC_ACK_READ_DEFAULT []") (auto simp: hk_builds_def hk_packet_def)
  from parse_built_tc [OF _ _ this, of now empty_tc_info] assms(1) show ?thesis
    by (auto simp: parse_command_def mission_library_def)
qed

lemma hk_packet_dispatched:
  assumes "mission_library L" and "hk_builds L sq" and "parse_command L now (hk_packet L sq) = Some tc"
    and "\<forall>r \<in> set (hk_answers L clk k (hk_packet L sq)). r \<noteq> []" and "tm_out k = []"
  shows "\<exists>k'. dispatch L clk tc k = Done k' \<and> tm_out k' = hk_answers L clk k (hk_packet L sq)"
proof -
  from parse_hk_packet [OF assms(1,2), of now] assms(3)
  have tc: "svc (tc_meta tc) = SVC_HK" "ssvc (tc_meta tc) = SUB_SYS_HK_REQUEST"
    "tc_pus tc = \<lparr>source_id = PUSID_GS, acknowledgement_flags = EXN_PUS_TC_ACK_READ_DEFAULT,
       request_id = take 4 (hk_packet L sq)\<rparr>" by auto
  have "replies tc = [(SVC_VERIFY, SUB_VERIFY_ACCEPT_OK, take 4 (hk_packet L sq)),
      (SVC_HK, SUB_SYS_HK_REPORT, system_hk_octets (take 4 (hk_packet L sq)))]"
    by (simp add: replies_def tc Let_def supported_request_def hk_answer_def ack_bits_8
        EXN_PUS_TC_ACK_READ_DEFAULT_def) (simp add: mission_ids)
  with send_all_numbered [of L clk PUSID_GS "replies tc" k] assms(4,5)
    dispatch_send_all [of tc L clk k] parse_command_Some(2) [OF assms(3)]
  show ?thesis by (simp add: wrap_seq_def hk_answers_def tc(3))
qed

lemma sim_callback_set: "sim_reach S s \<Longrightarrow> has_callback (sim_framer s)"
proof (induction rule: sim_reach.induct)
  case sim_starts
  then show ?case by (simp add: sim_start_def start_session_def set_on_packet_def)
next
  case (sim_steps s e t)
  show ?case
  proof (cases e)
    case (ReadCompleted r)
    with sim_steps.IH sim_steps.hyps(2) show ?thesis
      by (cases r) (auto simp: start_session_def set_on_packet_def Let_def split: if_splits prod.splits
          dest: push_bytes_keeps(1))
  qed (use sim_steps in \<open>auto simp: start_session_def set_on_packet_def split: if_splits option.splits
      list.splits prod.splits\<close>)
qed

lemma sim_answers:
  assumes "mission_library L" and "sim_lib S = L" and "hk_builds L sq" and "p = hk_packet L sq"
    and "sound_packet L p" and "sim_reach S s" and "sim_idle s"
    and "rs = hk_answers L (tx_clock S) (disp s) p" and "\<forall>r \<in> set rs. r \<noteq> []"
  shows "\<exists>t. sim_run S (serve_one p) s = Some (Done t) \<and> in_flight t = rs \<and> handling t = []"
proof -
  obtain r1 r2 where rs: "rs = [r1, r2]" using assms(8) by (simp add: hk_answers_def)
  have idle: "sim_connected s" "\<not> listening s" "acc (sim_framer s) = []" "handling s = []" "items (tc_q s) = []"
    "tm_out (disp s) = []" "items (tm_q s) = []" "tx_handlers s = []" "in_flight s = []"
    using assms(7) by (simp_all add: sim_idle_def)
  have lib: "sizes_sane L" "header_only (declared_packet_size L)"
    using assms(1) by (simp_all add: mission_library_def)
  obtain tc where tc: "parse_command L (rx_clock S (parses s)) p = Some tc"
    using parse_hk_packet [OF assms(1,3)] assms(4) by blast
  obtain k where k: "dispatch L (tx_clock S) tc (disp s) = Done k" "tm_out k = [r1, r2]"
    using hk_packet_dispatched [OF assms(1,3), of _ tc "tx_clock S" "disp s"] tc assms(4,8,9) idle(6) rs by auto
  have cut: "push_bytes (declared_packet_size L) p (sim_framer s) = Done (sim_framer s, [p])"
    using sound_packets_cut [OF lib, of "[p]" "sim_framer s"] assms(5) idle(3) sim_callback_set [OF assms(6)] by simp
  have ok: "ring_ok (tc_q s)" "slots (tc_q s) = 64" "ring_ok (tm_q s)" "slots (tm_q s) = 64"
    using sim_reach_inv [OF assms(6)] by (simp_all add: sim_inv_def)
  obtain q1 where q1: "try_push tc (tc_q s) = Some q1" "ring_ok q1" "items q1 = [tc]"
    using ring.push_fits [OF ok(1), of tc] ok(2) idle(5) by auto
  obtain q2 where q2: "try_pop q1 = Some (tc, q2)" using ring.pop_front [OF q1(2,3)] by blast
  obtain m1 where m1: "try_push r1 (tm_q s) = Some m1" "ring_ok m1" "slots m1 = 64" "items m1 = [r1]"
    using push_room [OF ok(3), of r1] ok(4) idle(7) length_items [of "tm_q s"] by (auto simp del: length_items)
  obtain m2 where m2: "try_push r2 m1 = Some m2" "ring_ok m2" "items m2 = [r1, r2]"
    using push_room [OF m1(2), of r2] m1(3,4) length_items [of m1] by (auto simp del: length_items)
  obtain m3 where m3: "try_pop m2 = Some (r1, m3)" "ring_ok m3" "items m3 = [r2]"
    using ring.pop_front [OF m2(2,3)] by blast
  obtain m4 where m4: "try_pop m3 = Some (r2, m4)" using ring.pop_front [OF m3(2,3)] by blast
  note run = cut tc k q1(1) q2 m1(1) m2(1) m3(1) m4 idle
  show ?thesis
    by (simp add: serve_one_def assms(2) run rs Let_def)
qed

text \<open>The writes end one after the other.\<close>

definition write_out :: "bytes list \<Rightarrow> sim_event list" where
  "write_out rs = map (\<lambda>r. TxWrote 0 (length r)) rs"

lemma sim_writes_out:
  assumes "handling s = []" and "in_flight s = rs" and "\<forall>r \<in> set rs. r \<noteq> []"
  shows "\<exists>t. sim_run S (write_out rs) s = Some (Done t) \<and> wire S (write_out rs) s = concat rs \<and> in_flight t = []"
  using assms
proof (induction rs arbitrary: s)
  case Nil
  then show ?case by (simp add: write_out_def wire_def)
next
  case (Cons r rs)
  let ?u = "s\<lparr>in_flight := rs\<rparr>"
  have "sim_step S (TxWrote 0 (length r)) s = Some (Done ?u)"
    using Cons.prems by (simp add: can_write_def wrote_def)
  moreover obtain t where "sim_run S (write_out rs) ?u = Some (Done t)" "wire S (write_out rs) ?u = concat rs"
    "in_flight t = []" using Cons.IH [of ?u] Cons.prems by auto
  ultimately show ?case using Cons.prems(2) by (simp add: write_out_def wire_def del: sim_step.simps)
qed

section \<open>The answers are shown\<close>

text \<open>The packets decode, at consecutive readings of the clock, to the given headers.\<close>

definition decoded_as :: "'p environment \<Rightarrow> nat \<Rightarrow> bytes list \<Rightarrow> packet_meta list \<Rightarrow> bool" where
  "decoded_as E n ps ms \<longleftrightarrow>
     list_all2 (\<lambda>(k, p) m. decode_meta (lib E) (clock E k) p = Done (True, m, [])) (enumerate n ps) ms"

lemma reception_sound:
  assumes "sizes_sane (lib E)" and "\<forall>p \<in> set ps. sound_packet (lib E) p"
  shows "\<exists>ms. decoded_as E n ps ms \<and> map snd (reception E n ps) = map rx_frame ms"
  using assms(2)
proof (induction ps arbitrary: n)
  case Nil
  show ?case by (rule exI [of _ "[]"]) (simp add: decoded_as_def)
next
  case (Cons p ps)
  obtain ok m e where m: "decode_meta (lib E) (clock E n) p = Done (ok, m, e)"
    using decode_meta_defined [OF assms(1)] by blast
  moreover have ok "e = []"
    using decode_meta_result(1,2) [OF m] Cons.prems by (simp_all add: sound_packet_def)
  moreover obtain ms where "decoded_as E (Suc n) ps ms"
    "map snd (reception E (Suc n) ps) = map rx_frame ms"
    using Cons by (metis list.set_intros(2))
  ultimately show ?case
    by (intro exI [of _ "m # ms"]) (simp add: decoded_as_def rx_frame_def Let_def)
qed

lemma rows_shown:
  "length (rx_rows u) \<le> 5000 \<Longrightarrow> \<exists>w. fold_cpp client_callback (map GotFrame (map rx_frame ms)) u = Done w
     \<and> rx_rows w = last_n 5000 (rx_rows u @ map (\<lambda>m. (m, ''RX'')) ms) \<and> tx_rows w = tx_rows u"
proof (induction ms arbitrary: u)
  case Nil
  then show ?case by (simp add: last_n_def)
next
  case (Cons m ms)
  have f: "frame_shown (rx_frame m) u = Done (push_rx m ''RX'' u)"
    using unpack_pack_packet_meta [of "''RX''" m "[]"]
    by (simp add: frame_shown_def rx_frame_def make_packet_frame_def)
  have r: "rx_rows (push_rx m ''RX'' u) = last_n 5000 (rx_rows u @ [(m, ''RX'')])"
    "tx_rows (push_rx m ''RX'' u) = tx_rows u"
    by (simp_all add: push_rx_def trim_rows_last_n)
  with Cons.IH [of "push_rx m ''RX'' u"] last_n_append_last_n [of 5000 "rx_rows u @ [(m, ''RX'')]"]
  show ?case by (auto simp: f)
qed

text \<open>What session \<open>i\<close> is sent for the request and its answers, in the order it reads.\<close>

definition hk_frames :: "packet_meta \<Rightarrow> packet_meta list \<Rightarrow> frame list" where
  "hk_frames m ms = tx_frame m # map rx_frame ms"

lemma hk_frames_drained: "drain_frames (concat (map encode (hk_frames m ms))) = Done (hk_frames m ms, [])"
  by (rule drain_encoded)
    (auto simp: short_frame_def hk_frames_def rx_frame_def tx_frame_def make_packet_frame_def)

lemma hk_frames_shown:
  assumes "length (rx_rows u) \<le> 5000"
  shows "\<exists>w. fold_cpp client_callback (map GotFrame (hk_frames m ms)) u = Done w
     \<and> tx_rows w = last_n 5000 (tx_rows u @ [(m, ''TX'')])
     \<and> rx_rows w = last_n 5000 (rx_rows u @ map (\<lambda>m. (m, ''RX'')) ms)"
proof -
  have f: "frame_shown (tx_frame m) u = Done (push_tx m ''TX'' u)"
    using unpack_pack_packet_meta [of "''TX''" m "[]"]
    by (simp add: frame_shown_def tx_frame_def make_packet_frame_def)
  have "rx_rows (push_tx m ''TX'' u) = rx_rows u"
    "tx_rows (push_tx m ''TX'' u) = last_n 5000 (tx_rows u @ [(m, ''TX'')])"
    by (simp_all add: push_tx_def trim_rows_last_n)
  with rows_shown [of "push_tx m ''TX'' u" ms] assms show ?thesis by (auto simp: f hk_frames_def)
qed

lemma ui_shows:
  assumes "length (rx_rows u) \<le> 5000" and "ReadC \<in> set (cl_pending (client u))" and "cl_rxbuf (client u) = []"
  shows "\<exists>w. ui_step L edit (ClientEvent (CompleteC ReadC (Inr (concat (map encode (hk_frames m ms)))))) u = Some (Done w)
    \<and> tx_rows w = last_n 5000 (tx_rows u @ [(m, ''TX'')])
    \<and> rx_rows w = last_n 5000 (rx_rows u @ map (\<lambda>m. (m, ''RX'')) ms)"
  using assms(2,3) hk_frames_shown [of "u\<lparr>client := c\<rparr>" m ms for c] assms(1)
  by (simp add: read_done_def hk_frames_drained)

section \<open>The answers reach the session\<close>

lemma daemon_announces:
  assumes "sizes_sane (lib E)" and "header_only (declared_packet_size (lib E))" and "daemon_reach E d"
    and "acc (deframer d) = []" and "ReadOp (generation (dev d)) \<in> set (pending (dev d))"
    and "\<forall>r \<in> set rs. sound_packet (lib E) r" and "rs \<noteq> []"
  shows "\<exists>t ms. daemon_step E (LinkCompleted (ReadOp (generation (dev d))) (Inr (concat rs))) d = Some (Done t)
    \<and> decoded_as E (ticks d) rs ms \<and> session_told i (map (encode \<circ> rx_frame) ms) d t"
proof -
  have w: "\<forall>r \<in> set rs. whole_packet (declared_packet_size (lib E)) r"
    using assms(1,6) sound_packet_whole by blast
  obtain ms where ms: "decoded_as E (ticks d) rs ms" "map snd (reception E (ticks d) rs) = map rx_frame ms"
    using reception_sound [OF assms(1,6)] by blast
  then have "map (encode \<circ> snd) (reception E (ticks d) rs) = map (encode \<circ> rx_frame) ms"
    by (metis map_map)
  with ms(1) device_packets_step [OF assms(1-4,7) w assms(5), of i] show ?thesis by metis
qed

section \<open>A library for both directions\<close>

text \<open>
  The codec \<open>icd_pack\<close> with telemetry: a 13-octet secondary header with PUS version 2 and status,
  service, subservice, and the destination, its counter and time left zero. The packet type tells
  the two secondary headers apart.
\<close>

definition two_way_serialize :: "icd_packet \<Rightarrow> string + bytes" where
  "two_way_serialize p =
     (if hdr_type (ip_header p) = 1 then icd_serialize p
      else case ip_tc p of None \<Rightarrow> Inl ''no secondary header''
      | Some t \<Rightarrow>
        let h = (ip_header p)\<lparr>hdr_length := of_nat (14 + length (ip_data p))\<rparr>;
            body = icd_write_primary h @ [0x20 OR tc_acks t, tc_service t, tc_subtype t, 0, 0]
              @ append_u16 [] (tc_source t) @ replicate 6 0 @ ip_data p
        in Inr (append_u16 body (crc16 body)))"

definition two_way_pack :: "icd_packet ccsdspack" where
  "two_way_pack = icd_pack\<lparr>
     set_secondary := (\<lambda>h p. Inr (case h of
         TcHeader s t i a \<Rightarrow> p\<lparr>ip_header := (ip_header p)\<lparr>hdr_type := 1, hdr_secondary := 1\<rparr>,
           ip_tc := Some \<lparr>tc_service = s, tc_subtype = t, tc_source = i, tc_acks = a\<rparr>\<rparr>
       | TmHeader _ s t n dest st _ \<Rightarrow> p\<lparr>ip_header := (ip_header p)\<lparr>hdr_type := 0, hdr_secondary := 1\<rparr>,
           ip_tc := Some \<lparr>tc_service = s, tc_subtype = t, tc_source = dest, tc_acks = st\<rparr>\<rparr>)),
     serialize := two_way_serialize,
     secondary_tc := (\<lambda>p. if hdr_type (ip_header p) = 1 then ip_tc p else None)\<rparr>"

lemma two_way_setters: "setters_ok two_way_pack"
  by (auto simp: setters_ok_def two_way_pack_def icd_pack_def split: if_splits)

lemma two_way_wire: "wire_ok two_way_pack"
  unfolding wire_ok_def
proof (intro allI impI)
  fix p h bs
  assume "serialize two_way_pack p = Inr bs" and "secondary_tc two_way_pack p = Some h"
  then have "serialize icd_pack p = Inr bs" "secondary_tc icd_pack p = Some h" and one: "hdr_type (ip_header p) = 1"
    by (auto simp: two_way_pack_def icd_pack_def two_way_serialize_def split: if_splits)
  with icd_wire_ok obtain q n where q: "6 \<le> length bs"
    "deserialize_tc icd_pack bs (set_crc16 icd_pack (new_packet icd_pack)) = Inr q"
    "secondary_tc icd_pack q = Some h" "data_of icd_pack q = data_of icd_pack p"
    "primary_of icd_pack q = (primary_of icd_pack p)\<lparr>hdr_length := n\<rparr>"
    unfolding wire_ok_def by blast
  then have "hdr_type (ip_header q) = 1" using one by (simp add: icd_pack_def)
  with q show "6 \<le> length bs \<and> (\<exists>q. deserialize_tc two_way_pack bs (set_crc16 two_way_pack (new_packet two_way_pack)) = Inr q
      \<and> secondary_tc two_way_pack q = Some h \<and> data_of two_way_pack q = data_of two_way_pack p
      \<and> (\<exists>n. primary_of two_way_pack q = (primary_of two_way_pack p)\<lparr>hdr_length := n\<rparr>))"
    by (auto simp: two_way_pack_def icd_pack_def)
qed

lemma two_way_mission: "mission_library two_way_pack"
  using two_way_setters two_way_wire icd_sizes_sane header_only_icd
  by (simp add: mission_library_def two_way_pack_def sizes_sane_def) (simp add: icd_pack_def)

lemma two_way_sound:
  "routable two_way_pack p \<longleftrightarrow> icd_declared_size p = Inr (length p)"
  by (auto simp: routable_def two_way_pack_def icd_pack_def icd_declared_size_def icd_read_primary_def Let_def
      split: if_splits)

lemma two_way_request:
  "build_pus_c_tc two_way_pack APID_OBC 1 SVC_HK SUB_SYS_HK_REQUEST PUSID_GS EXN_PUS_TC_ACK_READ_DEFAULT []
     = (True, append_u16 [25, 0, 192, 1, 0, 6, 40, 3, 128, 0, 16]
         (crc16 [25, 0, 192, 1, 0, 6, 40, 3, 128, 0, 16]), [])"
proof -
  have c: "c = push_bit 8 (ucast (ucast (drop_bit 8 c AND 255) :: byte)) OR ucast (ucast (c AND 255) :: byte)" for c :: u16
    using read_append_u16 [of c "[]"] by (simp add: append_u16_def read_u16_def del: read_append_u16)
  have "icd_serialize \<lparr>ip_header = \<lparr>hdr_version = 0, hdr_type = 1, hdr_secondary = 1, hdr_apid = 0x100,
       hdr_seq_flags = 3, hdr_seq_count = 1, hdr_length = 0\<rparr>,
     ip_tc = Some \<lparr>tc_service = 3, tc_subtype = 128, tc_source = 0x10, tc_acks = 8\<rparr>,
     ip_data = []\<rparr> = Inr (append_u16 [25, 0, 192, 1, 0, 6, 40, 3, 128, 0, 16]
         (crc16 [25, 0, 192, 1, 0, 6, 40, 3, 128, 0, 16]))"
    by (simp add: icd_serialize_def Let_def icd_write_primary_def append_u16_def
        icd_read_tc_def icd_declared_size_def read_u16_def icd_read_primary_def flip: c)
  then show ?thesis
    by (simp add: build_pus_c_tc_def prepare_primary_def Let_def two_way_pack_def icd_pack_def finish_packet_def
        two_way_serialize_def mission_ids)
qed

definition tm_octets :: "u16 \<Rightarrow> byte \<Rightarrow> byte \<Rightarrow> u16 \<Rightarrow> bytes \<Rightarrow> bytes" where
  "tm_octets sq sv sb dest d = [9, 0] @ append_u16 [] (0xC000 OR sq) @ append_u16 [] (of_nat (14 + length d))
     @ [32, sv, sb, 0, 0] @ append_u16 [] dest @ replicate 6 0 @ d"

lemma two_way_report_octets:
  assumes "sq < 0x4000"
  shows "build_tm two_way_pack now APID_OBC sq sv sb dest d
    = append_u16 (tm_octets sq sv sb dest d) (crc16 (tm_octets sq sv sb dest d))"
  using assms
  by (simp add: build_tm_def build_pus_c_tm_def prepare_primary_def Let_def
      two_way_pack_def icd_pack_def finish_packet_def two_way_serialize_def mission_ids
      icd_write_primary_def tm_octets_def append_u16_def)

lemma two_way_report:
  assumes "sq < 0x4000" and "length d < 1000"
  shows "sound_packet two_way_pack (build_tm two_way_pack now APID_OBC sq sv sb dest d)"
proof -
  let ?b = "append_u16 (tm_octets sq sv sb dest d) (crc16 (tm_octets sq sv sb dest d))"
  have "drop 4 ?b = append_u16 [] (of_nat (14 + length d))
      @ drop 6 ?b" and n: "length ?b = 21 + length d"
    by (simp_all add: tm_octets_def append_u16_def)
  then have "read_u16 (drop 4 ?b) = of_nat (14 + length d)" by simp
  moreover have "unat (of_nat (14 + length d) :: u16) = 14 + length d"
    using assms(2) by (intro unat_of_nat_small) simp
  moreover have "?b ! 0 = 9" by (simp add: tm_octets_def append_u16_def)
  ultimately have "icd_declared_size ?b = Inr (length ?b)"
    using n by (simp add: icd_declared_size_def)
  then show ?thesis
    using assms n by (simp add: sound_packet_def two_way_sound two_way_report_octets)
qed

section \<open>A concrete run\<close>

text \<open>A UI that connected, was told that the device is, and in which HK_REQ was typed.\<close>

lemma press_reach:
  "ui_reach L edit u \<Longrightarrow> running (press edit ks u) \<Longrightarrow> ui_reach L edit (press edit ks u)"
proof (induction ks rule: rev_induct)
  case Nil
  then show ?case by (simp add: press_def)
next
  case (snoc k ks)
  let ?u = "press edit ks u"
  have k: "press edit (ks @ [k]) u = snd (ui_key edit k ?u)" by (simp add: press_def)
  moreover have "running (snd (ui_key edit k v)) \<Longrightarrow> running v" for v
    by (auto simp: ui_key_def submit_command_def set_notice_def send_command_def Let_def
        split: if_splits prod.splits)
  ultimately have "running ?u" using snoc.prems(2) by simp
  with snoc.IH [OF snoc.prems(1)] k show ?case by (auto intro: ui_steps [where e = "Key k"])
qed

definition bench_link :: frame where
  "bench_link = \<lparr>ftype = LinkStateMsg, payload = pack_string ''CONNECTED''\<rparr>"

definition bench_typed :: "key list" where
  "bench_typed = Character CHR ''c'' # map Character ''hk_req'' @ [Return]"

lemma hk_req_typed:
  assumes "\<not> help_mode u" and "\<not> cmd_mode u" and "cmd_input u = []"
    and "daemon_connected u" and "device_connected u"
  shows "press type_at_end bench_typed u = u\<lparr>cmd_mode := True, cmd_input := [],
    hk_posted := Suc (hk_posted u), notice_line := ''System HK request queued''\<rparr>"
proof -
  let ?v = "u\<lparr>cmd_mode := True\<rparr>"
  have split: "press edit (ks @ ls) w = press edit ls (press edit ks w)" for edit ks ls w
    by (simp add: press_def)
  have keys: "bench_typed = [Character CHR ''c''] @ map Character ''hk_req'' @ [Return]"
    by (simp add: bench_typed_def)
  have 1: "press type_at_end [Character CHR ''c''] u = ?v"
    using assms(1,2) by (simp add: press_def ui_key_def)
  have 2: "press type_at_end (map Character ''hk_req'') ?v = ?v\<lparr>cmd_input := ''hk_req''\<rparr>"
    using press_characters [OF appends_type_at_end, of ?v "''hk_req''"] assms(1,3) by simp
  have "uppercase (trim ''hk_req'') = ''HK_REQ''" by code_simp
  then have "press type_at_end [Return] (?v\<lparr>cmd_input := ''hk_req''\<rparr>)
      = (submit_command ''HK_REQ'' (?v\<lparr>cmd_input := ''hk_req''\<rparr>))\<lparr>cmd_input := []\<rparr>"
    using assms(1) by (simp add: press_def ui_key_def Let_def)
  with assms(4,5) show ?thesis
    unfolding keys split 1 2 by (cases u) (simp add: submit_command_def set_notice_def)
qed

lemma bench_ui_reach:
  "\<exists>u. ui_reach L type_at_end u \<and> client u = up_client \<and> hk_posted u = 1 \<and> tc_sequence u = 1 \<and> rx_rows u = []"
proof -
  let ?u = "ui_start ''127.0.0.1'' 7777"
  let ?c = "client ?u"
  have "ui_step L type_at_end (ClientEvent (CompleteC ResolveC (Inr []))) ?u
      = Some (Done (?u\<lparr>client := ?c\<lparr>cl_pending := [ConnectC]\<rparr>\<rparr>))" (is "_ = Some (Done ?v)")
    by (simp add: ui_start_def client_start_def new_client_def client_ops)
  then have v: "ui_reach L type_at_end ?v" by (rule ui_steps [OF ui_starts])
  have "\<exists>x. ui_step L type_at_end (ClientEvent (CompleteC ConnectC (Inr []))) ?v
      = Some (Done (connection_changed True x (?v\<lparr>client := up_client\<rparr>)))"
    by (simp add: ui_start_def client_start_def new_client_def client_ops up_client_def) (rule exI, rule refl)
  then obtain x where x: "ui_step L type_at_end (ClientEvent (CompleteC ConnectC (Inr []))) ?v
      = Some (Done (connection_changed True x (?v\<lparr>client := up_client\<rparr>)))" (is "_ = Some (Done ?w)") ..
  have w: "ui_reach L type_at_end ?w" by (rule ui_steps [OF v x])
  have "drain_frames (encode bench_link) = Done ([bench_link], [])"
    using drain_encoded [of "[bench_link]"] by (simp add: short_frame_def bench_link_def pack_string_def)
  then have "ui_step L type_at_end (ClientEvent (CompleteC ReadC (Inr (encode bench_link)))) ?w
      = Some (frame_shown bench_link ?w)"
    by (simp add: connection_changed_def up_client_def read_done_def client_do_read_def begin_op_def Let_def
        ui_start_def)
  also have "frame_shown bench_link ?w = Done (?w\<lparr>device_connected := True, device_line := ''CONNECTED''\<rparr>)"
    (is "_ = Done ?y")
    using unpack_pack_string [of "''CONNECTED''" "[]"]
    by (simp add: frame_shown_def bench_link_def starts_with_def)
  finally have y: "ui_reach L type_at_end ?y" by (rule ui_steps [OF w])
  have flags: "\<not> help_mode ?y" "\<not> cmd_mode ?y" "cmd_input ?y = []" "daemon_connected ?y"
    "device_connected ?y" by (simp_all add: connection_changed_def ui_start_def Let_def)
  have "running (press type_at_end bench_typed ?y)"
    unfolding hk_req_typed [OF flags(1-5)] by (simp add: connection_changed_def ui_start_def Let_def)
  from press_reach [OF y this] show ?thesis
    unfolding hk_req_typed [OF flags(1-5)]
    by (intro exI conjI) (assumption, simp_all add: connection_changed_def ui_start_def Let_def)
qed

definition two_way_bench :: "icd_packet environment" where
  "two_way_bench = bench\<lparr>lib := two_way_pack\<rparr>"

definition two_way_sim :: "icd_packet sim_env" where
  "two_way_sim = bench_sim\<lparr>sim_lib := two_way_pack\<rparr>"

definition sim_waiting :: sim where
  "sim_waiting = sim_start\<lparr>listening := False, sim_connected := True\<rparr>"

lemma two_way_hk:
  "hk_builds two_way_pack 1" "sound_packet two_way_pack (hk_packet two_way_pack 1)"
  "length (hk_packet two_way_pack 1) = 13"
  by (simp_all add: hk_builds_def hk_packet_def two_way_request sound_packet_def two_way_sound)
    (simp add: icd_declared_size_def append_u16_def read_u16_def)

lemma two_way_daemon: "daemon_reach two_way_bench bench_client"
proof -
  have "daemon_init two_way_bench ''/dev/ttyACM0'' 115200 (open_sink True []) = Inr (Done bench_open)"
    using start_serial_fixture
    by (simp add: daemon_init_def new_serial_fixture Let_def start_link_def apply_link_def
        daemon_ops two_way_bench_def bench_def bench_open_def broadcast_def new_server_def)
  from daemon_steps [OF daemon_starts [OF this], of Accepted] show ?thesis by (simp add: bench_client_def)
qed

lemma two_way_daemon_ready: "daemon_ready 0 bench_client"
  by (simp add: daemon_ready_def bench_client_fields serial_open_fixture_def set_on_packet_def new_framer_def)
    (simp add: session_ops new_session_def)

lemma two_way_sim_waiting: "sim_reach two_way_sim sim_waiting" "sim_idle sim_waiting"
  by (rule sim_steps [OF sim_starts, of _ "ConnectionAccepted None"])
    (simp_all add: sim_waiting_def sim_start_def start_session_def sim_idle_def set_on_packet_def new_framer_def
      items_new_ring new_dispatcher_def)

section \<open>Property\<close>

text \<open>C1: A housekeeping request makes the round trip through all programs, for every reachable UI,
  daemon and simulator that are ready for it: the UI posts one packet; the daemon that reads it
  posts the same octets to the device and announces them; the simulator that reads those sends
  exactly two reports, the acceptance and the System HK report, both for the request's first
  four octets and addressed to the ground segment; the octets these put on the wire, when the second write
  does not cut into the first, are what the daemon reads, which then tells the
  requesting session their headers, in order, after the announcement of the request; and the UI
  that reads this shows one more sent and two more received packets.\<close>
theorem housekeeping_round_trip:
  assumes "mission_library L" and "lib E = L" and "sim_lib S = L"
    and "ui_reach L edit u" and "ui_ready L u" and "p = hk_packet L (tc_sequence u)" and "sound_packet L p"
    and "daemon_reach E d" and "daemon_ready i d" and "sim_reach S s" and "sim_idle s"
    and "rs = hk_answers L (tx_clock S) (disp s) p" and "\<forall>r \<in> set rs. sound_packet L r"
  shows "\<exists>v t s' s'' t' w m ms. ui_step L edit RunHkRequest u = Some (Done v)
    \<and> cl_posted (client v) = cl_posted (client u) @ [encode (packet_frame p)]
    \<and> daemon_step E (SessionRead i (Inr (encode (packet_frame p)))) d = Some (Done t)
    \<and> posted (dev t) = posted (dev d) @ [p]
    \<and> sim_run S (serve_one p) s = Some (Done s') \<and> in_flight s' = rs
    \<and> sim_run S (write_out rs) s' = Some (Done s'') \<and> in_flight s'' = [] \<and> wire S (write_out rs) s' = concat rs
    \<and> daemon_step E (LinkCompleted (ReadOp (generation (dev t))) (Inr (concat rs))) t = Some (Done t')
    \<and> decoded_as E (ticks t) rs ms
    \<and> session_told i (map encode (hk_frames m ms)) d t'
    \<and> ui_step L edit (ClientEvent (CompleteC ReadC (Inr (concat (map encode (hk_frames m ms)))))) v = Some (Done w)
    \<and> tx_rows w = last_n 5000 (tx_rows u @ [(m, ''TX'')])
    \<and> rx_rows w = last_n 5000 (rx_rows u @ map (\<lambda>m. (m, ''RX'')) ms)"
proof -
  have lib: "sizes_sane (lib E)" "header_only (declared_packet_size (lib E))"
    using assms(1,2) by (simp_all add: mission_library_def)
  obtain v where v: "ui_step L edit RunHkRequest u = Some (Done v)"
    "client v = (client u)\<lparr>cl_posted := cl_posted (client u) @ [encode (packet_frame p)]\<rparr>"
    "rx_rows v = rx_rows u" "tx_rows v = tx_rows u"
    using ui_requests [OF assms(5)] assms(6) by blast
  obtain t m where t: "daemon_step E (SessionRead i (Inr (encode (packet_frame p)))) d = Some (Done t)"
    "dev t = (dev d)\<lparr>posted := posted (dev d) @ [p]\<rparr>" "deframer t = deframer d"
    "session_told i [encode (tx_frame m)] d t"
    using daemon_passes_on [OF lib(1) parts_ok_reach [OF assms(8)] assms(9)] assms(2,7) by blast
  obtain s' where s': "sim_run S (serve_one p) s = Some (Done s')" "in_flight s' = rs" "handling s' = []"
    using sim_answers [OF assms(1,3) _ assms(6,7,10,11,12)] assms(1,5,13) sound_packet_not_Nil
    by (auto simp: ui_ready_def mission_library_def)
  obtain s'' where s'': "sim_run S (write_out rs) s' = Some (Done s'')" "wire S (write_out rs) s' = concat rs"
    "in_flight s'' = []"
    using sim_writes_out [OF s'(3,2), of S] sound_packet_not_Nil [of L] assms(1,13) by (auto simp: mission_library_def)
  have r: "acc (deframer t) = []" "ReadOp (generation (dev t)) \<in> set (pending (dev t))"
    using assms(9) t(2,3) by (simp_all add: daemon_ready_def)
  have rs: "\<forall>r \<in> set rs. sound_packet (lib E) r" "rs \<noteq> []"
    using assms(2,12,13) by (simp_all add: hk_answers_def)
  obtain t' ms where t': "daemon_step E (LinkCompleted (ReadOp (generation (dev t))) (Inr (concat rs))) t = Some (Done t')"
    "decoded_as E (ticks t) rs ms" "session_told i (map (encode \<circ> rx_frame) ms) t t'"
    using daemon_announces [OF lib daemon_steps [OF assms(8) t(1)] r rs] by blast
  have told: "session_told i (map encode (hk_frames m ms)) d t'"
    using session_told_trans [OF t(4) t'(3)] by (simp add: hk_frames_def)
  have "length (rx_rows v) \<le> 5000" "ReadC \<in> set (cl_pending (client v))" "cl_rxbuf (client v) = []"
    using ui_reach_inv [OF assms(4)] assms(5) v by (simp_all add: ui_inv_def ui_ready_def)
  from ui_shows [OF this, of L edit m ms] v(3,4) obtain w where
    "ui_step L edit (ClientEvent (CompleteC ReadC (Inr (concat (map encode (hk_frames m ms)))))) v = Some (Done w)"
    "tx_rows w = last_n 5000 (tx_rows u @ [(m, ''TX'')])"
    "rx_rows w = last_n 5000 (rx_rows u @ map (\<lambda>m. (m, ''RX'')) ms)" by auto
  with v(1,2) t(1,2) s' s'' t'(1,2) told show ?thesis
    by (intro exI [of _ v] exI [of _ t] exI [of _ s'] exI [of _ s''] exI [of _ t'] exI [of _ w] exI [of _ m] exI [of _ ms])
      (simp del: ui_step.simps daemon_step.simps)
qed

theorem housekeeping_round_trip_witness:
  "\<exists>u v t s' s'' t' w m ms. ui_step two_way_pack type_at_end RunHkRequest u = Some (Done v)
    \<and> cl_posted (client v) = [encode (packet_frame (hk_packet two_way_pack 1))]
    \<and> daemon_step two_way_bench (SessionRead 0 (Inr (encode (packet_frame (hk_packet two_way_pack 1)))))
        bench_client = Some (Done t)
    \<and> posted (dev t) = [hk_packet two_way_pack 1]
    \<and> sim_run two_way_sim (serve_one (hk_packet two_way_pack 1)) sim_waiting = Some (Done s')
    \<and> in_flight s' = hk_answers two_way_pack of_nat new_dispatcher (hk_packet two_way_pack 1)
    \<and> sim_run two_way_sim (write_out (in_flight s')) s' = Some (Done s'') \<and> in_flight s'' = []
    \<and> wire two_way_sim (write_out (in_flight s')) s' = concat (in_flight s')
    \<and> daemon_step two_way_bench (LinkCompleted (ReadOp (generation (dev t))) (Inr (concat (in_flight s')))) t
        = Some (Done t')
    \<and> session_told 0 (map encode (hk_frames m ms)) bench_client t'
    \<and> ui_step two_way_pack type_at_end
        (ClientEvent (CompleteC ReadC (Inr (concat (map encode (hk_frames m ms)))))) v = Some (Done w)
    \<and> rx_rows w = last_n 5000 (map (\<lambda>m. (m, ''RX'')) ms)"
proof -
  let ?p = "hk_packet two_way_pack 1"
  obtain u where u: "ui_reach two_way_pack type_at_end u" "client u = up_client" "hk_posted u = 1"
    "tc_sequence u = 1" "rx_rows u = []"
    using bench_ui_reach by blast
  have ready: "ui_ready two_way_pack u"
    using u two_way_hk(1) by (simp add: ui_ready_def up_client_def)
  have libs: "lib two_way_bench = two_way_pack" "sim_lib two_way_sim = two_way_pack" "tx_clock two_way_sim = of_nat"
    by (simp_all add: two_way_bench_def two_way_sim_def bench_sim_def)
  have k: "disp sim_waiting = new_dispatcher" by (simp add: sim_waiting_def sim_start_def start_session_def)
  have "length (take 4 ?p) < 1000" "length (system_hk_octets (take 4 ?p)) < 1000"
    by (simp_all add: two_way_hk(3) system_hk_octets_def hk_octets_def)
  then have rs: "\<forall>r \<in> set (hk_answers two_way_pack (tx_clock two_way_sim) (disp sim_waiting) ?p).
      sound_packet two_way_pack r"
    by (simp add: hk_answers_def k new_dispatcher_def two_way_report del: length_take)
  have "?p = hk_packet two_way_pack (tc_sequence u)" by (simp add: u(4))
  from housekeeping_round_trip [OF two_way_mission libs(1,2) u(1) ready this two_way_hk(2) two_way_daemon
      two_way_daemon_ready two_way_sim_waiting refl rs]
  obtain v t s' s'' t' w m ms where c: "ui_step two_way_pack type_at_end RunHkRequest u = Some (Done v)"
    "cl_posted (client v) = cl_posted (client u) @ [encode (packet_frame ?p)]"
    "daemon_step two_way_bench (SessionRead 0 (Inr (encode (packet_frame ?p)))) bench_client = Some (Done t)"
    "posted (dev t) = posted (dev bench_client) @ [?p]"
    "sim_run two_way_sim (serve_one ?p) sim_waiting = Some (Done s')"
    "in_flight s' = hk_answers two_way_pack (tx_clock two_way_sim) (disp sim_waiting) ?p"
    "sim_run two_way_sim (write_out (hk_answers two_way_pack (tx_clock two_way_sim) (disp sim_waiting) ?p)) s'
       = Some (Done s'')" "in_flight s'' = []"
    "wire two_way_sim (write_out (hk_answers two_way_pack (tx_clock two_way_sim) (disp sim_waiting) ?p)) s'
       = concat (hk_answers two_way_pack (tx_clock two_way_sim) (disp sim_waiting) ?p)"
    "daemon_step two_way_bench (LinkCompleted (ReadOp (generation (dev t)))
       (Inr (concat (hk_answers two_way_pack (tx_clock two_way_sim) (disp sim_waiting) ?p)))) t = Some (Done t')"
    "session_told 0 (map encode (hk_frames m ms)) bench_client t'"
    "ui_step two_way_pack type_at_end
       (ClientEvent (CompleteC ReadC (Inr (concat (map encode (hk_frames m ms)))))) v = Some (Done w)"
    "rx_rows w = last_n 5000 (rx_rows u @ map (\<lambda>m. (m, ''RX'')) ms)" by metis
  moreover have "cl_posted (client u) = []" "posted (dev bench_client) = []"
    by (simp_all add: u(2) up_client_def bench_client_fields serial_open_fixture_def serial_fixture_def)
  ultimately show ?thesis
    by (intro exI [of _ u] exI [of _ v] exI [of _ t] exI [of _ s'] exI [of _ s''] exI [of _ t'] exI [of _ w] exI [of _ m]
        exI [of _ ms]) (simp add: k libs(3) u(5) del: ui_step.simps daemon_step.simps)
qed

end
