(* ===== verification/Spec2Isabelle.thy ===== *)
theory Spec2Isabelle
  imports Protocol Framer State_Store Packet_Log Space_Packet Serial_Link Ipc_Server Daemon_App
    Daemon_Console Daemon_Progress Ring_Queue Mission Mission_Ids Simulator Sim_Main Sim_Progress Ipc_Client
    Ui_Text Ui_App Ui_View Ui_Screen Gsdctl Options Help_Texts Housekeeping
begin

text \<open>
  EXN-GS is the ground segment of the EXN mission: a daemon that owns the link to the
  spacecraft (a serial port or TCP) and serves local clients over TCP, a terminal UI, a
  command-line client, and a simulator of the spacecraft for tests. This library models
  these four programs and the code they share, and proves what makes each component
  correct, alone and together.

  The parts and how they interact. Octets from the device reach \<open>SerialLink\<close>, which hands
  them to the CCSDS framer; each packet it cuts is decoded, recorded, logged and announced
  by \<open>App::run\<close> to every session of the IPC server as a frame of the IPC protocol. A
  client's frame is a command to the daemon or a packet for the device, checked and posted
  to the link. Everything runs as completion handlers on one thread per program (the
  simulator and the UI have two or three threads that meet in a ring queue, atomics, or a
  posted handler).

  Theories, in the order of their imports, with the files they model:
  \<^item> GS_Prelude: outcomes of C++ code (\<open>Done\<close>, or \<open>UB\<close> for a read or write outside an object, an
    erasure past the end or a pop of an empty deque), containers, folds and lists, decimal text. Stream_Splitter: the interface
    of an incremental decoder and the independence of the chunks. Write_Queue: the interface
    of a writer with one write in progress. Cpp_Numbers: \<open>std::stoi\<close> and string searches.
    Progress: the interface of a program left to itself, whose steps use up its work and pass
    on what is waiting and what they add to it.
  \<^item> Protocol (\<open>shared/src/protocol.cpp\<close>, \<open>protocol.hpp\<close>): frames, their encoding, payloads, and
    the receive loops. Framer (\<open>shared/src/framer.cpp\<close>, \<open>daemon/framer.hpp\<close>): packets out of a
    byte stream. Space_Packet (\<open>shared/src/ccsds.cpp\<close>, \<open>time.cpp\<close>): building and decoding packets
    with the external library CCSDSPack. Mission (\<open>exn_interfaces.h\<close>): the identifiers the programs use,
    big-endian accessors, the structures the simulator sends. Mission_Ids: all enumerations and groups of macros
    as tables, and the declarations of the structures that no program uses yet.
  \<^item> State_Store, Packet_Log, Serial_Link, Ipc_Server, Daemon_App (\<open>daemon/src/state.cpp\<close>,
    \<open>storage_file.cpp\<close>, \<open>serial_link.cpp\<close>, \<open>ipc_server.cpp\<close>, \<open>app.cpp\<close>): the daemon. A record per class,
    a function per method and per handler, and the whole program as \<open>daemon_step\<close> over a
    record of its components. Daemon_Console: the lines the daemon prints of its traffic, a function beside
    each handler. Daemon_Progress: runs of the daemon in which nothing more arrives: posted handlers
    run, writes on open connections succeed, operations on closed ones are cancelled. Options (\<open>daemon/src/main.cpp\<close>, \<open>ui/src/main.cpp\<close>): the command lines and what
    they print.
  \<^item> Ipc_Client, Ui_Text, Ui_App, Ui_View (\<open>ui/src/ipc_client.cpp\<close>, \<open>ui/src/ui_app.cpp\<close>): the UI's
    connection, its text functions, its state, handlers and keys, and what it shows. Ui_Screen: the
    whole tree of elements the renderer builds, with the labels and the help box.
  \<^item> Ring_Queue, Simulator (\<open>sim/src/main.cpp\<close>): the queue between threads, first as functions and then
    access by access, the reports, the dispatch task, and the threads together as \<open>sim_step\<close>. Sim_Main:
    \<open>main\<close> and the lines printed. Sim_Progress: runs of the simulator's own steps to their end, and
    the interleaved octets of the reports it writes at the same time.
  \<^item> Gsdctl (\<open>tools/gsdctl/main.cpp\<close>): hexadecimal input, requests, the conversation. Help_Texts: its usage
    text and the UI's help against the commands that are carried out.
  \<^item> Housekeeping: the UI, the daemon and the simulator composed. This theory: the daemon and the
    command-line client composed.

  How code is modelled. Machine integers are words of their width, so counters and the
  32-bit length sums wrap as in C++. A class is a record, a method a function to the new
  state; a callback is a value in the list of outputs, applied by the component that
  registered it. An asynchronous operation in progress is part of the state and completes
  with any result, in any order: reachability (\<open>link_reach\<close>, \<open>session_reach\<close>, \<open>client_reach\<close>,
  \<open>daemon_reach\<close>, \<open>ui_reach\<close>, \<open>sim_reach\<close>, \<open>ring_reach\<close>) quantifies over all of them. Errors are values:
  \<open>Inl\<close> for a library error or an uncaught exception, \<open>None\<close> for \<open>return false\<close>, \<open>UB\<close> for undefined
  behaviour. CCSDSPack is the record \<open>ccsdspack\<close>, an argument; the hypotheses on it (\<open>sizes_sane\<close>,
  \<open>header_only\<close>, \<open>setters_ok\<close>, \<open>wire_ok\<close>, \<open>header_fits\<close>, \<open>builds_14_bits\<close>) state documented behaviour, and the codec
  \<open>icd_pack\<close>, which follows the packet profile, shows that they can hold. The clock, the results of opening the
  port, \<open>localtime_r\<close> and FTXUI's input line are arguments too.

  What the lemmas show. Decoders: encodings come back whole and in order however the
  stream is cut (\<open>stream_splitter\<close>, interpreted for the frame loop and for the framer); the loops
  terminate, with a bound; exactly which inputs overread or wedge a stream. Framer and store: every octet is
  accounted for, and the store is a function of the history of events. Link and sessions:
  one read and at most one write in progress, buffers written in order (\<open>async_writer\<close>, interpreted
  for the link, the sessions and the UI client), no effect after \<open>stop\<close>, and where a late
  completion is undefined. Daemon: invariants of store and link (\<open>daemon_invariant\<close>) and of the sessions
  (\<open>server_invariant\<close>) are proved once for all steps and instantiated for the reported link state, the
  device traffic, the records, the counters and the sessions' states; commands, packets and device data have
  their stated effect on every branch, and what was accepted is delivered, with the errors that cancelled
  operations of a lost link report once more (\<open>delivering\<close>, interpreted for the device, the clients and the
  simulator's telemetry); no octet from the device can crash it, the guards of framer and link see to that; the
  frame of a client that can, and the packets it can lose, are exhibited. UI: flags, lamps, lines and tables agree with the connection, typed text
  arrives once.
  Simulator: a bounded queue under every interleaving of memory accesses (\<open>bounded_fifo\<close>), telecommands in
  order, each answered as specified, by every report that the library builds, and all answered within a bound when
  the simulator is left to itself; reports laid out as the interface header declares. The writes of several
  reports overlap, so that on the wire their octets are an interleaving, and every interleaving can happen.
  Command-line client: a function of the frames alone, and against the daemon its exit codes. Texts: the
  console tells what the counters count (\<open>accounted\<close>), the help lists what is carried out.
  Housekeeping: a request and its two reports through all programs.

  Bounds. \<open>receive_loop\<close> takes fuel; one more than a sixth of the buffer's length is enough, since a
  frame has at least six octets. Other loops are recursion on what shrinks: the buffer, the
  chunks still to come, the list. The daemon's ring holds 2000 packets, its framer less than 65542 octets, the
  UI's tables 5000 rows, the simulator's queues 63 messages. Streams of the composed properties are
  below \<open>2 ^ 32\<close> octets, where the length guards do not wrap.

  Not modelled: what a write of the simulator that goes on after its socket was replaced would do (its
  intermediate handlers keep a reference to the old socket; here such a write just ends), how FTXUI lays its elements out and draws them, the set-up of sockets and threads and an
  acceptor that cannot listen, the inside of the HardRT scheduler, errors of the file system after the log is
  opened, the exception of closing a serial port whose baud rate was refused, the interleaving of lines two threads
  print at once, the console lines of the IPC server and of \<open>gsdctl\<close>'s errors, and the tests and scripts.
\<close>

section \<open>The daemon and the command-line client\<close>

text \<open>What a freshly accepted client is sent.\<close>

definition hello_frame :: frame where
  "hello_frame = \<lparr>ftype = Hello, payload = pack_string ''exn_gsd''\<rparr>"

definition posted_to :: "nat \<Rightarrow> daemon \<Rightarrow> frame list \<Rightarrow> bool" where
  "posted_to a d fs \<longleftrightarrow>
     (\<exists>s. get_session a (ipc d) = Some s \<and> alive s \<and> send_posted s = map encode fs)"

lemma posted_accepted:
  assumes "server_inv (ipc d)"
  shows "posted_to (next_id (ipc d)) (client_accepted d) [hello_frame, current_link_frame (store d)]"
proof -
  have "(next_id (ipc d), session_start new_session) \<in> set (sessions (accept_session (ipc d)))"
    by (simp add: accept_session_def)
  then have "get_session (next_id (ipc d)) (accept_session (ipc d)) = Some (session_start new_session)"
    using server_inv_accept [OF assms] by (intro get_session_mem)
  then show ?thesis
    by (simp add: posted_to_def client_accepted_def reply_def get_session_send session_send_def
        session_start_def session_do_read_def new_session_def hello_frame_def alive_def)
qed

lemma posted_reply: "posted_to a d fs \<Longrightarrow> posted_to a (reply a f d) (fs @ [f])"
  by (auto simp: posted_to_def get_session_send session_send_def alive_def)

lemma posted_announce:
  "server_inv (ipc d) \<Longrightarrow> posted_to a d fs \<Longrightarrow> posted_to a (announce f d) (fs @ [f])"
proof -
  assume "server_inv (ipc d)" and "posted_to a d fs"
  then obtain s where "get_session a (ipc d) = Some s" "send_posted s = map encode fs"
    "get_session a (broadcast f (ipc d)) = Some (session_send f s)"
    by (auto simp: posted_to_def dest: get_session_broadcast [where f = f])
  then show ?thesis by (simp add: posted_to_def) (simp add: session_send_def)
qed

lemma posted_same_ipc: "ipc t = ipc d \<Longrightarrow> posted_to a d fs \<Longrightarrow> posted_to a t fs"
  by (simp add: posted_to_def)

text \<open>What the client makes of the stream of a session that nothing was sent on before.\<close>

definition delivers :: "bytes list \<Rightarrow> nat \<Rightarrow> daemon \<Rightarrow> bool" where
  "delivers cs a d \<longleftrightarrow> (\<exists>s. get_session a (ipc d) = Some s \<and> concat cs = concat (send_posted s))
     \<and> length (concat cs) < 4294967000 \<and> [] \<notin> set cs"

lemma encode_not_Nil [simp]: "encode f \<noteq> []" "[] \<noteq> encode f"
  using length_encode [of f] by (cases "encode f"; simp)+

lemma delivers_posted:
  "posted_to a d fs \<Longrightarrow> length (concat (map encode fs)) < 4294967000 \<Longrightarrow> delivers (map encode fs) a d"
  by (auto simp: posted_to_def delivers_def)

lemma short_in_stream:
  assumes "f \<in> set fs" and "length (concat (map encode fs)) < 4294967000"
  shows "6 + length (payload f) < 4294967000"
proof -
  have "length (encode f) \<le> length (concat (map encode fs))"
    using assms(1) by (induction fs) auto
  with assms(2) show ?thesis by simp
qed

lemma session_delivered:
  assumes "posted_to a d fs" and "delivers cs a d" and "\<forall>f \<in> set fs. proper_type (ftype f)"
  shows "ctl_session command args cs = ctl_on_frames command args fs"
proof -
  from assms(1,2) have c: "concat cs = concat (map encode fs)" "length (concat (map encode fs)) < 4294967000"
    "[] \<notin> set cs" by (auto simp: posted_to_def delivers_def)
  have "\<forall>f \<in> set fs. sendable f"
    using short_in_stream [OF _ c(2)] assms(3) by (fastforce simp: sendable_def)
  from drain_frames_encode [OF this, of "[]"] have "holds [] cs fs"
    using c by (auto simp: holds_def)
  then show ?thesis by (rule ctl_session_holds)
qed

lemma text_delivered:
  assumes "posted_to a d fs" and "delivers cs a d" and "f \<in> set fs" and "payload f = pack_string s"
  shows "unpack_string (payload f) = Done (Some s)"
proof -
  from assms(1,2) have c: "length (concat (map encode fs)) < 4294967000"
    by (auto simp: posted_to_def delivers_def)
  with short_in_stream [OF assms(3)] assms(4) have "length s < 4294967296"
    by (simp add: pack_string_def)
  from unpack_pack_string [OF this, of "[]"] assms(4) show ?thesis by simp
qed

text \<open>The session up to the link state, which the request follows.\<close>

lemma ctl_on_greeting:
  assumes "unpack_string (payload l) = Done (Some st)" and "ftype l = LinkStateMsg"
    and "ctl_request command args = Some (request, expected, le)"
  shows "ctl_on_frames command args (hello_frame # l # fs) =
    map_cpp (\<lambda>code. (encode request, code)) (verdict_on expected le fs)"
proof -
  have "unpack_string (payload hello_frame) = Done (Some ''exn_gsd'')"
    using unpack_pack_string [of "''exn_gsd''" "[]"] by (simp add: hello_frame_def)
  with assms show ?thesis by (simp add: print_frame_def hello_frame_def)
qed

lemma link_frame_fields [simp]:
  "ftype (current_link_frame s) = LinkStateMsg" "ftype hello_frame = Hello"
  "ftype (make_query_result x) = QueryResult" "ftype (make_error_frame x) = ErrorMsg"
  "ftype (make_packet_frame ty m x) = ty"
  by (simp_all add: current_link_frame_def hello_frame_def make_query_result_def make_error_frame_def
      make_packet_frame_def)

definition link_text :: "snapshot \<Rightarrow> string" where
  "link_text n = link_state_to_string (link n) @ (if link_detail n \<noteq> [] then '' '' @ link_detail n else [])"

lemma link_frame_payload: "payload (current_link_frame s) = pack_string (link_text (snap s))"
  by (simp add: current_link_frame_def link_text_def)

lemma link_text_prefix [simp]:
  "starts_with (link_text n) ''ERROR'' \<longleftrightarrow> link n = LinkError"
  "starts_with (link_text n) ''CONNECTED'' \<longleftrightarrow> link n = Connected"
  "starts_with (link_text n) ''DISCONNECTED'' \<longleftrightarrow> link n = Disconnected"
  by (cases "link n"; simp add: link_text_def link_state_to_string_def starts_with_def)+

text \<open>A session in which the daemon sends one frame after its greeting.\<close>

lemma session_answered:
  assumes p: "posted_to a t [hello_frame, current_link_frame st, g]" and d: "delivers cs a t"
    and req: "ctl_request command args = Some (request, expected, le)" and g: "proper_type (ftype g)"
  shows "ctl_session command args cs = map_cpp (\<lambda>code. (encode request, code)) (verdict_on expected le [g])"
proof -
  have "ctl_session command args cs = ctl_on_frames command args [hello_frame, current_link_frame st, g]"
    using p d by (rule session_delivered) (simp add: g)
  also have "unpack_string (payload (current_link_frame st)) = Done (Some (link_text (snap st)))"
    using p d by (rule text_delivered) (simp_all add: link_frame_payload)
  then have "ctl_on_frames command args [hello_frame, current_link_frame st, g]
      = map_cpp (\<lambda>code. (encode request, code)) (verdict_on expected le [g])"
    using ctl_on_greeting [OF _ _ req] by simp
  finally show ?thesis .
qed

lemma judge_query:
  "unpack_string (payload g) = Done (Some x) \<Longrightarrow> ftype g = QueryResult \<Longrightarrow>
     judge QueryResult le g = Done (Some 0)"
  by (simp add: judge_def print_frame_def)

lemma judge_link:
  "unpack_string (payload g) = Done (Some x) \<Longrightarrow> ftype g = LinkStateMsg \<Longrightarrow>
     judge LinkStateMsg le g = Done (if starts_with x ''ERROR'' then Some 1
       else if state_accepted le x then Some 0 else None)"
  by (simp add: judge_def print_frame_def)

lemma query_answered:
  assumes "server_inv (ipc d)" and "a = next_id (ipc d)"
    and "t = reply a (make_query_result x) (client_accepted d)" and "delivers cs a t"
    and "ctl_request command [] = Some (request, QueryResult, le)"
  shows "ctl_session command [] cs = Done (encode request, 0)"
proof -
  have p: "posted_to a t [hello_frame, current_link_frame (store d), make_query_result x]"
    using posted_reply [OF posted_accepted [OF assms(1)]] assms(2,3) by fastforce
  moreover have "unpack_string (payload (make_query_result x)) = Done (Some x)"
    using p assms(4) by (rule text_delivered) (simp_all add: make_query_result_def)
  ultimately show ?thesis
    using session_answered [OF p assms(4,5)] by (simp add: judge_query)
qed

lemma link_answered:
  assumes "posted_to a t [hello_frame, current_link_frame st, current_link_frame st']" and "delivers cs a t"
    and "ctl_request command [] = Some (request, LinkStateMsg, le)"
    and "le = WantDisconnected \<longrightarrow> link (snap st') = Disconnected" and "le \<noteq> WantConnected"
  shows "ctl_session command [] cs = Done (encode request, if link (snap st') = LinkError then 1 else 0)"
proof -
  have "unpack_string (payload (current_link_frame st')) = Done (Some (link_text (snap st')))"
    using assms(1,2) by (rule text_delivered) (simp_all add: link_frame_payload)
  then show ?thesis
    using session_answered [OF assms(1-3)] assms(4,5)
    by (cases le) (auto simp: judge_link state_accepted_def)
qed

lemma disconnect_answered:
  assumes "parts_ok d" and "request = \<lparr>ftype = Command, payload = pack_string ''DISCONNECT''\<rparr>"
    and "ctl_request command [] = Some (request, LinkStateMsg, WantDisconnected)"
  shows "\<exists>t. frame_received E (next_id (ipc d)) request (client_accepted d) = Done t \<and>
    (\<forall>cs. delivers cs (next_id (ipc d)) t \<longrightarrow> ctl_session command [] cs = Done (encode request, 0))"
proof -
  let ?a = "next_id (ipc d)" and ?d = "client_accepted d"
  let ?u = "?d\<lparr>dev := fst (link_stop (dev d))\<rparr>" and ?st = "set_link Disconnected (detail (dev d)) (store d)"
  let ?t = "announce (current_link_frame ?st) (?u\<lparr>store := ?st\<rparr>)"
  have inv: "server_inv (ipc d)" "server_inv (ipc ?d)"
    using assms(1) parts_ok_ops(9) [OF assms(1)] by (simp_all add: parts_ok_def)
  have "uppercase ''DISCONNECT'' = ''DISCONNECT''" by code_simp
  then have "frame_received E ?a request ?d = Done ?t"
    using frame_received_command [of request "''DISCONNECT''" E ?a ?d] assms(2)
    by (simp add: run_command_def stop_link_Done report_link_def publish_link_state_def)
  moreover have "posted_to ?a ?t ([hello_frame, current_link_frame (store d)] @ [current_link_frame ?st])"
    by (intro posted_announce posted_same_ipc [OF _ posted_accepted [OF inv(1)]]) (simp_all add: inv(2))
  ultimately show ?thesis
    using link_answered [of ?a ?t "store d" ?st] assms(3) by (simp add: set_link_def)
qed

text \<open>C7: The command-line client against the daemon: for every reachable daemon, the request that
  \<open>gsdctl ping\<close>, \<open>stats\<close>, \<open>status\<close> or \<open>disconnect\<close> writes on its new connection is served, and however
  the socket cuts what the daemon sends back (the greeting, the link state, the answer), the client ends
  with code 0; only \<open>status\<close> ends with 1, exactly when the link is in error.\<close>
theorem control_commands_answered:
  assumes "daemon_reach E d" and "command \<in> {''ping'', ''stats'', ''status'', ''disconnect''}"
    and "ctl_request command [] = Some (request, expected, le)"
  shows "\<exists>t. frame_received E (next_id (ipc d)) request (client_accepted d) = Done t \<and>
    (\<forall>cs. delivers cs (next_id (ipc d)) t \<longrightarrow> ctl_session command [] cs =
       Done (encode request, if command = ''status'' \<and> link (snap (store d)) = LinkError then 1 else 0))"
proof -
  let ?a = "next_id (ipc d)" and ?d = "client_accepted d"
  have inv: "server_inv (ipc d)" using parts_ok_reach [OF assms(1)] by (simp add: parts_ok_def)
  from assms(2,3) consider
      (ping) "command = ''ping''" "request = \<lparr>ftype = Command, payload = pack_string ''PING''\<rparr>" "expected = QueryResult"
    | (stats) "command = ''stats''" "request = \<lparr>ftype = Command, payload = pack_string ''STATS''\<rparr>" "expected = QueryResult"
    | (status) "command = ''status''" "request = \<lparr>ftype = Command, payload = pack_string ''STATUS''\<rparr>" "expected = LinkStateMsg" "le = AnyLink"
    | (disconnect) "command = ''disconnect''" "request = \<lparr>ftype = Command, payload = pack_string ''DISCONNECT''\<rparr>" "expected = LinkStateMsg" "le = WantDisconnected"
    by (auto simp: ctl_request_def)
  then show ?thesis
  proof cases
    case ping
    have "uppercase ''PING'' = ''PING''" by code_simp
    with ping(2) have "frame_received E ?a request ?d = Done (reply ?a (make_query_result ''PONG'') ?d)"
      using frame_received_command [of request "''PING''" E ?a ?d] by (simp add: run_command_def)
    with query_answered [OF inv refl refl] assms(3) ping show ?thesis by simp
  next
    case stats
    have "uppercase ''STATS'' = ''STATS''" by code_simp
    with stats(2) have "frame_received E ?a request ?d
        = Done (reply ?a (make_query_result (format_stats (snap (store d)))) ?d)"
      using frame_received_command [of request "''STATS''" E ?a ?d] by (simp add: run_command_def)
    with query_answered [OF inv refl refl] assms(3) stats show ?thesis by simp
  next
    case status
    have "uppercase ''STATUS'' = ''STATUS''" by code_simp
    with status(2) have "frame_received E ?a request ?d = Done (reply ?a (current_link_frame (store d)) ?d)"
      using frame_received_command [of request "''STATUS''" E ?a ?d] by (simp add: run_command_def)
    with link_answered [OF posted_reply [OF posted_accepted [OF inv], simplified]] assms(3) status show ?thesis
      by simp
  next
    case disconnect
    with disconnect_answered [OF parts_ok_reach [OF assms(1)] disconnect(2), of command E] assms(3)
    show ?thesis by simp
  qed
qed

theorem control_commands_answered_witness:
  "ctl_session ''ping'' [] (map encode [hello_frame, current_link_frame (store bench_open), make_query_result ''PONG''])
     = Done (encode \<lparr>ftype = Command, payload = pack_string ''PING''\<rparr>, 0)"
proof -
  let ?r = "\<lparr>ftype = Command, payload = pack_string ''PING''\<rparr>" and ?g = "make_query_result ''PONG''"
  let ?cs = "map encode [hello_frame, current_link_frame (store bench_open), ?g]"
  have id: "next_id (ipc bench_open) = 0" by (simp add: bench_open_def new_server_def)
  from control_commands_answered [OF reach_bench_open, of "''ping''" ?r QueryResult AnyLink]
  obtain t where t: "frame_received bench 0 ?r bench_client = Done t"
    and c: "\<And>cs. delivers cs 0 t \<Longrightarrow> ctl_session ''ping'' [] cs = Done (encode ?r, 0)"
    by (auto simp: ctl_request_def id bench_client_def)
  have "uppercase ''PING'' = ''PING''" by code_simp
  then have "frame_received bench 0 ?r bench_client = Done (reply 0 ?g bench_client)"
    using frame_received_command [of ?r "''PING''" bench 0 bench_client] by (simp add: run_command_def)
  with t have "t = reply 0 ?g bench_client" by simp
  then have "posted_to 0 t ([hello_frame, current_link_frame (store bench_open)] @ [?g])"
    using posted_reply [OF posted_accepted [of bench_open], of ?g]
    by (simp only: id bench_client_def) (simp add: bench_open_def server_inv_new)
  then have "delivers ?cs 0 t"
    using delivers_posted [of 0 t "[hello_frame, current_link_frame (store bench_open), ?g]"]
    by (simp add: hello_frame_def make_query_result_def current_link_frame_def pack_string_def
        bench_open_def set_link_def link_state_to_string_def)
  then show ?thesis by (rule c)
qed

lemma print_packet: "ftype f = PacketTx \<Longrightarrow> \<exists>x. print_frame f = Done x"
  by (cases "unpack_packet_meta (payload f) empty_meta []"; cases "fst (unpack_packet_meta (payload f) empty_meta [])")
    (auto simp: print_frame_def)

text \<open>A client that has just connected, another one's packet, and the new one's refused packet.\<close>

lemma refused_after_another:
  assumes "sizes_sane (lib E)" and "server_inv (ipc d)" and "opened (dev d)"
    and "routable (lib E) p" and "\<not> routable (lib E) q"
  shows "\<exists>t u m m' e. frame_received E b \<lparr>ftype = PacketSend, payload = p\<rparr> (client_accepted d) = Done t
    \<and> frame_received E (next_id (ipc d)) \<lparr>ftype = PacketSend, payload = q\<rparr> t = Done u
    \<and> dev t = (dev d)\<lparr>posted := posted (dev d) @ [p]\<rparr> \<and> dev u = dev t \<and> store u = store t
    \<and> decode_meta (lib E) (clock E (ticks t)) q = Done (False, m', e)
    \<and> posted_to (next_id (ipc d)) u [hello_frame, current_link_frame (store d),
         make_packet_frame PacketTx m ''TX'', make_error_frame (''Rejected outbound packet: '' @ e)]"
proof -
  let ?a = "next_id (ipc d)"
  have inv': "server_inv (ipc (client_accepted d))"
    using assms(2) by (simp add: client_accepted_def server_inv_send server_inv_accept)
  from packet_send_accepted [OF assms(1,4), of "client_accepted d" b] assms(3) obtain m where
    t: "packet_send E b p (client_accepted d) = Done (announce (make_packet_frame PacketTx m ''TX'')
      ((tick (client_accepted d))\<lparr>dev := (dev d)\<lparr>posted := posted (dev d) @ [p]\<rparr>,
         store := on_tx (length p) (store d)\<rparr>))" (is "_ = Done ?t") by auto
  have pt: "posted_to ?a ?t ([hello_frame, current_link_frame (store d)] @ [make_packet_frame PacketTx m ''TX''])"
    by (intro posted_announce posted_same_ipc [OF _ posted_accepted [OF assms(2)]]) (simp_all add: inv')
  obtain m' e where e: "decode_meta (lib E) (clock E (ticks ?t)) q = Done (False, m', e)"
    using decode_meta_defined [OF assms(1), of "clock E (ticks ?t)" q] decode_meta_result(1) assms(5) by metis
  then have u: "packet_send E ?a q ?t
      = Done (reply ?a (make_error_frame (''Rejected outbound packet: '' @ e)) (tick ?t))" (is "_ = Done ?u")
    by (simp add: packet_send_def Let_def)
  have "posted_to ?a ?u [hello_frame, current_link_frame (store d), make_packet_frame PacketTx m ''TX'',
      make_error_frame (''Rejected outbound packet: '' @ e)]"
    using posted_reply [OF posted_same_ipc [OF _ pt], of "tick ?t"] by simp
  with t u e show ?thesis
    by (intro exI [of _ ?t] exI [of _ ?u] exI [of _ m] exI [of _ m'] exI [of _ e])
      (simp add: frame_received_def)
qed

text \<open>C9: A refused packet can look sent: when another client's packet goes out after \<open>gsdctl raw\<close>
  connected and before its own packet is refused, the announcement of the other packet is the frame
  \<open>gsdctl\<close> waits for, and it ends with code 0 although nothing of its packet reached the device.\<close>
theorem refused_packet_reported_sent:
  assumes "sizes_sane (lib E)" and "daemon_reach E d" and "opened (dev d)"
    and "routable (lib E) p" and "\<not> routable (lib E) q" and "q \<noteq> []"
    and "frame_received E b \<lparr>ftype = PacketSend, payload = p\<rparr> (client_accepted d) = Done t"
    and "frame_received E (next_id (ipc d)) \<lparr>ftype = PacketSend, payload = q\<rparr> t = Done u"
    and "delivers cs (next_id (ipc d)) u"
  shows "dev u = (dev d)\<lparr>posted := posted (dev d) @ [p]\<rparr> \<and>
    ctl_session ''raw'' [show_hex q] cs = Done (encode \<lparr>ftype = PacketSend, payload = q\<rparr>, 0)"
proof -
  let ?a = "next_id (ipc d)" and ?r = "\<lparr>ftype = PacketSend, payload = q\<rparr>"
  have inv: "server_inv (ipc d)" using parts_ok_reach [OF assms(2)] by (simp add: parts_ok_def)
  from refused_after_another [OF assms(1) inv assms(3,4,5), of b] assms(7,8) obtain m e where
    u: "dev u = (dev d)\<lparr>posted := posted (dev d) @ [p]\<rparr>"
    and p: "posted_to ?a u [hello_frame, current_link_frame (store d), make_packet_frame PacketTx m ''TX'',
      make_error_frame (''Rejected outbound packet: '' @ e)]" by auto
  have req: "ctl_request ''raw'' [show_hex q] = Some (?r, PacketTx, AnyLink)"
    using decode_hex_digits [of "\<lambda>c. c" q] assms(6) by (simp add: ctl_request_def show_hex_def hex_value_digit)
  have "unpack_string (payload (current_link_frame (store d))) = Done (Some (link_text (snap (store d))))"
    using p assms(9) by (rule text_delivered) (simp_all add: link_frame_payload)
  moreover obtain x where "print_frame (make_packet_frame PacketTx m ''TX'') = Done x"
    using print_packet [of "make_packet_frame PacketTx m ''TX''"] by auto
  ultimately have "ctl_session ''raw'' [show_hex q] cs = Done (encode ?r, 0)"
    using session_delivered [OF p assms(9), of "''raw''" "[show_hex q]"] ctl_on_greeting [OF _ _ req]
    by (simp add: judge_def del: ctl_on_frames.simps)
  with u show ?thesis by blast
qed

theorem refused_packet_reported_sent_witness:
  "\<exists>t u cs. frame_received bench 5 \<lparr>ftype = PacketSend, payload = hk_request_octets\<rparr> bench_client = Done t
    \<and> frame_received bench 0 \<lparr>ftype = PacketSend, payload = [0x18, 0xAB]\<rparr> t = Done u
    \<and> posted (dev u) = [hk_request_octets]
    \<and> ctl_session ''raw'' [show_hex [0x18, 0xAB]] cs
        = Done (encode \<lparr>ftype = PacketSend, payload = [0x18, 0xAB]\<rparr>, 0)"
proof -
  let ?q = "[0x18, 0xAB] :: bytes"
  have id: "next_id (ipc bench_open) = 0" and inv: "server_inv (ipc bench_open)"
    and op: "opened (dev bench_open)" and po: "posted (dev bench_open) = []"
    by (simp_all add: bench_open_def server_inv_new serial_open_fixture_def serial_fixture_def)
      (simp add: new_server_def)
  have p: "routable (lib bench) hk_request_octets" by (simp add: bench_def routable_hk_request)
  have q: "\<not> routable (lib bench) ?q"
    by (simp add: bench_def routable_def icd_pack_def icd_declared_size_def)
  from refused_after_another [OF bench_sane inv op p q, of 5] obtain t u m m' e where
    t: "frame_received bench 5 \<lparr>ftype = PacketSend, payload = hk_request_octets\<rparr> bench_client = Done t"
    and u: "frame_received bench 0 \<lparr>ftype = PacketSend, payload = ?q\<rparr> t = Done u"
    and e: "decode_meta (lib bench) (clock bench (ticks t)) ?q = Done (False, m', e)"
    and pu: "posted_to 0 u [hello_frame, current_link_frame (store bench_open),
         make_packet_frame PacketTx m ''TX'', make_error_frame (''Rejected outbound packet: '' @ e)]"
    (is "posted_to 0 u ?fs") by (auto simp: id bench_client_def)
  from e have "length e < 100"
    by (auto simp: decode_meta_def bench_def icd_pack_def icd_declared_size_def set_error_def Let_def)
  then have "delivers (map encode ?fs) 0 u"
    by (intro delivers_posted [OF pu]) (simp add: hello_frame_def current_link_frame_def pack_string_def
        bench_open_def set_link_def link_state_to_string_def make_packet_frame_def make_error_frame_def)
  with refused_packet_reported_sent [OF bench_sane reach_bench_open op p q _
      t [unfolded bench_client_def] u [folded id]] id t u po
  show ?thesis by (intro exI [of _ t] exI [of _ u] exI [of _ "map encode ?fs"]) simp
qed

end
